(* ===== verification/Ecp_Prelude.thy ===== *)
theory Ecp_Prelude
  imports Main "HOL-Library.AList" "HOL-Library.List_Lexorder" "HOL-Library.Multiset"
    "HOL-Library.Code_Target_Nat"
begin

text \<open>
  What every component theory shares: the model's basic types (Python strings as lists of code
  points, byte strings, results), the traversal of a list by a fallible function, Python's
  insertion-ordered dictionaries as association lists, and the facts about sorting, partition
  and lexicographic order the components use.
\<close>

section \<open>Strings, bytes and results\<close>

text \<open>
  A Python \<open>str\<close> is a sequence of code points, so it is a list of natural numbers here;
  Python's order on strings is then the lexicographic order of \<^theory_text>\<open>List_Lexorder\<close>.
  \<open>str ''abc''\<close> is an ASCII literal.  A byte string is a list of numbers below 256.
\<close>

type_synonym pystr = "nat list"
type_synonym bytes = "nat list"

definition str :: "string \<Rightarrow> pystr" where
  "str cs = map of_char cs"

lemma str_eq_iff [simp]: "str a = str b \<longleftrightarrow> a = b"
  by (simp add: str_def inj_map_eq_map [OF inj_of_char])

lemma str_eq_Nil [simp]: "str a = [] \<longleftrightarrow> a = []" "[] = str a \<longleftrightarrow> a = []"
  by (auto simp: str_def)

text \<open>\<^verbatim>\<open>s.split(c)\<close> for a separator of one character.\<close>

fun split_on :: "nat \<Rightarrow> pystr \<Rightarrow> pystr list" where
  "split_on c [] = [[]]"
| "split_on c (x # xs) =
     (if x = c then [] # split_on c xs
      else case split_on c xs of p # ps \<Rightarrow> (x # p) # ps | [] \<Rightarrow> [[x]])"

lemma split_on_neq_Nil: "split_on c s \<noteq> []"
  by (induction s) (auto split: list.split)

lemma split_on_free: "c \<notin> set s \<Longrightarrow> split_on c s = [s]"
  by (induction s) auto

lemma split_on_append:
  "c \<notin> set s \<Longrightarrow> split_on c (s @ c # t) = s # split_on c t"
  by (induction s) auto

text \<open>A fallible operation returns \<open>Inl\<close> of the exception it raises or \<open>Inr\<close> of its result.\<close>

definition rbind :: "'e + 'a \<Rightarrow> ('a \<Rightarrow> 'e + 'b) \<Rightarrow> 'e + 'b" where
  "rbind m f = (case m of Inl e \<Rightarrow> Inl e | Inr x \<Rightarrow> f x)"

definition require :: "bool \<Rightarrow> 'e \<Rightarrow> 'e + unit" where
  "require c e = (if c then Inr () else Inl e)"

named_theorems result_simps "elimination of the result type's operations"

lemma rbind_simps [simp]:
  "rbind (Inl e) f = Inl e"
  "rbind (Inr x) f = f x"
  by (simp_all add: rbind_def)

lemma rbind_eq_Inr [result_simps]:
  "rbind m f = Inr y \<longleftrightarrow> (\<exists>x. m = Inr x \<and> f x = Inr y)"
  by (cases m) auto

lemma rbind_eq_Inl [result_simps]:
  "rbind m f = Inl e \<longleftrightarrow> m = Inl e \<or> (\<exists>x. m = Inr x \<and> f x = Inl e)"
  by (cases m) auto

lemma rbind_cong [fundef_cong]:
  assumes "m = m'" and "\<And>x. m' = Inr x \<Longrightarrow> f x = f' x"
  shows "rbind m f = rbind m' f'"
  using assms by (cases m') auto

lemma require_eq_Inr [simp, result_simps]: "require c e = Inr u \<longleftrightarrow> c"
  by (simp add: require_def)

lemma require_eq_Inl [simp, result_simps]: "require c e = Inl e' \<longleftrightarrow> \<not> c \<and> e' = e"
  by (auto simp: require_def)

lemma require_simps [simp]: "require True e = Inr ()" "require False e = Inl e"
  by (simp_all add: require_def)

lemma Inr_iff_not_Inl: "(\<exists>y. m = Inr y) \<longleftrightarrow> (\<forall>e. m \<noteq> Inl e)"
  by (cases m) auto

text \<open>A fallible operation over a list stops at its first error, as the exception would.\<close>

fun rmap :: "('a \<Rightarrow> 'e + 'b) \<Rightarrow> 'a list \<Rightarrow> 'e + 'b list" where
  "rmap f [] = Inr []"
| "rmap f (x # xs) = rbind (f x) (\<lambda>y. rbind (rmap f xs) (\<lambda>ys. Inr (y # ys)))"

lemma rmap_cong [fundef_cong]:
  assumes "xs = ys" and "\<And>x. x \<in> set ys \<Longrightarrow> f x = g x"
  shows "rmap f xs = rmap g ys"
  using assms(2) unfolding assms(1) by (induction ys) auto

lemma rmap_eq_Inr_iff:
  "rmap f xs = Inr ys \<longleftrightarrow> list_all2 (\<lambda>x y. f x = Inr y) xs ys"
proof (induction xs arbitrary: ys)
  case Nil
  then show ?case by auto
next
  case (Cons x xs)
  then show ?case by (cases ys) (auto simp: result_simps)
qed

lemma rmap_ok_iff: "(\<exists>ys. rmap f xs = Inr ys) \<longleftrightarrow> (\<forall>x \<in> set xs. \<exists>y. f x = Inr y)"
  by (induction xs) (auto simp: result_simps)

lemma rmap_length: "rmap f xs = Inr ys \<Longrightarrow> length ys = length xs"
  by (auto simp: rmap_eq_Inr_iff dest: list_all2_lengthD)

lemma rmap_mem: "rmap f xs = Inr ys \<Longrightarrow> y \<in> set ys \<Longrightarrow> \<exists>x \<in> set xs. f x = Inr y"
  by (induction xs arbitrary: ys) (auto simp: result_simps)

lemma rmap_pure: "rmap (\<lambda>x. Inr (f x)) xs = Inr (map f xs)"
  by (induction xs) auto

section \<open>Dictionaries\<close>

text \<open>
  A Python dictionary keeps insertion order: \<open>AList.update\<close> replaces the value of a present key
  in place and appends a new key at the end, \<open>map_of\<close> looks a key up.  Grouping
  records under a key (\<open>setdefault(k, []).append(x)\<close>) is \<open>dappend\<close>.
\<close>

fun dappend :: "'k \<Rightarrow> 'v \<Rightarrow> ('k \<times> 'v list) list \<Rightarrow> ('k \<times> 'v list) list" where
  "dappend k v [] = [(k, [v])]"
| "dappend k v ((k', vs) # d) =
     (if k' = k then (k', vs @ [v]) # d else (k', vs) # dappend k v d)"

definition group_by :: "('a \<Rightarrow> 'k) \<Rightarrow> 'a list \<Rightarrow> ('k \<times> 'a list) list" where
  "group_by f xs = fold (\<lambda>x d. dappend (f x) x d) xs []"

definition dget :: "('k \<times> 'v list) list \<Rightarrow> 'k \<Rightarrow> 'v list" where
  "dget d k = (case map_of d k of None \<Rightarrow> [] | Some vs \<Rightarrow> vs)"

lemma dget_dappend: "dget (dappend k v d) k' = (if k' = k then dget d k @ [v] else dget d k')"
  by (induction k v d rule: dappend.induct) (auto simp: dget_def)

lemma dget_fold_dappend:
  "dget (fold (\<lambda>x d. dappend (f x) x d) xs d) k = dget d k @ filter (\<lambda>x. f x = k) xs"
  by (induction xs arbitrary: d) (auto simp: dget_dappend)

lemma dget_group_by [simp]: "dget (group_by f xs) k = filter (\<lambda>x. f x = k) xs"
  by (simp add: group_by_def dget_fold_dappend) (simp add: dget_def)

lemma keys_dappend: "fst ` set (dappend k v d) = insert k (fst ` set d)"
  by (induction k v d rule: dappend.induct) auto

lemma distinct_dappend: "distinct (map fst d) \<Longrightarrow> distinct (map fst (dappend k v d))"
proof (induction k v d rule: dappend.induct)
  case (2 k v k' vs d)
  then show ?case using keys_dappend [of k v d] by auto
qed simp

lemma keys_fold_dappend:
  "fst ` set (fold (\<lambda>x d. dappend (f x) x d) xs d) = fst ` set d \<union> f ` set xs"
  by (induction xs arbitrary: d) (auto simp: keys_dappend)

lemma keys_group_by: "fst ` set (group_by f xs) = f ` set xs"
  by (simp add: group_by_def keys_fold_dappend)

lemma distinct_fold_dappend:
  "distinct (map fst d) \<Longrightarrow> distinct (map fst (fold (\<lambda>x d. dappend (f x) x d) xs d))"
  by (induction xs arbitrary: d) (auto intro: distinct_dappend)

lemma distinct_group_by: "distinct (map fst (group_by f xs))"
  by (simp add: group_by_def distinct_fold_dappend)

lemma group_by_mem:
  assumes "(k, vs) \<in> set (group_by f xs)"
  shows "vs = filter (\<lambda>x. f x = k) xs"
proof -
  have "map_of (group_by f xs) k = Some vs"
    using assms distinct_group_by [of f xs] by (simp add: map_of_is_SomeI)
  then have "dget (group_by f xs) k = vs" by (simp add: dget_def)
  then show ?thesis by simp
qed

text \<open>Two dictionaries with the same lookups hold the same items.\<close>

lemma same_lookups_same_items:
  assumes "distinct (map fst d)" "distinct (map fst e)" "map_of d = map_of e"
  shows "mset d = mset e"
proof -
  have "set d = set e"
    using assms by (metis map_of_eq_Some_iff subsetI subset_antisym surj_pair)
  moreover have "distinct d" "distinct e" using assms by (simp_all add: distinct_map)
  ultimately show ?thesis by (simp add: set_eq_iff_mset_eq_distinct)
qed

lemma map_of_map_values: "map_of (map (\<lambda>kv. (fst kv, f (snd kv))) d) k = map_option f (map_of d k)"
  by (induction d) auto

section \<open>Sorting\<close>

lemma sort_key_filter_eq:
  "mset (sort_key f xs) = mset xs" "set (sort_key f xs) = set xs" "length (sort_key f xs) = length xs"
  by simp_all

lemma map_sort_key_eq_sort_map: "map f (sort_key f xs) = sort (map f xs)"
  by (rule properties_for_sort [symmetric]) simp_all

lemma sort_key_unique:
  fixes f :: "'a \<Rightarrow> 'b::linorder"
  assumes "mset xs = mset ys" and "inj_on f (set xs)"
  shows "sort_key f xs = sort_key f ys"
proof (rule map_inj_on)
  have "mset (map f xs) = mset (map f ys)" using assms(1) by simp
  then have "sort (map f xs) = sort (map f ys)"
    by (intro properties_for_sort) simp_all
  then show "map f (sort_key f xs) = map f (sort_key f ys)"
    by (simp add: map_sort_key_eq_sort_map)
  have "set ys = set xs" using assms(1) by (metis mset_eq_setD)
  then show "inj_on f (set (sort_key f xs) \<union> set (sort_key f ys))"
    using assms(2) by simp
qed

lemma sort_key_id: "sorted (map f xs) \<Longrightarrow> sort_key f xs = xs"
  by (induction xs) (auto simp: insort_is_Cons)

end
