(* ===== verification/Canonical.thy ===== *)
theory Canonical
  imports Ecp_Prelude
begin

text \<open>
  \<^verbatim>\<open>sdk_python/evidence/canonical.py\<close>: the RFC 8785 canonicalizer.  Python values are
  \<open>pyval\<close>; \<open>serialize\<close> is \<^verbatim>\<open>_serialize\<close>, \<open>canonicalize\<close> and
  \<open>canonical_digest\<close> the public functions.  SHA-256 is a parameter.
  The lemmas give the exact domain of the canonicalizer and its independence of dictionary
  insertion order; \<^theory_text>\<open>Json_Text\<close> adds that parsing inverts it.
\<close>

section \<open>Values\<close>

text \<open>
  What the canonicalizer can be handed.  A float carries no value: every float is refused.
  \<open>POther\<close> is an object of any other type, with its type's name.  A dictionary key is a string
  or something else.
\<close>

datatype pykey = KStr pystr | KNonStr

datatype pyval =
    PNone
  | PBool bool
  | PInt int
  | PFloat
  | PStr pystr
  | PList "pyval list"
  | PDict "(pykey \<times> pyval) list"
  | POther pystr

type_synonym pydict = "(pykey \<times> pyval) list"

datatype canon_error =
    LoneSurrogate
  | IntegerRange
  | FloatForbidden
  | KeyNotString
  | UnsupportedType pystr

definition max_safe_integer :: int where
  "max_safe_integer = 9007199254740991"

section \<open>Strings and integers\<close>

definition is_surrogate :: "nat \<Rightarrow> bool" where
  "is_surrogate c \<longleftrightarrow> 0xD800 \<le> c \<and> c \<le> 0xDFFF"

definition utf16be_char :: "nat \<Rightarrow> bytes" where
  "utf16be_char c =
     (if c < 0x10000 then [c div 256, c mod 256]
      else let h = 0xD800 + (c - 0x10000) div 0x400; l = 0xDC00 + (c - 0x10000) mod 0x400
           in [h div 256, h mod 256, l div 256, l mod 256])"

definition utf16be :: "pystr \<Rightarrow> bytes" where
  "utf16be s = concat (map utf16be_char s)"

text \<open>\<^verbatim>\<open>_utf16_sort_key\<close>: the codec refuses lone surrogates.\<close>

definition utf16_sort_key :: "pystr \<Rightarrow> canon_error + bytes" where
  "utf16_sort_key s =
     (if list_ex is_surrogate s then Inl LoneSurrogate else Inr (utf16be s))"

definition hex_digit :: "nat \<Rightarrow> nat" where
  "hex_digit d = (if d < 10 then 48 + d else 87 + d)"

definition hex4 :: "nat \<Rightarrow> pystr" where
  "hex4 c = [hex_digit (c div 4096 mod 16), hex_digit (c div 256 mod 16),
             hex_digit (c div 16 mod 16), hex_digit (c mod 16)]"

text \<open>
  One iteration of the loop of \<^verbatim>\<open>_quote\<close>: the surrogate check, the table of short escapes
  (\<open>\b \t \n \f \r \" \\\<close>), the \<open>\u00XX\<close> form of the other controls, everything else verbatim.
\<close>

definition short_escape :: "nat \<Rightarrow> nat option" where
  "short_escape c =
     (if c = 8 then Some 98 else if c = 9 then Some 116 else if c = 10 then Some 110
      else if c = 12 then Some 102 else if c = 13 then Some 114
      else if c = 34 then Some 34 else if c = 92 then Some 92 else None)"

definition quote_char :: "nat \<Rightarrow> canon_error + pystr" where
  "quote_char c =
     (if is_surrogate c then Inl LoneSurrogate
      else case short_escape c of
             Some e \<Rightarrow> Inr [92, e]
           | None \<Rightarrow> if c \<le> 0x1F then Inr ([92, 117] @ hex4 c) else Inr [c])"

definition quote_str :: "pystr \<Rightarrow> canon_error + pystr" where
  "quote_str s = rbind (rmap quote_char s) (\<lambda>pieces. Inr ([34] @ concat pieces @ [34]))"

text \<open>Python's \<open>str\<close> of an integer.\<close>

fun dec_nat :: "nat \<Rightarrow> pystr" where
  "dec_nat n = (if n < 10 then [48 + n] else dec_nat (n div 10) @ [48 + n mod 10])"

declare dec_nat.simps [simp del]

definition int_str :: "int \<Rightarrow> pystr" where
  "int_str i = (if i < 0 then 45 # dec_nat (nat (- i)) else dec_nat (nat i))"

section \<open>The serializer\<close>

fun join_comma :: "pystr list \<Rightarrow> pystr" where
  "join_comma [] = []"
| "join_comma [p] = p"
| "join_comma (p # ps) = p @ [44] @ join_comma ps"

definition item_key :: "pykey \<times> pyval \<Rightarrow> bytes" where
  "item_key kv = (case fst kv of KStr k \<Rightarrow> utf16be k | KNonStr \<Rightarrow> [])"

definition key_text :: "pykey \<Rightarrow> pystr" where
  "key_text k = (case k of KStr t \<Rightarrow> t | KNonStr \<Rightarrow> [])"

lemma size_member [termination_simp]:
  "kv \<in> set d \<Longrightarrow> size (snd kv) < Suc (size_list (size_prod f size) d)"
  by (rule less_SucI, erule size_list_estimation) (simp add: size_prod_simp)

text \<open>
  \<^verbatim>\<open>_serialize\<close>.  The key checks of a dictionary precede its sorting, the sort keys of all
  members are computed before any member is serialized, and each member is \<open>"key":value\<close>.
\<close>

fun serialize :: "pyval \<Rightarrow> canon_error + pystr" where
  "serialize PNone = Inr (str ''null'')"
| "serialize (PBool b) = Inr (if b then str ''true'' else str ''false'')"
| "serialize (PInt i) =
     (if \<not> (- max_safe_integer \<le> i \<and> i \<le> max_safe_integer) then Inl IntegerRange
      else Inr (int_str i))"
| "serialize PFloat = Inl FloatForbidden"
| "serialize (PStr s) = quote_str s"
| "serialize (PList xs) =
     rbind (rmap serialize xs) (\<lambda>ps. Inr ([91] @ join_comma ps @ [93]))"
| "serialize (PDict d) =
     (if list_ex (\<lambda>kv. fst kv = KNonStr) d then Inl KeyNotString
      else rbind (rmap (\<lambda>kv. utf16_sort_key (key_text (fst kv))) d) (\<lambda>_.
           rbind (rmap (\<lambda>kv. rbind (quote_str (key_text (fst kv))) (\<lambda>q.
                              rbind (serialize (snd kv)) (\<lambda>s. Inr (q @ [58] @ s))))
                       (sort_key item_key d))
             (\<lambda>ps. Inr ([123] @ join_comma ps @ [125]))))"
| "serialize (POther t) = Inl (UnsupportedType t)"

section \<open>UTF-8 and the public functions\<close>

definition utf8_char :: "nat \<Rightarrow> bytes" where
  "utf8_char c =
     (if c < 0x80 then [c]
      else if c < 0x800 then [0xC0 + c div 64, 0x80 + c mod 64]
      else if c < 0x10000 then [0xE0 + c div 4096, 0x80 + c div 64 mod 64, 0x80 + c mod 64]
      else [0xF0 + c div 262144, 0x80 + c div 4096 mod 64, 0x80 + c div 64 mod 64, 0x80 + c mod 64])"

definition utf8 :: "pystr \<Rightarrow> bytes" where
  "utf8 s = concat (map utf8_char s)"

definition canonicalize :: "pyval \<Rightarrow> canon_error + bytes" where
  "canonicalize v = rbind (serialize v) (\<lambda>s. Inr (utf8 s))"

definition hexdigest :: "bytes \<Rightarrow> pystr" where
  "hexdigest bs = concat (map (\<lambda>b. [hex_digit (b div 16), hex_digit (b mod 16)]) bs)"

text \<open>\<open>sha\<close> stands for \<^verbatim>\<open>hashlib.sha256\<close>.\<close>

definition digest_text :: "(bytes \<Rightarrow> bytes) \<Rightarrow> bytes \<Rightarrow> pystr" where
  "digest_text sha bs = str ''sha256:'' @ hexdigest (sha bs)"

definition canonical_digest :: "(bytes \<Rightarrow> bytes) \<Rightarrow> pyval \<Rightarrow> canon_error + pystr" where
  "canonical_digest sha v = rbind (canonicalize v) (\<lambda>bs. Inr (digest_text sha bs))"

section \<open>The domain of the canonicalizer\<close>

text \<open>
  \<open>portable\<close>: no float, no foreign type, integers in the interoperable range, strings and keys
  without surrogates, keys strings.
\<close>

fun portable :: "pyval \<Rightarrow> bool" where
  "portable PNone = True"
| "portable (PBool b) = True"
| "portable (PInt i) = (- max_safe_integer \<le> i \<and> i \<le> max_safe_integer)"
| "portable PFloat = False"
| "portable (PStr s) = list_all (\<lambda>c. \<not> is_surrogate c) s"
| "portable (PList xs) = list_all portable xs"
| "portable (PDict d) =
     list_all (\<lambda>kv. fst kv \<noteq> KNonStr \<and> list_all (\<lambda>c. \<not> is_surrogate c) (key_text (fst kv))
                    \<and> portable (snd kv)) d"
| "portable (POther t) = False"

lemma pyval_induct [case_names PNone PBool PInt PFloat PStr PList PDict POther]:
  assumes "P PNone" "\<And>b. P (PBool b)" "\<And>i. P (PInt i)" "P PFloat" "\<And>s. P (PStr s)"
    and "\<And>xs. (\<And>x. x \<in> set xs \<Longrightarrow> P x) \<Longrightarrow> P (PList xs)"
    and "\<And>d. (\<And>kv. kv \<in> set d \<Longrightarrow> P (snd kv)) \<Longrightarrow> P (PDict d)"
    and "\<And>t. P (POther t)"
  shows "P v"
  by (induction v) (use assms in \<open>auto simp: snds.simps\<close>)

lemma quote_char_ok_iff: "(\<exists>p. quote_char c = Inr p) \<longleftrightarrow> \<not> is_surrogate c"
  by (simp add: quote_char_def split: option.splits)

lemma quote_str_ok_iff: "(\<exists>p. quote_str s = Inr p) \<longleftrightarrow> list_all (\<lambda>c. \<not> is_surrogate c) s"
proof -
  have "(\<exists>p. quote_str s = Inr p) \<longleftrightarrow> (\<exists>ps. rmap quote_char s = Inr ps)"
    by (auto simp: quote_str_def result_simps)
  then show ?thesis by (simp add: rmap_ok_iff quote_char_ok_iff list_all_iff)
qed

lemma utf16_sort_key_ok_iff:
  "(\<exists>b. utf16_sort_key s = Inr b) \<longleftrightarrow> list_all (\<lambda>c. \<not> is_surrogate c) s"
  by (auto simp: utf16_sort_key_def list_ex_iff list_all_iff)

lemma serialize_ok_iff: "(\<exists>s. serialize v = Inr s) \<longleftrightarrow> portable v"
proof (induction v rule: pyval_induct)
  case (PList xs)
  have "(\<exists>s. serialize (PList xs) = Inr s) \<longleftrightarrow> (\<exists>ps. rmap serialize xs = Inr ps)"
    by (auto simp: result_simps)
  with PList show ?case by (simp add: rmap_ok_iff list_all_iff)
next
  case (PDict d)
  show ?case
  proof (cases "list_ex (\<lambda>kv. fst kv = KNonStr) d")
    case True
    then show ?thesis by (auto simp: list_ex_iff list_all_iff)
  next
    case False
    note keys = False
    let ?m = "\<lambda>kv. rbind (quote_str (key_text (fst kv)))
                      (\<lambda>q. rbind (serialize (snd kv)) (\<lambda>s. Inr (q @ [58] @ s)))"
    have member: "(\<exists>y. ?m kv = Inr y) \<longleftrightarrow>
        list_all (\<lambda>c. \<not> is_surrogate c) (key_text (fst kv)) \<and> (\<exists>s. serialize (snd kv) = Inr s)"
      for kv by (simp add: quote_str_ok_iff [symmetric]) (auto simp: result_simps)
    have "(\<exists>s. serialize (PDict d) = Inr s) \<longleftrightarrow>
        (\<exists>bs. rmap (\<lambda>kv. utf16_sort_key (key_text (fst kv))) d = Inr bs) \<and>
        (\<exists>ps. rmap ?m (sort_key item_key d) = Inr ps)"
      using keys by (auto simp: result_simps)
    also have "\<dots> \<longleftrightarrow> (\<forall>kv \<in> set d. list_all (\<lambda>c. \<not> is_surrogate c) (key_text (fst kv)) \<and>
        (\<exists>s. serialize (snd kv) = Inr s))"
      by (simp only: rmap_ok_iff utf16_sort_key_ok_iff set_sort member) blast
    also have "\<dots> \<longleftrightarrow> portable (PDict d)"
      using keys PDict by (auto simp: list_all_iff list_ex_iff)
    finally show ?thesis .
  qed
qed (auto simp: quote_str_ok_iff)

section \<open>Insertion order\<close>

text \<open>
  What Python itself guarantees of a value: code points are at most \<open>0x10FFFF\<close> and the keys of a
  dictionary are distinct.
\<close>

definition wf_str :: "pystr \<Rightarrow> bool" where
  "wf_str s \<longleftrightarrow> list_all (\<lambda>c. c \<le> 0x10FFFF) s"

fun wf_value :: "pyval \<Rightarrow> bool" where
  "wf_value (PStr s) = wf_str s"
| "wf_value (PList xs) = list_all wf_value xs"
| "wf_value (PDict d) =
     (distinct (map fst d) \<and> list_all (\<lambda>kv. wf_str (key_text (fst kv)) \<and> wf_value (snd kv)) d)"
| "wf_value v = True"

text \<open>\<open>norm_value\<close> orders every dictionary by its canonical key order and changes nothing else.\<close>

fun norm_value :: "pyval \<Rightarrow> pyval" where
  "norm_value (PList xs) = PList (map norm_value xs)"
| "norm_value (PDict d) =
     PDict (sort_key item_key (map (\<lambda>kv. (fst kv, norm_value (snd kv))) d))"
| "norm_value v = v"

lemma item_key_fst [simp]: "item_key (fst kv, v) = item_key kv"
  by (simp add: item_key_def)

lemma sort_key_map:
  assumes "\<And>x. f (g x) = f' x"
  shows "sort_key f (map g xs) = map g (sort_key f' xs)"
proof -
  have ins: "insort_key f (g x) (map g ys) = map g (insort_key f' x ys)" for x ys
    by (induction ys) (auto simp: assms)
  show ?thesis by (induction xs) (auto simp: ins)
qed

lemma norm_items:
  "sort_key item_key (map (\<lambda>kv. (fst kv, norm_value (snd kv))) d) =
   map (\<lambda>kv. (fst kv, norm_value (snd kv))) (sort_key item_key d)"
  by (rule sort_key_map) simp

lemma sort_key_idem: "sort_key f (sort_key f xs) = sort_key f xs"
  by (rule sort_key_id) simp

lemma rmap_constant_error:
  "rmap (\<lambda>x. if P x then Inl e else Inr (g x)) xs = (if list_ex P xs then Inl e else Inr (map g xs))"
  by (induction xs) auto

text \<open>The serializer does not see more of a value than its normal form.\<close>

lemma serialize_norm_value: "serialize (norm_value v) = serialize v"
proof (induction v rule: pyval_induct)
  case (PList xs)
  have "rmap serialize (map norm_value xs) = rmap serialize xs"
    using PList by (induction xs) auto
  then show ?case by simp
next
  case (PDict d)
  let ?g = "\<lambda>kv. (fst kv, norm_value (snd kv))"
  have members: "rmap (\<lambda>kv. rbind (quote_str (key_text (fst kv)))
            (\<lambda>q. rbind (serialize (snd kv)) (\<lambda>s. Inr (q @ 58 # s)))) (map ?g ys) =
        rmap (\<lambda>kv. rbind (quote_str (key_text (fst kv)))
            (\<lambda>q. rbind (serialize (snd kv)) (\<lambda>s. Inr (q @ 58 # s)))) ys"
    if "set ys \<subseteq> set d" for ys
    using that PDict by (induction ys) auto
  have keys: "list_ex P (map ?g (sort_key item_key d)) = list_ex (\<lambda>kv. P (?g kv)) d" for P
    by (auto simp: list_ex_iff)
  show ?case
    by (simp add: norm_items keys sort_key_idem members utf16_sort_key_def rmap_constant_error)
qed simp_all


text \<open>The canonical key order is a total order on the keys a dictionary can have.\<close>

lemma utf16be_char_inj_step:
  assumes "c \<le> 0x10FFFF" "c' \<le> 0x10FFFF" "\<not> is_surrogate c" "\<not> is_surrogate c'"
    and "utf16be_char c @ x = utf16be_char c' @ y"
  shows "c = c' \<and> x = y"
proof -
  have bmp: "n = n div 256 * 256 + n mod 256" for n :: nat by simp
  have astral: "n = n div 1024 * 1024 + n mod 1024" for n :: nat by simp
  show ?thesis
  proof (cases "c < 0x10000"; cases "c' < 0x10000")
    assume "c < 0x10000" "c' < 0x10000"
    then show ?thesis using assms(5) bmp [of c] bmp [of c'] by (simp add: utf16be_char_def)
  next
    assume a: "c < 0x10000" "\<not> c' < 0x10000"
    let ?h = "0xD800 + (c' - 0x10000) div 0x400"
    have "?h \<le> 0xDBFF" using assms(2) by auto
    moreover have "c = ?h" using assms(5) a bmp [of c] bmp [of ?h]
      by (simp add: utf16be_char_def Let_def)
    ultimately show ?thesis using assms(3) by (simp add: is_surrogate_def)
  next
    assume a: "\<not> c < 0x10000" "c' < 0x10000"
    let ?h = "0xD800 + (c - 0x10000) div 0x400"
    have "?h \<le> 0xDBFF" using assms(1) by auto
    moreover have "c' = ?h" using assms(5) a bmp [of c'] bmp [of ?h]
      by (simp add: utf16be_char_def Let_def)
    ultimately show ?thesis using assms(4) by (simp add: is_surrogate_def)
  next
    assume a: "\<not> c < 0x10000" "\<not> c' < 0x10000"
    let ?h = "\<lambda>c. 0xD800 + (c - 0x10000) div 0x400" and ?l = "\<lambda>c. 0xDC00 + (c - 0x10000) mod 0x400"
    have eqs: "?h c div 256 = ?h c' div 256" "?h c mod 256 = ?h c' mod 256"
        "?l c div 256 = ?l c' div 256" "?l c mod 256 = ?l c' mod 256" "x = y"
      using assms(5) a by (simp_all add: utf16be_char_def Let_def)
    have "?h c = ?h c'" using eqs(1,2) by (metis bmp)
    moreover have "?l c = ?l c'" using eqs(3,4) by (metis bmp)
    ultimately have "(c - 0x10000) div 0x400 = (c' - 0x10000) div 0x400"
        "(c - 0x10000) mod 0x400 = (c' - 0x10000) mod 0x400" by simp_all
    then have "c - 0x10000 = c' - 0x10000" by (metis astral)
    with a eqs(5) show ?thesis by simp
  qed
qed

lemma utf16be_char_neq_Nil: "utf16be_char c \<noteq> []"
  by (simp add: utf16be_char_def Let_def)

lemma utf16be_inj:
  assumes "wf_str s" "wf_str t" "\<not> list_ex is_surrogate s" "\<not> list_ex is_surrogate t"
    and "utf16be s = utf16be t"
  shows "s = t"
  using assms
proof (induction s arbitrary: t)
  case Nil
  then show ?case by (cases t) (auto simp: utf16be_def utf16be_char_neq_Nil)
next
  case (Cons c s)
  show ?case
  proof (cases t)
    case Nil
    with Cons.prems(5) show ?thesis by (simp add: utf16be_def utf16be_char_neq_Nil)
  next
    case t: (Cons c' t')
    have "c = c' \<and> utf16be s = utf16be t'"
      using Cons.prems t by (intro utf16be_char_inj_step) (simp_all add: utf16be_def wf_str_def)
    moreover have "wf_str s" "wf_str t'" using Cons.prems(1,2) t by (simp_all add: wf_str_def)
    ultimately show ?thesis using Cons.IH [of t'] Cons.prems(3,4) t by simp
  qed
qed

lemma item_key_eq: "fst kv \<noteq> KNonStr \<Longrightarrow> item_key kv = utf16be (key_text (fst kv))"
  by (cases "fst kv") (auto simp: item_key_def key_text_def)

lemma item_key_inj:
  assumes "wf_value (PDict d)"
    and str: "\<not> list_ex (\<lambda>kv. fst kv = KNonStr) d"
    and sur: "\<not> list_ex (\<lambda>kv. list_ex is_surrogate (key_text (fst kv))) d"
  shows "inj_on item_key (set d)"
proof (rule inj_onI)
  fix x y assume xy: "x \<in> set d" "y \<in> set d" "item_key x = item_key y"
  have ok: "fst z \<noteq> KNonStr" "\<not> list_ex is_surrogate (key_text (fst z))" "wf_str (key_text (fst z))"
    if "z \<in> set d" for z
    using str sur assms(1) that by (auto simp: list_all_iff list_ex_iff)
  have "utf16be (key_text (fst x)) = utf16be (key_text (fst y))"
    using xy(3) by (simp only: item_key_eq [OF ok(1) [OF xy(1)]] item_key_eq [OF ok(1) [OF xy(2)]])
  then have "key_text (fst x) = key_text (fst y)"
    by (rule utf16be_inj [OF ok(3) [OF xy(1)] ok(3) [OF xy(2)] ok(2) [OF xy(1)] ok(2) [OF xy(2)]])
  then have "fst x = fst y" using ok(1) [OF xy(1)] ok(1) [OF xy(2)]
    by (auto simp: key_text_def split: pykey.splits)
  moreover have "inj_on fst (set d)" using assms(1) by (simp add: distinct_map)
  ultimately show "x = y" using xy by (simp add: inj_on_eq_iff)
qed

text \<open>Two dictionaries with the same members are serialized to the same text.\<close>

lemma serialize_insertion_order:
  assumes "wf_value (PDict d)" and "mset d = mset d'"
  shows "serialize (PDict d) = serialize (PDict d')"
proof -
  have ex: "list_ex P d = list_ex P d'" for P
    using mset_eq_setD [OF assms(2)] by (simp add: list_ex_iff)
  show ?thesis
  proof (cases "list_ex (\<lambda>kv. fst kv = KNonStr) d
      \<or> list_ex (\<lambda>kv. list_ex is_surrogate (key_text (fst kv))) d")
    case True
    then show ?thesis by (auto simp: ex utf16_sort_key_def rmap_constant_error)
  next
    case False
    then have "sort_key item_key d = sort_key item_key d'"
      using assms by (intro sort_key_unique item_key_inj) simp_all
    then show ?thesis by (simp add: ex utf16_sort_key_def rmap_constant_error)
  qed
qed

end
