(* ===== verification/Json_Text.thy ===== *)
theory Json_Text
  imports Canonical
begin

text \<open>
  Decoding of JSON text as the code asks for it: \<^verbatim>\<open>json.loads\<close> with the three hooks of
  \<^verbatim>\<open>schema.py\<close> (\<^verbatim>\<open>_duplicate_safe_object\<close>, \<^verbatim>\<open>_float_token_is_forbidden\<close>,
  \<^verbatim>\<open>_constant_is_forbidden\<close>).  The decoder of the standard library is modelled by a scanner with
  fuel; \<open>jvalue_enough_fuel\<close> shows that the fuel \<open>json_loads\<close> gives is never exhausted, and
  \<open>json_loads_serialize\<close> that decoding inverts the canonicalizer.
\<close>

section \<open>Hooks\<close>

datatype json_error =
    Malformed
  | DuplicateField pystr
  | FloatToken
  | ConstantToken
  | IntDigitLimit
  | OutOfFuel

text \<open>\<^verbatim>\<open>_duplicate_safe_object\<close>: \<open>result\<close> is the accumulator.\<close>

fun duplicate_safe_loop :: "pydict \<Rightarrow> (pystr \<times> pyval) list \<Rightarrow> json_error + pydict" where
  "duplicate_safe_loop result [] = Inr result"
| "duplicate_safe_loop result ((key, v) # pairs) =
     (if KStr key \<in> fst ` set result then Inl (DuplicateField key)
      else duplicate_safe_loop (AList.update (KStr key) v result) pairs)"

definition duplicate_safe_object :: "(pystr \<times> pyval) list \<Rightarrow> json_error + pydict" where
  "duplicate_safe_object pairs = duplicate_safe_loop [] pairs"

definition float_token_is_forbidden :: "json_error + 'a" where
  "float_token_is_forbidden = Inl FloatToken"

definition constant_is_forbidden :: "json_error + 'a" where
  "constant_is_forbidden = Inl ConstantToken"

section \<open>Scanning\<close>

definition is_ws :: "nat \<Rightarrow> bool" where
  "is_ws c \<longleftrightarrow> c = 32 \<or> c = 9 \<or> c = 10 \<or> c = 13"

definition skip_ws :: "pystr \<Rightarrow> pystr" where
  "skip_ws s = dropWhile is_ws s"

definition is_digit :: "nat \<Rightarrow> bool" where
  "is_digit c \<longleftrightarrow> 48 \<le> c \<and> c \<le> 57"

definition hex_value :: "nat \<Rightarrow> nat option" where
  "hex_value c =
     (if is_digit c then Some (c - 48)
      else if 97 \<le> c \<and> c \<le> 102 then Some (c - 87)
      else if 65 \<le> c \<and> c \<le> 70 then Some (c - 55) else None)"

fun scan_hex4 :: "pystr \<Rightarrow> (nat \<times> pystr) option" where
  "scan_hex4 (a # b # c # d # r) =
     (case (hex_value a, hex_value b, hex_value c, hex_value d) of
        (Some w, Some x, Some y, Some z) \<Rightarrow> Some (w * 4096 + x * 256 + y * 16 + z, r)
      | _ \<Rightarrow> None)"
| "scan_hex4 _ = None"

lemma scan_hex4_length: "scan_hex4 s = Some (u, r) \<Longrightarrow> length s = length r + 4"
  by (induction s rule: scan_hex4.induct) (auto split: option.splits)

definition simple_unescape :: "nat \<Rightarrow> nat option" where
  "simple_unescape e =
     (if e = 34 \<or> e = 92 \<or> e = 47 then Some e
      else if e = 98 then Some 8 else if e = 102 then Some 12 else if e = 110 then Some 10
      else if e = 114 then Some 13 else if e = 116 then Some 9 else None)"

text \<open>The escape \<open>\uXXXX\<close>, with a following low surrogate joined to a high one.\<close>

definition scan_unicode :: "pystr \<Rightarrow> (nat \<times> pystr) option" where
  "scan_unicode s =
     (case scan_hex4 s of
        None \<Rightarrow> None
      | Some (u, r) \<Rightarrow>
          if 0xD800 \<le> u \<and> u \<le> 0xDBFF \<and> take 2 r = [92, 117] then
            (case scan_hex4 (drop 2 r) of
               None \<Rightarrow> None
             | Some (u2, r2) \<Rightarrow>
                 if 0xDC00 \<le> u2 \<and> u2 \<le> 0xDFFF
                 then Some (0x10000 + (u - 0xD800) * 0x400 + (u2 - 0xDC00), r2)
                 else Some (u, r))
          else Some (u, r))"

lemma scan_unicode_length: "scan_unicode s = Some (u, r) \<Longrightarrow> length r < length s"
  by (auto simp: scan_unicode_def split: option.splits if_splits dest!: scan_hex4_length)

text \<open>
  One character of a string body, or its closing quote (\<open>None\<close>); control characters are refused
  (\<open>strict\<close>).  \<open>scan_string\<close> reads the body after the opening quote; the rest it returns starts
  after the closing quote.
\<close>

definition scan_char :: "pystr \<Rightarrow> json_error + nat option \<times> pystr" where
  "scan_char s =
     (case s of
        [] \<Rightarrow> Inl Malformed
      | c # r \<Rightarrow>
          if c = 34 then Inr (None, r)
          else if c = 92 then
            (case r of
               [] \<Rightarrow> Inl Malformed
             | e # r' \<Rightarrow>
                 if e = 117 then
                   (case scan_unicode r' of
                      None \<Rightarrow> Inl Malformed
                    | Some (u, r'') \<Rightarrow> Inr (Some u, r''))
                 else
                   (case simple_unescape e of
                      None \<Rightarrow> Inl Malformed
                    | Some u \<Rightarrow> Inr (Some u, r')))
          else if c \<le> 0x1F then Inl Malformed
          else Inr (Some c, r))"

lemma scan_char_length: "scan_char s = Inr (x, r) \<Longrightarrow> length r < length s"
  by (auto simp: scan_char_def split: list.splits if_splits option.splits dest!: scan_unicode_length)

function scan_string :: "pystr \<Rightarrow> json_error + pystr \<times> pystr" where
  "scan_string s =
     rbind (scan_char s) (\<lambda>(x, r).
       case x of
         None \<Rightarrow> Inr ([], r)
       | Some c \<Rightarrow> rbind (scan_string r) (\<lambda>(t, q). Inr (c # t, q)))"
  by pat_completeness auto
termination
  by (relation "measure length") (auto dest: scan_char_length)

declare scan_string.simps [simp del]

fun digits_value :: "nat \<Rightarrow> pystr \<Rightarrow> nat" where
  "digits_value acc [] = acc"
| "digits_value acc (c # cs) = digits_value (10 * acc + (c - 48)) cs"

text \<open>
  A number token: an optional sign and either \<open>0\<close> or a digit string without leading zero; a
  following fraction or exponent makes it a float token.  Python refuses to convert more than
  4300 digits.
\<close>

definition float_tail :: "pystr \<Rightarrow> bool" where
  "float_tail r =
     (case r of
        c # d # r' \<Rightarrow>
          (c = 46 \<and> is_digit d)
          \<or> ((c = 69 \<or> c = 101)
             \<and> (is_digit d \<or> ((d = 43 \<or> d = 45) \<and> (case r' of e # _ \<Rightarrow> is_digit e | [] \<Rightarrow> False))))
      | _ \<Rightarrow> False)"

definition number_digits :: "pystr \<Rightarrow> pystr" where
  "number_digits t = (if take 1 t = [48] then [48] else takeWhile is_digit t)"

definition scan_number :: "pystr \<Rightarrow> json_error + int \<times> pystr" where
  "scan_number s =
     (let neg = (take 1 s = [45]);
          t = (if neg then drop 1 s else s);
          ds = number_digits t;
          r = drop (length ds) t
      in if ds = [] then Inl Malformed
         else if float_tail r then float_token_is_forbidden
         else if 4300 < length ds then Inl IntDigitLimit
         else Inr (if neg then - int (digits_value 0 ds) else int (digits_value 0 ds), r))"

definition starts :: "pystr \<Rightarrow> pystr \<Rightarrow> bool" where
  "starts p s \<longleftrightarrow> take (length p) s = p"

text \<open>
  A value, the members of an object after \<open>{\<close>, and the elements of an array after \<open>[\<close>.  Each call
  spends one unit of fuel.
\<close>

fun jvalue :: "nat \<Rightarrow> pystr \<Rightarrow> json_error + pyval \<times> pystr"
  and jmembers :: "nat \<Rightarrow> pystr \<Rightarrow> json_error + (pystr \<times> pyval) list \<times> pystr"
  and jelems :: "nat \<Rightarrow> pystr \<Rightarrow> json_error + pyval list \<times> pystr"
where
  "jvalue 0 s = Inl OutOfFuel"
| "jvalue (Suc n) s =
     (if starts [34] s then rbind (scan_string (drop 1 s)) (\<lambda>(t, r). Inr (PStr t, r))
      else if starts [123] s then
        (let r = skip_ws (drop 1 s)
         in if starts [125] r then Inr (PDict [], drop 1 r)
            else rbind (jmembers n r) (\<lambda>(ps, q).
                 rbind (duplicate_safe_object ps) (\<lambda>d. Inr (PDict d, q))))
      else if starts [91] s then
        (let r = skip_ws (drop 1 s)
         in if starts [93] r then Inr (PList [], drop 1 r)
            else rbind (jelems n r) (\<lambda>(vs, q). Inr (PList vs, q)))
      else if starts (str ''null'') s then Inr (PNone, drop 4 s)
      else if starts (str ''true'') s then Inr (PBool True, drop 4 s)
      else if starts (str ''false'') s then Inr (PBool False, drop 5 s)
      else if starts (str ''NaN'') s \<or> starts (str ''Infinity'') s \<or> starts (str ''-Infinity'') s
      then constant_is_forbidden
      else rbind (scan_number s) (\<lambda>(i, r). Inr (PInt i, r)))"
| "jmembers 0 s = Inl OutOfFuel"
| "jmembers (Suc n) s =
     (if \<not> starts [34] s then Inl Malformed
      else rbind (scan_string (drop 1 s)) (\<lambda>(k, r).
        let r1 = skip_ws r in
        if \<not> starts [58] r1 then Inl Malformed
        else rbind (jvalue n (skip_ws (drop 1 r1))) (\<lambda>(v, r2).
          let r3 = skip_ws r2 in
          if starts [125] r3 then Inr ([(k, v)], drop 1 r3)
          else if starts [44] r3 then
            rbind (jmembers n (skip_ws (drop 1 r3))) (\<lambda>(ps, q). Inr ((k, v) # ps, q))
          else Inl Malformed)))"
| "jelems 0 s = Inl OutOfFuel"
| "jelems (Suc n) s =
     rbind (jvalue n s) (\<lambda>(v, r).
       let r1 = skip_ws r in
       if starts [93] r1 then Inr ([v], drop 1 r1)
       else if starts [44] r1 then
         rbind (jelems n (skip_ws (drop 1 r1))) (\<lambda>(vs, q). Inr (v # vs, q))
       else Inl Malformed)"

definition json_loads_text :: "pystr \<Rightarrow> json_error + pyval" where
  "json_loads_text s =
     (if starts [0xFEFF] s then Inl Malformed
      else rbind (jvalue (Suc (2 * length s)) (skip_ws s)) (\<lambda>(v, r).
           if skip_ws r = [] then Inr v else Inl Malformed))"

section \<open>The fuel is enough\<close>

lemma skip_ws_length: "length (skip_ws s) \<le> length s"
  by (simp add: skip_ws_def length_dropWhile_le)

lemma starts_length: "starts p s \<Longrightarrow> length p \<le> length s"
  by (metis starts_def length_take min.cobounded1)

lemma scan_string_length: "scan_string s = Inr (t, r) \<Longrightarrow> length r < length s"
proof (induction s arbitrary: t rule: scan_string.induct)
  case (1 s)
  from "1.prems" obtain x r' where x: "scan_char s = Inr (x, r')"
    and rest: "(case x of None \<Rightarrow> Inr ([], r')
        | Some c \<Rightarrow> rbind (scan_string r') (\<lambda>(t, q). Inr (c # t, q))) = Inr (t, r)"
    by (subst (asm) scan_string.simps) (auto simp: result_simps)
  have len: "length r' < length s" using x by (rule scan_char_length)
  show ?case
  proof (cases x)
    case None
    with rest len show ?thesis by simp
  next
    case (Some c)
    with rest obtain t' where "scan_string r' = Inr (t', r)" by (auto simp: result_simps)
    then have "length r < length r'" using "1.IH" [OF x _ Some] by blast
    with len show ?thesis by simp
  qed
qed

lemma scan_number_length:
  assumes "scan_number s = Inr (i, r)"
  shows "length r < length s"
proof -
  define t where "t = (if take 1 s = [45] then drop 1 s else s)"
  define ds where "ds = number_digits t"
  have "ds \<noteq> []" and r: "r = drop (length ds) t"
    using assms unfolding scan_number_def Let_def t_def [symmetric] ds_def [symmetric]
    by (auto simp: float_token_is_forbidden_def split: if_splits)
  moreover have "length ds \<le> length t"
    by (cases t) (auto simp: ds_def number_digits_def length_takeWhile_le)
  moreover have "length t \<le> length s" by (simp add: t_def)
  ultimately show ?thesis by (cases ds) auto
qed

lemma starts_drop_length: "starts (c # p) s \<Longrightarrow> length (drop (Suc n) s) < length s"
  by (cases s) (auto simp: starts_def)

lemma scan_char_no_fuel [simp]: "scan_char s \<noteq> Inl OutOfFuel"
  by (auto simp: scan_char_def split: list.splits if_splits option.splits)

lemma scan_string_no_fuel [simp]: "scan_string s \<noteq> Inl OutOfFuel"
proof (induction s rule: scan_string.induct)
  case (1 s)
  show ?case
    by (subst scan_string.simps) (auto simp: result_simps split: option.splits dest: "1.IH")
qed

lemma scan_number_no_fuel [simp]: "scan_number s \<noteq> Inl OutOfFuel"
  by (auto simp: scan_number_def Let_def float_token_is_forbidden_def)

lemma duplicate_safe_no_fuel [simp]: "duplicate_safe_object ps \<noteq> Inl OutOfFuel"
proof -
  have "duplicate_safe_loop d ps \<noteq> Inl OutOfFuel" for d
    by (induction d ps rule: duplicate_safe_loop.induct) auto
  then show ?thesis by (simp add: duplicate_safe_object_def)
qed

text \<open>
  \<open>scans k f\<close>: a successful \<open>f\<close> consumes text, and \<open>f\<close> does not run out of fuel on a text \<open>s\<close> with
  \<open>2 * length s < k\<close>.
\<close>

definition scans :: "nat \<Rightarrow> (pystr \<Rightarrow> json_error + 'a \<times> pystr) \<Rightarrow> bool" where
  "scans k f \<longleftrightarrow> (\<forall>s. (\<forall>v r. f s = Inr (v, r) \<longrightarrow> length r < length s)
                    \<and> (2 * length s < k \<longrightarrow> f s \<noteq> Inl OutOfFuel))"

lemma scansI:
  assumes "\<And>s v r. f s = Inr (v, r) \<Longrightarrow> length r < length s"
    and "\<And>s. 2 * length s < k \<Longrightarrow> f s = Inl OutOfFuel \<Longrightarrow> False"
  shows "scans k f"
  using assms by (auto simp: scans_def)

lemma scansD:
  assumes "scans k f"
  shows "f s = Inr (v, r) \<Longrightarrow> length r < length s"
    and "f s = Inl OutOfFuel \<Longrightarrow> k \<le> 2 * length s"
  using assms by (auto simp: scans_def not_less [symmetric])

lemma skip_drop_length: "length (skip_ws (drop n s)) \<le> length s - n"
  using skip_ws_length [of "drop n s"] by simp

lemma starts_nonempty: "starts [c] s \<Longrightarrow> Suc 0 \<le> length s"
  by (cases s) (auto simp: starts_def)

lemma jelems_scans:
  assumes v: "scans n (jvalue n)" and e: "scans (n - 1) (jelems n)"
  shows "scans n (jelems (Suc n))"
proof (rule scansI)
  fix s vs r assume "jelems (Suc n) s = Inr (vs, r)"
  then obtain v r0 where 1: "jvalue n s = Inr (v, r0)" and
    2: "(if starts [93] (skip_ws r0) then Inr ([v], drop 1 (skip_ws r0))
       else if starts [44] (skip_ws r0) then
         rbind (jelems n (skip_ws (drop 1 (skip_ws r0)))) (\<lambda>(vs, q). Inr (v # vs, q))
       else Inl Malformed) = Inr (vs, r)"
    by (auto simp: result_simps Let_def simp del: One_nat_def)
  have l1: "length r0 < length s" using scansD(1) [OF v 1] .
  note l2 = skip_ws_length [of r0] skip_drop_length [of 1 "skip_ws r0"]
  from 2 show "length r < length s"
  proof (cases "starts [93] (skip_ws r0)")
    case False
    with 2 obtain vs' where "jelems n (skip_ws (drop 1 (skip_ws r0))) = Inr (vs', r)"
      by (auto simp: result_simps split: if_splits)
    from scansD(1) [OF e this] l1 l2 show ?thesis by linarith
  qed (use l1 l2 in auto)
next
  fix s assume k: "2 * length s < n" and err: "jelems (Suc n) s = Inl OutOfFuel"
  have "jvalue n s \<noteq> Inl OutOfFuel" using k scansD(2) [OF v] by fastforce
  with err obtain v r0 where 1: "jvalue n s = Inr (v, r0)" and
    3: "jelems n (skip_ws (drop 1 (skip_ws r0))) = Inl OutOfFuel"
    by (auto simp: result_simps Let_def split: if_splits)
  have l1: "length r0 < length s" using scansD(1) [OF v 1] .
  note l2 = skip_ws_length [of r0] skip_drop_length [of 1 "skip_ws r0"]
  from scansD(2) [OF e 3] k l1 l2 show False by linarith
qed


lemma jmembers_scans:
  assumes v: "scans n (jvalue n)" and m: "scans n (jmembers n)"
  shows "scans (Suc n) (jmembers (Suc n))"
proof (rule scansI)
  fix s ps r assume "jmembers (Suc n) s = Inr (ps, r)"
  then obtain k r0 v r2 where st: "starts [34] s" and k: "scan_string (drop 1 s) = Inr (k, r0)"
    and 1: "jvalue n (skip_ws (drop 1 (skip_ws r0))) = Inr (v, r2)"
    and 2: "(if starts [125] (skip_ws r2) then Inr ([(k, v)], drop 1 (skip_ws r2))
       else if starts [44] (skip_ws r2) then
         rbind (jmembers n (skip_ws (drop 1 (skip_ws r2)))) (\<lambda>(ps, q). Inr ((k, v) # ps, q))
       else Inl Malformed) = Inr (ps, r)"
    by (auto simp: result_simps Let_def simp del: One_nat_def split: if_splits)
  note l = starts_nonempty [OF st] scan_string_length [OF k] skip_ws_length [of r0]
    skip_drop_length [of 1 "skip_ws r0"] scansD(1) [OF v 1]
    skip_ws_length [of r2] skip_drop_length [of 1 "skip_ws r2"]
  show "length r < length s"
  proof (cases "starts [125] (skip_ws r2)")
    case True
    with 2 have "r = drop 1 (skip_ws r2)" by simp
    with l show ?thesis by simp
  next
    case False
    with 2 obtain ps' where "jmembers n (skip_ws (drop 1 (skip_ws r2))) = Inr (ps', r)"
      by (auto simp: result_simps split: if_splits)
    from scansD(1) [OF m this] l show ?thesis by simp
  qed
next
  fix s assume k: "2 * length s < Suc n" and err: "jmembers (Suc n) s = Inl OutOfFuel"
  then obtain key r0 where st: "starts [34] s" and key: "scan_string (drop 1 s) = Inr (key, r0)"
    and 2: "rbind (jvalue n (skip_ws (drop 1 (skip_ws r0)))) (\<lambda>(v, r2).
          let r3 = skip_ws r2 in
          if starts [125] r3 then Inr ([(key, v)], drop 1 r3)
          else if starts [44] r3 then
            rbind (jmembers n (skip_ws (drop 1 r3))) (\<lambda>(ps, q). Inr ((key, v) # ps, q))
          else Inl Malformed) = Inl OutOfFuel"
    by (auto simp: rbind_eq_Inl Let_def simp del: One_nat_def split: if_splits)
  note l = starts_nonempty [OF st] scan_string_length [OF key] skip_ws_length [of r0]
    skip_drop_length [of 1 "skip_ws r0"]
  have "jvalue n (skip_ws (drop 1 (skip_ws r0))) \<noteq> Inl OutOfFuel"
    using scansD(2) [OF v, of "skip_ws (drop 1 (skip_ws r0))"] k l by fastforce
  with 2 obtain v' r2 where 3: "jvalue n (skip_ws (drop 1 (skip_ws r0))) = Inr (v', r2)"
    and 4: "jmembers n (skip_ws (drop 1 (skip_ws r2))) = Inl OutOfFuel"
    by (auto simp: result_simps Let_def split: if_splits)
  note l2 = scansD(1) [OF v 3] skip_ws_length [of r2] skip_drop_length [of 1 "skip_ws r2"]
  from scansD(2) [OF m 4] k l l2 show False by simp
qed

lemma jvalue_scans:
  assumes m: "scans n (jmembers n)" and e: "scans (n - 1) (jelems n)"
  shows "scans (Suc n) (jvalue (Suc n))"
proof (rule scansI)
  fix s v r assume v: "jvalue (Suc n) s = Inr (v, r)"
  note l = skip_drop_length [of 1 s]
  consider (quo) "starts [34] s" | (obj) "starts [123] s" | (arr) "starts [91] s"
    | (other) "\<not> starts [34] s" "\<not> starts [123] s" "\<not> starts [91] s" by blast
  then show "length r < length s"
  proof cases
    case quo
    with v obtain t where "scan_string (drop 1 s) = Inr (t, r)" by (auto simp: result_simps)
    from scan_string_length [OF this] show ?thesis by simp
  next
    case obj
    then have "\<not> starts [34] s" by (cases s) (auto simp: starts_def)
    with v obj consider "r = drop 1 (skip_ws (drop 1 s))"
      | ps where "jmembers n (skip_ws (drop 1 s)) = Inr (ps, r)"
      by (auto simp: result_simps Let_def simp del: One_nat_def split: if_splits)
    then show ?thesis
    proof cases
      case 1
      then show ?thesis using l starts_nonempty [OF obj] by simp
    next
      case 2
      from scansD(1) [OF m this] l show ?thesis by simp
    qed
  next
    case arr
    then have "\<not> starts [34] s" "\<not> starts [123] s" by (cases s; auto simp: starts_def)+
    with v arr consider "r = drop 1 (skip_ws (drop 1 s))"
      | ps where "jelems n (skip_ws (drop 1 s)) = Inr (ps, r)"
      by (auto simp: result_simps Let_def simp del: One_nat_def split: if_splits)
    then show ?thesis
    proof cases
      case 1
      then show ?thesis using l starts_nonempty [OF arr] by simp
    next
      case 2
      from scansD(1) [OF e this] l show ?thesis by simp
    qed
  next
    case other
    have "0 < length s" if "starts (str (c # cs)) s" for c cs
      using starts_length [OF that] by (cases s) (simp_all add: str_def)
    with v other show ?thesis
      by (auto simp: result_simps constant_is_forbidden_def split: if_splits
          dest: scan_number_length)
  qed
next
  fix s assume k: "2 * length s < Suc n" and err: "jvalue (Suc n) s = Inl OutOfFuel"
  note l = skip_drop_length [of 1 s]
  from err consider (obj) "starts [123] s" "jmembers n (skip_ws (drop 1 s)) = Inl OutOfFuel"
    | (arr) "starts [91] s" "jelems n (skip_ws (drop 1 s)) = Inl OutOfFuel"
    by (auto simp: rbind_eq_Inl Let_def constant_is_forbidden_def simp del: One_nat_def
        split: if_splits)
  then show False
  proof cases
    case obj
    from scansD(2) [OF m obj(2)] k l starts_nonempty [OF obj(1)] show False by linarith
  next
    case arr
    from scansD(2) [OF e arr(2)] k l starts_nonempty [OF arr(1)] show False by linarith
  qed
qed

lemma json_scans: "scans n (jvalue n) \<and> scans n (jmembers n) \<and> scans (n - 1) (jelems n)"
proof (induction n)
  case 0
  show ?case by (auto simp: scans_def)
next
  case (Suc n)
  then show ?case
    by (simp only: diff_Suc_1) (blast intro: jvalue_scans jmembers_scans jelems_scans)
qed

text \<open>\<open>json_loads_text\<close> never reports exhausted fuel.\<close>

lemma json_loads_enough_fuel: "json_loads_text s \<noteq> Inl OutOfFuel"
proof -
  have "jvalue (Suc (2 * length s)) (skip_ws s) \<noteq> Inl OutOfFuel"
    using json_scans [of "Suc (2 * length s)"] scansD(2) skip_ws_length [of s]
    by (metis Suc_le_lessD linorder_not_le mult_le_mono2)
  then show ?thesis by (auto simp: json_loads_text_def result_simps)
qed


section \<open>Decoding inverts the canonicalizer\<close>

subsection \<open>Strings\<close>

lemma hex_value_digit: "d < 16 \<Longrightarrow> hex_value (hex_digit d) = Some d"
  by (auto simp: hex_value_def hex_digit_def is_digit_def)

lemma scan_hex4_hex4: "c < 65536 \<Longrightarrow> scan_hex4 (hex4 c @ r) = Some (c, r)"
proof -
  assume "c < 65536"
  then have "c div 4096 < 16" by simp
  moreover have "c div 4096 * 4096 + c div 256 mod 16 * 256 + c div 16 mod 16 * 16 + c mod 16 = c"
  proof -
    have "c div 16 div 16 = c div 256" "c div 256 div 16 = c div 4096"
      by (simp_all flip: div_mult2_eq)
    then show ?thesis
      using div_mult_mod_eq [of c 16] div_mult_mod_eq [of "c div 16" 16]
        div_mult_mod_eq [of "c div 256" 16] by linarith
  qed
  ultimately show ?thesis by (simp add: hex4_def hex_value_digit)
qed

lemma short_escape_cases:
  "short_escape c = Some e \<Longrightarrow> e \<noteq> 117 \<and> simple_unescape e = Some c"
  by (auto simp: short_escape_def simple_unescape_def split: if_splits)

lemma scan_char_quote_char: "quote_char c = Inr p \<Longrightarrow> scan_char (p @ r) = Inr (Some c, r)"
proof (cases "short_escape c")
  case (Some e)
  moreover assume "quote_char c = Inr p"
  ultimately show ?thesis
    using short_escape_cases [OF Some] by (auto simp: quote_char_def scan_char_def split: if_splits)
next
  case None
  moreover assume p: "quote_char c = Inr p"
  moreover have "c \<noteq> 34" "c \<noteq> 92" using None by (auto simp: short_escape_def)
  moreover have "c \<le> 31 \<Longrightarrow> scan_unicode (hex4 c @ r) = Some (c, r)"
    by (simp add: scan_unicode_def scan_hex4_hex4)
  ultimately show ?thesis
    by (auto simp: quote_char_def scan_char_def split: if_splits)
qed

lemma scan_string_pieces:
  "rmap quote_char s = Inr ps \<Longrightarrow> scan_string (concat ps @ 34 # r) = Inr (s, r)"
proof (induction s arbitrary: ps)
  case Nil
  then show ?case by (subst scan_string.simps) (simp add: scan_char_def)
next
  case (Cons c s)
  then obtain p ps' where p: "quote_char c = Inr p" and ps': "rmap quote_char s = Inr ps'"
    and ps: "ps = p # ps'" by (auto simp: result_simps)
  have "scan_char (concat ps @ 34 # r) = Inr (Some c, concat ps' @ 34 # r)"
    using scan_char_quote_char [OF p] by (simp add: ps)
  then show ?case using Cons.IH [OF ps'] by (subst scan_string.simps) simp
qed

lemma scan_string_quote_str:
  assumes "quote_str s = Inr q"
  obtains q' where "q = 34 # q'" and "\<And>r. scan_string (q' @ r) = Inr (s, r)"
proof -
  from assms obtain ps where "rmap quote_char s = Inr ps" and q: "q = 34 # concat ps @ [34]"
    by (auto simp: quote_str_def result_simps)
  then show ?thesis using that [of "concat ps @ [34]"] scan_string_pieces [of s ps] by simp
qed

subsection \<open>Integers\<close>

lemma dec_nat_digits: "list_all is_digit (dec_nat n)"
proof (induction n rule: dec_nat.induct)
  case (1 n)
  have "is_digit (48 + k)" if "k < 10" for k using that by (simp add: is_digit_def)
  with 1 show ?case by (subst dec_nat.simps) auto
qed

lemma dec_nat_neq_Nil: "dec_nat n \<noteq> []"
  by (subst dec_nat.simps) simp

lemma digits_value_append: "digits_value a (xs @ [c]) = 10 * digits_value a xs + (c - 48)"
  by (induction a xs rule: digits_value.induct) auto

lemma digits_value_dec_nat: "digits_value 0 (dec_nat n) = n"
proof (induction n rule: dec_nat.induct)
  case (1 n)
  then show ?case by (subst dec_nat.simps) (auto simp: digits_value_append)
qed

lemma dec_nat_leading: "hd (dec_nat n) = 48 \<Longrightarrow> n = 0"
proof (induction n rule: dec_nat.induct)
  case (1 n)
  show ?case
  proof (cases "n < 10")
    case True
    with "1.prems" show ?thesis by (subst (asm) dec_nat.simps) simp
  next
    case False
    with "1.prems" have "hd (dec_nat (n div 10)) = 48"
      by (subst (asm) dec_nat.simps) (simp add: hd_append2 [OF dec_nat_neq_Nil])
    with False "1.IH" show ?thesis by simp
  qed
qed

lemma dec_nat_length: "n < 10 ^ k \<Longrightarrow> length (dec_nat n) \<le> Suc k"
proof (induction n arbitrary: k rule: dec_nat.induct)
  case (1 n)
  show ?case
  proof (cases "n < 10")
    case True
    then show ?thesis by (subst dec_nat.simps) simp
  next
    case False
    with "1.prems" obtain j where k: "k = Suc j" by (cases k) auto
    with "1.prems" have "n div 10 < 10 ^ j" by (simp add: div_less_iff_less_mult mult.commute)
    with "1.IH" False have "length (dec_nat (n div 10)) \<le> Suc j" by simp
    with False k show ?thesis by (subst dec_nat.simps) simp
  qed
qed

text \<open>What can follow a value in canonical text.\<close>

definition follows_value :: "pystr \<Rightarrow> bool" where
  "follows_value r \<longleftrightarrow> r = [] \<or> hd r \<in> {44, 93, 125}"

lemma follows_value_simps [simp]:
  "follows_value []" "follows_value (c # r) \<longleftrightarrow> c \<in> {44, 93, 125}"
  by (simp_all add: follows_value_def)

lemma scan_number_digits:
  assumes "follows_value r" "n < 10 ^ 4000"
  shows "number_digits (dec_nat n @ r) = dec_nat n"
    and "\<not> float_tail r" and "\<not> 4300 < length (dec_nat n)"
proof -
  let ?t = "dec_nat n @ r"
  have tw: "takeWhile is_digit ?t = dec_nat n"
    using assms(1) dec_nat_digits [of n]
    by (cases r) (auto simp: list_all_iff is_digit_def takeWhile_append)
  have "take 1 ?t = [48] \<Longrightarrow> n = 0"
    using dec_nat_leading [of n] dec_nat_neq_Nil [of n]
    by (cases "dec_nat n") auto
  then show "number_digits ?t = dec_nat n"
    using tw by (auto simp: number_digits_def dec_nat.simps [of 0])
  show "\<not> float_tail r"
    using assms(1) by (auto simp: float_tail_def follows_value_def split: list.splits)
  show "\<not> 4300 < length (dec_nat n)"
    using dec_nat_length [OF assms(2)] by simp
qed

lemma scan_number_int_str:
  assumes "follows_value r" "- max_safe_integer \<le> i" "i \<le> max_safe_integer"
  shows "scan_number (int_str i @ r) = Inr (i, r)"
proof -
  have small: "nat \<bar>i\<bar> < 10 ^ 4000"
  proof -
    have "nat \<bar>i\<bar> \<le> 9007199254740991" using assms(2,3) by (simp add: max_safe_integer_def)
    also have "(9007199254740991 :: nat) < 10 ^ 16" by simp
    also have "(10 ^ 16 :: nat) \<le> 10 ^ 4000" by (rule power_increasing) simp_all
    finally show ?thesis .
  qed
  note d = scan_number_digits [OF assms(1) small]
  show ?thesis
  proof (cases "i < 0")
    case True
    then have s: "int_str i = 45 # dec_nat (nat \<bar>i\<bar>)" by (simp add: int_str_def)
    show ?thesis
      unfolding scan_number_def Let_def s
      using True d dec_nat_neq_Nil by (simp del: take_append add: digits_value_dec_nat)
  next
    case False
    then have s: "int_str i = dec_nat (nat \<bar>i\<bar>)" by (simp add: int_str_def)
    have "take 1 (dec_nat (nat \<bar>i\<bar>) @ r) \<noteq> [45]"
      using dec_nat_digits [of "nat \<bar>i\<bar>"] dec_nat_neq_Nil [of "nat \<bar>i\<bar>"]
      by (cases "dec_nat (nat \<bar>i\<bar>)") (auto simp: is_digit_def)
    then show ?thesis
      unfolding scan_number_def Let_def s
      using False d dec_nat_neq_Nil by (simp del: take_append add: digits_value_dec_nat)
  qed
qed


subsection \<open>Values\<close>

lemma starts_simps [simp]:
  "starts [] s" "\<not> starts (a # p) []" "starts (a # p) (c # s) \<longleftrightarrow> a = c \<and> starts p s"
  by (auto simp: starts_def)

lemma str_simps: "str [] = []" "str (c # cs) = of_char c # str cs"
  by (simp_all add: str_def)

lemma int_str_shape:
  obtains c cs where "int_str i = c # cs" "is_digit c"
  | d cs where "int_str i = 45 # d # cs" "is_digit d"
proof -
  have "\<exists>c cs. dec_nat n = c # cs \<and> is_digit c" for n
    using dec_nat_digits [of n] dec_nat_neq_Nil [of n] by (cases "dec_nat n") auto
  then show ?thesis using that by (metis int_str_def)
qed

lemma serialize_head:
  assumes "serialize v = Inr s"
  shows "s \<noteq> [] \<and> \<not> is_ws (hd s) \<and> hd s \<noteq> 93 \<and> hd s < 128"
proof (cases v)
  case (PInt i)
  with assms have "s = int_str i" by (auto split: if_splits)
  then show ?thesis by (cases i rule: int_str_shape) (auto simp: is_ws_def is_digit_def)
next
  case (PStr t)
  with assms show ?thesis by (auto simp: quote_str_def result_simps is_ws_def)
next
  case (PList xs)
  with assms show ?thesis by (auto simp: result_simps is_ws_def)
next
  case (PDict d)
  with assms show ?thesis by (auto simp: result_simps is_ws_def split: if_splits)
qed (use assms in \<open>auto simp: str_simps is_ws_def split: if_splits\<close>)

lemma skip_ws_id: "s \<noteq> [] \<Longrightarrow> \<not> is_ws (hd s) \<Longrightarrow> skip_ws s = s"
  by (cases s) (auto simp: skip_ws_def)

lemma skip_ws_value: "serialize v = Inr s \<Longrightarrow> skip_ws (s @ r) = s @ r"
  using serialize_head [of v s] by (intro skip_ws_id) auto

lemma skip_ws_punct [simp]: "c \<in> {34, 44, 58, 93, 125} \<Longrightarrow> skip_ws (c # r) = c # r"
  by (auto simp: skip_ws_def is_ws_def)

lemma join_comma_Cons: "ps \<noteq> [] \<Longrightarrow> join_comma (p # ps) = p @ 44 # join_comma ps"
  by (cases ps) auto

text \<open>\<open>reads v s\<close>: enough fuel reads \<open>v\<close>'s normal form back from \<open>s\<close> and whatever follows it.\<close>

definition reads :: "pyval \<Rightarrow> pystr \<Rightarrow> bool" where
  "reads v s \<longleftrightarrow> (\<forall>n r. 2 * length s < n \<longrightarrow> follows_value r \<longrightarrow> jvalue n (s @ r) = Inr (v, r))"

lemma readsD: "reads v s \<Longrightarrow> 2 * length s < n \<Longrightarrow> follows_value r \<Longrightarrow> jvalue n (s @ r) = Inr (v, r)"
  by (simp add: reads_def)

lemma reads_tokenI:
  assumes "\<And>m r. follows_value r \<Longrightarrow> jvalue (Suc m) (s @ r) = Inr (v, r)"
  shows "reads v s"
  unfolding reads_def
proof (intro allI impI)
  fix n r assume "2 * length s < n" "follows_value r"
  then show "jvalue n (s @ r) = Inr (v, r)" using assms by (cases n) auto
qed

lemma jelems_join:
  assumes "list_all2 (\<lambda>x p. serialize x = Inr p \<and> reads (norm_value x) p) xs ps" "xs \<noteq> []"
    and "2 * length (join_comma ps) + 1 < n"
  shows "jelems n (join_comma ps @ 93 # r) = Inr (map norm_value xs, r)"
  using assms
proof (induction xs arbitrary: ps n)
  case (Cons x xs)
  then obtain p ps' where ps: "ps = p # ps'" and p: "reads (norm_value x) p"
    and rest: "list_all2 (\<lambda>x p. serialize x = Inr p \<and> reads (norm_value x) p) xs ps'"
    by (auto simp: list_all2_Cons1)
  from Cons.prems(3) obtain m where n: "n = Suc m" by (cases n) auto
  show ?case
  proof (cases xs)
    case Nil
    with rest have "ps' = []" by simp
    then show ?thesis using Cons.prems(3) Nil readsD [OF p] by (simp add: ps n)
  next
    case (Cons y ys)
    with rest obtain p' ps'' where ps': "ps' = p' # ps''" and y: "serialize y = Inr p'"
      by (auto simp: list_all2_Cons1)
    have join: "join_comma ps = p @ 44 # join_comma ps'" by (simp add: ps ps')
    have sk: "skip_ws (join_comma ps' @ 93 # r) = join_comma ps' @ 93 # r"
      using skip_ws_value [OF y] by (cases ps'') (auto simp: ps')
    have len: "2 * length p < m" "2 * length (join_comma ps') + 1 < m"
      using Cons.prems(3) by (auto simp: join n)
    have 1: "jvalue m (p @ 44 # join_comma ps' @ 93 # r)
        = Inr (norm_value x, 44 # join_comma ps' @ 93 # r)"
      using readsD [OF p len(1)] by simp
    have 2: "jelems m (join_comma ps' @ 93 # r) = Inr (map norm_value xs, r)"
      using Cons.IH [OF rest _ len(2)] Cons by simp
    show ?thesis using 1 2 sk by (simp add: join n)
  qed
qed simp

text \<open>A member's text and the decoding of a member list.\<close>

definition member_text :: "pykey \<times> pyval \<Rightarrow> canon_error + pystr" where
  "member_text kv = rbind (quote_str (key_text (fst kv)))
                      (\<lambda>q. rbind (serialize (snd kv)) (\<lambda>s. Inr (q @ [58] @ s)))"

lemma serialize_PDict_iff:
  "serialize (PDict d) = Inr s \<longleftrightarrow>
     \<not> list_ex (\<lambda>kv. fst kv = KNonStr) d \<and>
     (\<exists>bs. rmap (\<lambda>kv. utf16_sort_key (key_text (fst kv))) d = Inr bs) \<and>
     (\<exists>ps. rmap member_text (sort_key item_key d) = Inr ps \<and> s = 123 # join_comma ps @ [125])"
  unfolding member_text_def [abs_def] by (auto simp: result_simps)

lemma jmembers_join:
  assumes "list_all2 (\<lambda>kv p. member_text kv = Inr p \<and>
        (\<forall>s. serialize (snd kv) = Inr s \<longrightarrow> reads (norm_value (snd kv)) s)) d ps" "d \<noteq> []"
    and "2 * length (join_comma ps) < n"
  shows "jmembers n (join_comma ps @ 125 # r)
       = Inr (map (\<lambda>kv. (key_text (fst kv), norm_value (snd kv))) d, r)"
  using assms
proof (induction d arbitrary: ps n)
  case (Cons kv d)
  then obtain p ps' q s where ps: "ps = p # ps'" and q: "quote_str (key_text (fst kv)) = Inr q"
    and s: "serialize (snd kv) = Inr s" and p: "p = q @ 58 # s" and rd: "reads (norm_value (snd kv)) s"
    and rest: "list_all2 (\<lambda>kv p. member_text kv = Inr p \<and>
        (\<forall>s. serialize (snd kv) = Inr s \<longrightarrow> reads (norm_value (snd kv)) s)) d ps'"
    by (auto simp: list_all2_Cons1 member_text_def result_simps)
  obtain q' where q': "q = 34 # q'" and scan: "\<And>r. scan_string (q' @ r) = Inr (key_text (fst kv), r)"
    using scan_string_quote_str [OF q] by blast
  from Cons.prems(3) obtain m where n: "n = Suc m" by (cases n) auto
  show ?case
  proof (cases d)
    case Nil
    with rest have ps': "ps' = []" by simp
    have "jvalue m (s @ 125 # r) = Inr (norm_value (snd kv), 125 # r)"
      using readsD [OF rd] Cons.prems(3) by (simp add: ps ps' p q' n)
    then show ?thesis
      using Nil scan skip_ws_value [OF s] by (simp add: ps ps' p q' n)
  next
    case (Cons kv2 d2)
    with rest obtain p2 ps2 where ps': "ps' = p2 # ps2" and p2: "member_text kv2 = Inr p2"
      by (auto simp: list_all2_Cons1)
    have join: "join_comma ps = p @ 44 # join_comma ps'" by (simp add: ps ps')
    from p2 obtain p3 where "p2 = 34 # p3"
      by (auto simp: member_text_def quote_str_def result_simps)
    then have sk: "skip_ws (join_comma ps' @ 125 # r) = join_comma ps' @ 125 # r"
      by (cases ps2) (auto simp: ps')
    have len: "2 * length s < m" "2 * length (join_comma ps') < m"
      using Cons.prems(3) by (auto simp: join n p q')
    have 1: "jvalue m (s @ 44 # join_comma ps' @ 125 # r)
        = Inr (norm_value (snd kv), 44 # join_comma ps' @ 125 # r)"
      using readsD [OF rd len(1)] by simp
    have 2: "jmembers m (join_comma ps' @ 125 # r)
        = Inr (map (\<lambda>kv. (key_text (fst kv), norm_value (snd kv))) d, r)"
      using Cons.IH [OF rest _ len(2)] Cons by simp
    show ?thesis
      using 1 2 sk scan skip_ws_value [OF s] by (simp add: join n p q')
  qed
qed simp


lemma update_append: "k \<notin> fst ` set d \<Longrightarrow> AList.update k v d = d @ [(k, v)]"
  by (induction d) auto

lemma duplicate_safe_loop_distinct:
  "distinct (map fst d @ map (KStr \<circ> fst) ps) \<Longrightarrow>
   duplicate_safe_loop d ps = Inr (d @ map (\<lambda>(k, v). (KStr k, v)) ps)"
  by (induction d ps rule: duplicate_safe_loop.induct) (auto simp: update_append)

lemma duplicate_safe_object_distinct:
  "distinct (map fst ps) \<Longrightarrow>
   duplicate_safe_object ps = Inr (map (\<lambda>(k, v). (KStr k, v)) ps)"
  by (simp add: duplicate_safe_object_def duplicate_safe_loop_distinct distinct_map comp_inj_on
      inj_on_def)

lemma reads_serialize:
  "serialize v = Inr s \<Longrightarrow> wf_value v \<Longrightarrow> reads (norm_value v) s"
proof (induction v arbitrary: s rule: pyval_induct)
  case (PInt i)
  then have s: "s = int_str i" and bound: "- max_safe_integer \<le> i" "i \<le> max_safe_integer"
    by (auto split: if_splits)
  show ?case unfolding reads_def
  proof (intro allI impI)
    fix n r assume n: "2 * length s < n" and r: "follows_value r"
    from n obtain m where m: "n = Suc m" by (cases n) auto
    have "jvalue n (s @ r) = rbind (scan_number (s @ r)) (\<lambda>(i, r). Inr (PInt i, r))"
      unfolding s m by (cases i rule: int_str_shape) (auto simp: str_simps is_digit_def)
    then show "jvalue n (s @ r) = Inr (norm_value (PInt i), r)"
      using scan_number_int_str [OF r bound] by (simp add: s)
  qed
next
  case (PStr t)
  then obtain q' where q: "s = 34 # q'" and "\<And>r. scan_string (q' @ r) = Inr (t, r)"
    using scan_string_quote_str [of t s] by auto
  then show ?case by (auto simp: reads_def gr0_conv_Suc dest!: less_imp_Suc_add)
next
  case (PList xs)
  then obtain ps where ps: "rmap serialize xs = Inr ps" and s: "s = 91 # join_comma ps @ [93]"
    by (auto simp: result_simps)
  have all: "list_all2 (\<lambda>x p. serialize x = Inr p \<and> reads (norm_value x) p) xs ps"
    using ps PList by (auto simp: rmap_eq_Inr_iff list_all_iff elim!: list.rel_mono_strong)
  show ?case unfolding reads_def
  proof (intro allI impI)
    fix n r assume n: "2 * length s < n"
    then obtain m where m: "n = Suc m" by (cases n) auto
    show "jvalue n (s @ r) = Inr (norm_value (PList xs), r)"
    proof (cases xs)
      case Nil
      then show ?thesis using all by (simp add: s m)
    next
      case (Cons y ys)
      with all obtain p ps' where p: "ps = p # ps'" "serialize y = Inr p"
        by (auto simp: list_all2_Cons1)
      have "p \<noteq> [] \<and> \<not> is_ws (hd p) \<and> hd p \<noteq> 93" using serialize_head p(2) by blast
      then have "skip_ws (join_comma ps @ 93 # r) = join_comma ps @ 93 # r"
        and "\<not> starts [93] (join_comma ps @ 93 # r)"
        by (cases p; cases ps'; auto simp: p(1) skip_ws_def)+
      moreover have "jelems m (join_comma ps @ 93 # r) = Inr (map norm_value xs, r)"
        using all n m s Cons by (intro jelems_join) auto
      ultimately show ?thesis by (simp add: s m)
    qed
  qed
next
  case (PDict d)
  let ?d = "sort_key item_key d"
  from PDict.prems obtain ps where str: "\<not> list_ex (\<lambda>kv. fst kv = KNonStr) d"
    and ps: "rmap member_text ?d = Inr ps" and s: "s = 123 # join_comma ps @ [125]"
    unfolding serialize_PDict_iff by blast
  have all: "list_all2 (\<lambda>kv p. member_text kv = Inr p \<and>
        (\<forall>s. serialize (snd kv) = Inr s \<longrightarrow> reads (norm_value (snd kv)) s)) ?d ps"
    using ps PDict by (auto simp: rmap_eq_Inr_iff list_all_iff elim!: list.rel_mono_strong)
  have keys: "KStr (key_text (fst kv)) = fst kv" if "kv \<in> set d" for kv
    using str that by (cases "fst kv") (auto simp: key_text_def list_ex_iff)
  have norm: "norm_value (PDict d)
      = PDict (map (\<lambda>kv. (KStr (key_text (fst kv)), norm_value (snd kv))) ?d)"
    using keys by (simp add: norm_items)
  have "distinct (map fst ?d)"
    using PDict.prems(2) by (simp add: distinct_map)
  moreover have "inj_on key_text (set (map fst ?d))"
    by (rule inj_on_inverseI [where g = KStr]) (use keys in auto)
  ultimately have "distinct (map (key_text \<circ> fst) ?d)"
    using distinct_map [of key_text "map fst ?d"] by simp
  then have dup: "duplicate_safe_object (map (\<lambda>kv. (key_text (fst kv), norm_value (snd kv))) ?d)
      = Inr (map (\<lambda>kv. (KStr (key_text (fst kv)), norm_value (snd kv))) ?d)"
    by (subst duplicate_safe_object_distinct) (simp_all add: comp_def)
  show ?case unfolding reads_def norm
  proof (intro allI impI)
    fix n r assume n: "2 * length s < n"
    then obtain m where m: "n = Suc m" by (cases n) auto
    show "jvalue n (s @ r)
        = Inr (PDict (map (\<lambda>kv. (KStr (key_text (fst kv)), norm_value (snd kv))) ?d), r)"
    proof (cases ?d)
      case Nil
      then show ?thesis using all by (simp add: s m)
    next
      case (Cons kv d')
      with all obtain p ps' where p: "ps = p # ps'" "member_text kv = Inr p"
        by (auto simp: list_all2_Cons1)
      then obtain p' where "p = 34 # p'" by (auto simp: member_text_def quote_str_def result_simps)
      then have "skip_ws (join_comma ps @ 125 # r) = join_comma ps @ 125 # r"
        and "\<not> starts [125] (join_comma ps @ 125 # r)"
        by (cases ps'; simp add: p(1))+
      moreover have "jmembers m (join_comma ps @ 125 # r)
          = Inr (map (\<lambda>kv. (key_text (fst kv), norm_value (snd kv))) ?d, r)"
        using all n m s Cons by (intro jmembers_join) auto
      ultimately show ?thesis using dup by (simp add: s m)
    qed
  qed
qed (auto intro!: reads_tokenI simp: str_simps split: if_splits)

text \<open>Decoding the canonical text of a value gives the value, its dictionaries in canonical order.\<close>

lemma json_loads_serialize:
  assumes "serialize v = Inr s" and "wf_value v"
  shows "json_loads_text s = Inr (norm_value v)"
proof -
  have "jvalue (Suc (2 * length s)) s = Inr (norm_value v, [])"
    using readsD [OF reads_serialize [OF assms], of "Suc (2 * length s)" "[]"] by simp
  moreover have "skip_ws s = s" using skip_ws_value [OF assms(1), of "[]"] by simp
  moreover have "\<not> starts [0xFEFF] s" using serialize_head [OF assms(1)] by (cases s) auto
  ultimately show ?thesis by (simp add: json_loads_text_def skip_ws_def)
qed


section \<open>Bytes\<close>

text \<open>
  \<^verbatim>\<open>json.loads\<close> on bytes detects the encoding and decodes with \<open>surrogatepass\<close>.  The UTF-8
  branch is modelled; \<open>other\<close> stands for the decoding of a byte string that carries a byte order
  mark or starts like UTF-16 or UTF-32.
\<close>

definition is_cont :: "nat \<Rightarrow> bool" where
  "is_cont b \<longleftrightarrow> 0x80 \<le> b \<and> b < 0xC0"

fun utf8_decode :: "bytes \<Rightarrow> pystr option" where
  "utf8_decode [] = Some []"
| "utf8_decode (b # bs) =
     (if b < 0x80 then map_option ((#) b) (utf8_decode bs)
      else case bs of
        [] \<Rightarrow> None
      | b1 # bs1 \<Rightarrow>
          if 0xC2 \<le> b \<and> b < 0xE0 \<and> is_cont b1
          then map_option ((#) ((b - 0xC0) * 64 + (b1 - 0x80))) (utf8_decode bs1)
          else case bs1 of
            [] \<Rightarrow> None
          | b2 # bs2 \<Rightarrow>
              if 0xE0 \<le> b \<and> b < 0xF0 \<and> is_cont b1 \<and> is_cont b2 \<and> (b = 0xE0 \<longrightarrow> 0xA0 \<le> b1)
              then map_option ((#) ((b - 0xE0) * 4096 + (b1 - 0x80) * 64 + (b2 - 0x80))) (utf8_decode bs2)
              else case bs2 of
                [] \<Rightarrow> None
              | b3 # bs3 \<Rightarrow>
                  if 0xF0 \<le> b \<and> b \<le> 0xF4 \<and> is_cont b1 \<and> is_cont b2 \<and> is_cont b3
                     \<and> (b = 0xF0 \<longrightarrow> 0x90 \<le> b1) \<and> (b = 0xF4 \<longrightarrow> b1 < 0x90)
                  then map_option ((#) ((b - 0xF0) * 262144 + (b1 - 0x80) * 4096 + (b2 - 0x80) * 64
                                        + (b3 - 0x80))) (utf8_decode bs3)
                  else None)"

definition detected_utf8 :: "bytes \<Rightarrow> bool" where
  "detected_utf8 b \<longleftrightarrow>
     \<not> (starts [0xFE, 0xFF] b \<or> starts [0xFF, 0xFE] b \<or> starts [0, 0, 0xFE, 0xFF] b
        \<or> starts [0xEF, 0xBB, 0xBF] b)
     \<and> \<not> ((4 \<le> length b \<or> length b = 2) \<and> (b ! 0 = 0 \<or> b ! 1 = 0))"

definition decode_bytes :: "(bytes \<Rightarrow> pystr option) \<Rightarrow> bytes \<Rightarrow> pystr option" where
  "decode_bytes other b = (if detected_utf8 b then utf8_decode b else other b)"

definition json_loads :: "(bytes \<Rightarrow> pystr option) \<Rightarrow> bytes \<Rightarrow> json_error + pyval" where
  "json_loads other b =
     (case decode_bytes other b of None \<Rightarrow> Inl Malformed | Some s \<Rightarrow> json_loads_text s)"

lemma utf8_decode_char:
  assumes "c \<le> 0x10FFFF"
  shows "utf8_decode (utf8_char c @ bs) = map_option ((#) c) (utf8_decode bs)"
proof -
  have d1: "c div 64 * 64 + c mod 64 = c" by simp
  have d2: "c div 4096 * 64 + c div 64 mod 64 = c div 64"
    using div_mult_mod_eq [of "c div 64" 64] by (simp add: div_mult2_eq [of c 64 64, simplified])
  have d3: "c div 262144 * 64 + c div 4096 mod 64 = c div 4096"
    using div_mult_mod_eq [of "c div 4096" 64] by (simp add: div_mult2_eq [of c 4096 64, simplified])
  consider "c < 0x80" | "0x80 \<le> c" "c < 0x800" | "0x800 \<le> c" "c < 0x10000"
    | "0x10000 \<le> c" by linarith
  then show ?thesis
  proof cases
    case 2
    then have "2 \<le> c div 64" "c div 64 < 32" by auto
    with 2 d1 show ?thesis by (simp add: utf8_char_def is_cont_def)
  next
    case 3
    then have "c div 4096 < 16" "c div 4096 = 0 \<Longrightarrow> 32 \<le> c div 64 mod 64"
      using d2 by auto
    moreover have "c div 4096 * 4096 + c div 64 mod 64 * 64 + c mod 64 = c"
      using d1 d2 by linarith
    ultimately show ?thesis using 3 by (auto simp: utf8_char_def is_cont_def)
  next
    case 4
    then have "c div 262144 \<le> 4" "c div 262144 = 0 \<Longrightarrow> 16 \<le> c div 4096 mod 64"
      "c div 262144 = 4 \<Longrightarrow> c div 4096 mod 64 < 16"
      using d3 assms by auto
    moreover have "c div 262144 * 262144 + c div 4096 mod 64 * 4096 + c div 64 mod 64 * 64
        + c mod 64 = c"
      using d1 d2 d3 by linarith
    ultimately show ?thesis using 4 by (auto simp: utf8_char_def is_cont_def)
  qed (simp add: utf8_char_def)
qed

lemma utf8_decode_utf8: "wf_str s \<Longrightarrow> utf8_decode (utf8 s) = Some s"
  by (induction s) (auto simp: utf8_def wf_str_def utf8_decode_char)


text \<open>Canonical text has no control character and only Unicode code points.\<close>

definition plain_text :: "pystr \<Rightarrow> bool" where
  "plain_text s \<longleftrightarrow> list_all (\<lambda>c. 32 \<le> c \<and> c \<le> 0x10FFFF) s"

lemma plain_text_simps [simp]:
  "plain_text []" "plain_text (c # s) \<longleftrightarrow> 32 \<le> c \<and> c \<le> 0x10FFFF \<and> plain_text s"
  "plain_text (s @ t) \<longleftrightarrow> plain_text s \<and> plain_text t"
  by (auto simp: plain_text_def)

lemma plain_join_comma: "list_all plain_text ps \<Longrightarrow> plain_text (join_comma ps)"
  by (induction ps rule: join_comma.induct) auto

lemma plain_quote_str:
  assumes "quote_str s = Inr q" "wf_str s"
  shows "plain_text q"
proof -
  have hex: "32 \<le> hex_digit d" "d < 16 \<Longrightarrow> hex_digit d \<le> 0x10FFFF" for d
    by (auto simp: hex_digit_def)
  have esc: "short_escape c = Some e \<Longrightarrow> 32 \<le> e \<and> e \<le> 0x10FFFF" for c e
    by (auto simp: short_escape_def split: if_splits)
  have "plain_text p" if "quote_char c = Inr p" "c \<le> 0x10FFFF" for c p
    using that esc [of c] by (auto simp: quote_char_def hex4_def hex split: if_splits option.splits)
  then have "rmap quote_char s = Inr ps \<Longrightarrow> plain_text (concat ps)" for ps
    using assms(2) by (induction s arbitrary: ps) (auto simp: result_simps wf_str_def)
  with assms(1) show ?thesis by (auto simp: quote_str_def result_simps)
qed

lemma plain_dec_nat: "plain_text (dec_nat n)"
  using dec_nat_digits [of n] by (auto simp: plain_text_def list_all_iff is_digit_def)

lemma plain_serialize: "serialize v = Inr s \<Longrightarrow> wf_value v \<Longrightarrow> plain_text s"
proof (induction v arbitrary: s rule: pyval_induct)
  case (PInt i)
  then show ?case by (auto simp: int_str_def plain_dec_nat split: if_splits)
next
  case (PStr t)
  then show ?case using plain_quote_str by simp
next
  case (PList xs)
  then obtain ps where ps: "rmap serialize xs = Inr ps" and s: "s = 91 # join_comma ps @ [93]"
    by (auto simp: result_simps)
  have "list_all plain_text ps"
    using ps PList by (fastforce simp: rmap_eq_Inr_iff list_all_iff list_all2_conv_all_nth in_set_conv_nth)
  then show ?case by (simp add: s plain_join_comma)
next
  case (PDict d)
  then obtain ps where ps: "rmap member_text (sort_key item_key d) = Inr ps"
    and s: "s = 123 # join_comma ps @ [125]"
    unfolding serialize_PDict_iff by blast
  have member: "plain_text p" if "kv \<in> set d" "member_text kv = Inr p" for kv p
    using that PDict.prems(2) PDict.IH [OF that(1)] plain_quote_str
    by (auto simp: member_text_def result_simps list_all_iff)
  have "list_all plain_text ps"
  proof (unfold list_all_iff, rule ballI)
    fix p assume "p \<in> set ps"
    then obtain kv where "kv \<in> set (sort_key item_key d)" "member_text kv = Inr p"
      using rmap_mem [OF ps] by blast
    then show "plain_text p" using member by simp
  qed
  then show ?case by (simp add: s plain_join_comma)
qed (auto simp: str_simps split: if_splits)

lemma utf8_char_bytes: "32 \<le> c \<Longrightarrow> b \<in> set (utf8_char c) \<Longrightarrow> 32 \<le> b"
  by (auto simp: utf8_char_def split: if_splits)

lemma plain_text_bytes: "plain_text s \<Longrightarrow> b \<in> set (utf8 s) \<Longrightarrow> 32 \<le> b"
  by (auto simp: utf8_def plain_text_def list_all_iff dest: utf8_char_bytes)

lemma canonical_detected_utf8:
  assumes "serialize v = Inr s" "wf_value v"
  shows "detected_utf8 (utf8 s)"
proof -
  obtain c s' where s: "s = c # s'" and c: "c < 128"
    using serialize_head [OF assms(1)] by (cases s) auto
  then have u: "utf8 s = c # utf8 s'" by (simp add: utf8_def utf8_char_def)
  have "utf8 s ! k \<noteq> 0" if "k < length (utf8 s)" for k
    using plain_text_bytes [OF plain_serialize [OF assms], of "utf8 s ! k"] that by auto
  from this [of 0] this [of 1] have "c \<noteq> 0" and "utf8 s' \<noteq> [] \<Longrightarrow> utf8 s' ! 0 \<noteq> 0"
    by (simp_all add: u)
  then show ?thesis using c by (cases "utf8 s'") (auto simp: detected_utf8_def u)
qed

lemma json_loads_canonical:
  assumes "canonicalize v = Inr b" and "wf_value v"
  shows "json_loads other b = Inr (norm_value v)"
proof -
  from assms(1) obtain s where s: "serialize v = Inr s" and b: "b = utf8 s"
    by (auto simp: canonicalize_def result_simps)
  have "wf_str s" using plain_serialize [OF s assms(2)]
    by (auto simp: plain_text_def wf_str_def list_all_iff)
  then have "decode_bytes other b = Some s"
    using canonical_detected_utf8 [OF s assms(2)] by (simp add: decode_bytes_def b utf8_decode_utf8)
  then show ?thesis using json_loads_serialize [OF s assms(2)] by (simp add: json_loads_def)
qed

text \<open>Hence canonical bytes determine a value up to the order of dictionary members.\<close>

lemma canonicalize_inj:
  assumes "canonicalize v = Inr b" "canonicalize w = Inr b" "wf_value v" "wf_value w"
  shows "norm_value v = norm_value w"
proof -
  have "(Inr (norm_value v) :: json_error + pyval) = Inr (norm_value w)"
    using json_loads_canonical [OF assms(1,3), of "\<lambda>_. None"]
      json_loads_canonical [OF assms(2,4), of "\<lambda>_. None"] by simp
  then show ?thesis by simp
qed

section \<open>Properties\<close>

text \<open>
  C32: canonicalization is faithful and complete on its domain: it succeeds exactly on the portable
  values (no float, no foreign type, safe integers, no surrogates, string keys), and two such values
  have the same canonical bytes exactly when they differ only in the order of dictionary members.
\<close>

theorem canonicalize_eq_iff:
  assumes "wf_value v" "wf_value w"
  shows "((\<exists>b. canonicalize v = Inr b) \<longleftrightarrow> portable v)
    \<and> (portable v \<and> portable w \<longrightarrow> (canonicalize v = canonicalize w \<longleftrightarrow> norm_value v = norm_value w))"
proof (intro conjI impI)
  have dom: "(\<exists>b. canonicalize v = Inr b) \<longleftrightarrow> portable v" for v
    by (auto simp: canonicalize_def result_simps simp flip: serialize_ok_iff)
  then show "(\<exists>b. canonicalize v = Inr b) \<longleftrightarrow> portable v" .
  assume p: "portable v \<and> portable w"
  then obtain b c where b: "canonicalize v = Inr b" and c: "canonicalize w = Inr c"
    using dom by metis
  show "canonicalize v = canonicalize w \<longleftrightarrow> norm_value v = norm_value w"
  proof
    assume "canonicalize v = canonicalize w"
    then show "norm_value v = norm_value w" using canonicalize_inj [OF b _ assms] b by simp
  next
    assume "norm_value v = norm_value w"
    then have "serialize v = serialize w" by (metis serialize_norm_value)
    then show "canonicalize v = canonicalize w" by (simp add: canonicalize_def)
  qed
qed

text \<open>
  C34: reading back what was canonicalized: \<^verbatim>\<open>json.loads\<close> with the strict hooks, applied to canonical
  bytes, returns the value that was serialized with its members in canonical order.
\<close>

theorem json_loads_canonicalize:
  assumes "canonicalize v = Inr b" and "wf_value v"
  shows "json_loads other b = Inr (norm_value v)"
  by (rule json_loads_canonical [OF assms])

text \<open>A value with out-of-order members, an escape and an astral key.\<close>

definition sample_value :: pyval where
  "sample_value = PDict [(KStr (str ''b''), PList [PInt (- 12), PBool True, PNone]),
     (KStr [0x1F600], PStr [34, 10, 233]), (KStr (str ''a''), PInt 0)]"

theorem canonicalize_eq_iff_witness:
  "canonicalize sample_value = canonicalize (norm_value sample_value)
   \<and> (\<exists>b. canonicalize sample_value = Inr b)"
proof -
  have wf: "wf_value sample_value" "wf_value (norm_value sample_value)"
    and p: "portable sample_value" "portable (norm_value sample_value)"
    and n: "norm_value sample_value = norm_value (norm_value sample_value)"
    by code_simp+
  show ?thesis using canonicalize_eq_iff [OF wf] p n by blast
qed

theorem json_loads_canonicalize_witness:
  "json_loads (\<lambda>_. None)
     (map of_char ''{\"a\":0,\"b\":[-12,true,null],\"'' @ [0xF0, 0x9F, 0x98, 0x80]
      @ map of_char ''\":\"'' @ [92, 34, 92, 110, 0xC3, 0xA9] @ map of_char ''\"}'')
   = Inr (norm_value sample_value)"
proof (rule json_loads_canonicalize)
  show "canonicalize sample_value = Inr
     (map of_char ''{\"a\":0,\"b\":[-12,true,null],\"'' @ [0xF0, 0x9F, 0x98, 0x80]
      @ map of_char ''\":\"'' @ [92, 34, 92, 110, 0xC3, 0xA9] @ map of_char ''\"}'')"
    by code_simp
  show "wf_value sample_value" by code_simp
qed

end
