(* ===== verification/Instants.thy ===== *)
theory Instants
  imports Ecp_Prelude "HOL-Library.Monad_Syntax"
begin

text \<open>
  \<^verbatim>\<open>sdk_python/evidence/instants.py\<close>: RFC 3339 text as exact instants in nanoseconds.
  The calendar of Python's \<^verbatim>\<open>datetime\<close> (proleptic Gregorian ordinals, years 1 to 9999) and the
  class \<open>\d\<close> of \<^verbatim>\<open>re\<close> (every decimal digit of Unicode 15, the table of Python 3.12) are modelled
  too; \<open>parse_instant\<close> is the function of the same name, with the one exception it does not turn
  into a \<^verbatim>\<open>TimestampError\<close> as an error of its own.
\<close>

section \<open>Decimal digits\<close>

definition decimal_zeros :: "nat list" where
  "decimal_zeros =
     [48, 1632, 1776, 1984, 2406, 2534, 2662, 2790, 2918, 3046, 3174, 3302, 3430, 3558, 3664, 3792,
      3872, 4160, 4240, 6112, 6160, 6470, 6608, 6784, 6800, 6992, 7088, 7232, 7248, 42528, 43216,
      43264, 43472, 43504, 43600, 44016, 65296, 66720, 68912, 69734, 69872, 69942, 70096, 70384,
      70736, 70864, 71248, 71360, 71472, 71904, 72016, 72784, 73040, 73120, 73552, 92768, 92864,
      93008, 120782, 120792, 120802, 120812, 120822, 123200, 123632, 124144, 125264, 130032]"

definition decimal_value :: "nat \<Rightarrow> nat option" where
  "decimal_value c =
     map_option (\<lambda>z. c - z) (find (\<lambda>z. z \<le> c \<and> c < z + 10) decimal_zeros)"

lemma decimal_value_less: "decimal_value c = Some d \<Longrightarrow> d < 10"
  by (auto simp: decimal_value_def find_Some_iff)

lemma decimal_value_ascii: "d < 10 \<Longrightarrow> decimal_value (48 + d) = Some d"
  by (simp add: decimal_value_def decimal_zeros_def)

fun decimal_number :: "nat \<Rightarrow> pystr \<Rightarrow> nat option" where
  "decimal_number acc [] = Some acc"
| "decimal_number acc (c # cs) =
     (case decimal_value c of None \<Rightarrow> None | Some d \<Rightarrow> decimal_number (10 * acc + d) cs)"

text \<open>\<open>\d{n}\<close> and a literal character.\<close>

definition scan_digits :: "nat \<Rightarrow> pystr \<Rightarrow> (nat \<times> pystr) option" where
  "scan_digits n s =
     (if length s < n then None
      else map_option (\<lambda>v. (v, drop n s)) (decimal_number 0 (take n s)))"

definition scan_one_of :: "nat list \<Rightarrow> pystr \<Rightarrow> (nat \<times> pystr) option" where
  "scan_one_of cs s = (case s of c # r \<Rightarrow> if c \<in> set cs then Some (c, r) else None | [] \<Rightarrow> None)"

section \<open>The calendar\<close>

definition is_leap :: "nat \<Rightarrow> bool" where
  "is_leap y \<longleftrightarrow> y mod 4 = 0 \<and> (y mod 100 \<noteq> 0 \<or> y mod 400 = 0)"

definition days_in_month :: "nat \<Rightarrow> nat \<Rightarrow> nat" where
  "days_in_month y m =
     (if m = 2 then (if is_leap y then 29 else 28)
      else if m \<in> {4, 6, 9, 11} then 30 else 31)"

definition valid_date :: "nat \<Rightarrow> nat \<Rightarrow> nat \<Rightarrow> bool" where
  "valid_date y m d \<longleftrightarrow>
     1 \<le> y \<and> y \<le> 9999 \<and> 1 \<le> m \<and> m \<le> 12 \<and> 1 \<le> d \<and> d \<le> days_in_month y m"

definition days_before_year :: "nat \<Rightarrow> nat" where
  "days_before_year y = (y - 1) * 365 + (y - 1) div 4 - (y - 1) div 100 + (y - 1) div 400"

definition days_before_month :: "nat \<Rightarrow> nat \<Rightarrow> nat" where
  "days_before_month y m = sum_list (map (days_in_month y) [1..<m])"

definition date_ordinal :: "nat \<Rightarrow> nat \<Rightarrow> nat \<Rightarrow> nat" where
  "date_ordinal y m d = days_before_year y + days_before_month y m + d"

text \<open>Seconds since the epoch, and the range \<^verbatim>\<open>datetime\<close> can represent.\<close>

definition epoch_seconds :: "nat \<Rightarrow> nat \<Rightarrow> nat \<Rightarrow> nat \<Rightarrow> nat \<Rightarrow> nat \<Rightarrow> int" where
  "epoch_seconds y m d h mi s =
     (int (date_ordinal y m d) - 719163) * 86400 + int (h * 3600 + mi * 60 + s)"

definition min_seconds :: int where
  "min_seconds = - 62135596800"

definition max_seconds :: int where
  "max_seconds = 253402300799"

definition representable :: "int \<Rightarrow> bool" where
  "representable t \<longleftrightarrow> min_seconds \<le> t \<and> t \<le> max_seconds"

section \<open>Parsing\<close>

record ts_match =
  tm_year :: nat
  tm_month :: nat
  tm_day :: nat
  tm_hour :: nat
  tm_minute :: nat
  tm_second :: nat
  tm_fraction :: pystr
  tm_offset :: "(bool \<times> nat \<times> nat) option"

text \<open>
  The pattern \<^verbatim>\<open>_RFC3339\<close> with its \<^verbatim>\<open>fullmatch\<close>.  An offset is its sign (whether it is
  \<open>+\<close>), hours and minutes.
\<close>

definition rfc3339_match :: "pystr \<Rightarrow> ts_match option" where
  "rfc3339_match v = do {
     (y, s1) \<leftarrow> scan_digits 4 v; (_, s2) \<leftarrow> scan_one_of [45] s1;
     (m, s3) \<leftarrow> scan_digits 2 s2; (_, s4) \<leftarrow> scan_one_of [45] s3;
     (d, s5) \<leftarrow> scan_digits 2 s4; (_, s6) \<leftarrow> scan_one_of [84, 116] s5;
     (h, s7) \<leftarrow> scan_digits 2 s6; (_, s8) \<leftarrow> scan_one_of [58] s7;
     (mi, s9) \<leftarrow> scan_digits 2 s8; (_, s10) \<leftarrow> scan_one_of [58] s9;
     (sec, s11) \<leftarrow> scan_digits 2 s10; (_, s12) \<leftarrow> scan_one_of [46] s11;
     let frac = takeWhile (\<lambda>c. decimal_value c \<noteq> None) s12;
     (z, s13) \<leftarrow> (if frac = [] then None
                 else scan_one_of [90, 122, 43, 45] (drop (length frac) s12));
     off \<leftarrow> (if z = 90 \<or> z = 122 then (if s13 = [] then Some None else None)
            else do {
              (oh, s14) \<leftarrow> scan_digits 2 s13; (_, s15) \<leftarrow> scan_one_of [58] s14;
              (om, s16) \<leftarrow> scan_digits 2 s15;
              if s16 = [] then Some (Some (z = 43, oh, om)) else None });
     Some \<lparr>tm_year = y, tm_month = m, tm_day = d, tm_hour = h, tm_minute = mi, tm_second = sec,
           tm_fraction = frac, tm_offset = off\<rparr>
   }"

record instant =
  epoch_nanoseconds :: int
  inst_text :: pystr

text \<open>
  Every constructor but the last is a \<^verbatim>\<open>TimestampError\<close>; \<open>DatetimeOverflow\<close> is the
  \<^verbatim>\<open>OverflowError\<close> that \<^verbatim>\<open>datetime\<close> arithmetic raises when the result leaves its range.
\<close>

datatype ts_error =
    TsNotString
  | TsNotRfc3339
  | TsBelowMillisecond
  | TsFinerThanNanosecond
  | TsLeapSecond
  | TsInvalidTime
  | TsInvalidDate
  | TsInvalidOffset
  | DatetimeOverflow

definition nanosecond_digits :: nat where
  "nanosecond_digits = 9"

text \<open>\<open>int(fraction.ljust(9, "0"))\<close>\<close>

definition fraction_nanoseconds :: "pystr \<Rightarrow> int" where
  "fraction_nanoseconds f =
     int (case decimal_number 0 (f @ replicate (nanosecond_digits - length f) 48) of
            Some n \<Rightarrow> n | None \<Rightarrow> 0)"

definition parse_instant :: "pystr \<Rightarrow> ts_error + instant" where
  "parse_instant v =
     (case rfc3339_match v of
        None \<Rightarrow> Inl TsNotRfc3339
      | Some t \<Rightarrow>
          if length (tm_fraction t) < 3 then Inl TsBelowMillisecond
          else if nanosecond_digits < length (tm_fraction t) then Inl TsFinerThanNanosecond
          else if tm_second t = 60 then Inl TsLeapSecond
          else if 23 < tm_hour t \<or> 59 < tm_minute t \<or> 59 < tm_second t then Inl TsInvalidTime
          else if \<not> valid_date (tm_year t) (tm_month t) (tm_day t) then Inl TsInvalidDate
          else
            let naive = epoch_seconds (tm_year t) (tm_month t) (tm_day t)
                          (tm_hour t) (tm_minute t) (tm_second t);
                nanos = fraction_nanoseconds (tm_fraction t)
            in case tm_offset t of
                 None \<Rightarrow> Inr \<lparr>epoch_nanoseconds = naive * 10 ^ 9 + nanos, inst_text = v\<rparr>
               | Some (ahead, oh, om) \<Rightarrow>
                   if 23 < oh \<or> 59 < om then Inl TsInvalidOffset
                   else
                     let offset = int (oh * 3600 + om * 60);
                         shifted = naive - (if ahead then offset else - offset)
                     in if representable shifted
                        then Inr \<lparr>epoch_nanoseconds = shifted * 10 ^ 9 + nanos, inst_text = v\<rparr>
                        else Inl DatetimeOverflow)"

text \<open>The comparison operators look at the instant and never at its text.\<close>

definition instant_lt :: "instant \<Rightarrow> instant \<Rightarrow> bool" where
  "instant_lt a b \<longleftrightarrow> epoch_nanoseconds a < epoch_nanoseconds b"

definition instant_le :: "instant \<Rightarrow> instant \<Rightarrow> bool" where
  "instant_le a b \<longleftrightarrow> epoch_nanoseconds a \<le> epoch_nanoseconds b"

definition instant_gt :: "instant \<Rightarrow> instant \<Rightarrow> bool" where
  "instant_gt a b \<longleftrightarrow> epoch_nanoseconds b < epoch_nanoseconds a"

definition instant_ge :: "instant \<Rightarrow> instant \<Rightarrow> bool" where
  "instant_ge a b \<longleftrightarrow> epoch_nanoseconds b \<le> epoch_nanoseconds a"

definition same_instant_as :: "instant \<Rightarrow> instant \<Rightarrow> bool" where
  "same_instant_as a b \<longleftrightarrow> epoch_nanoseconds a = epoch_nanoseconds b"


section \<open>The calendar is monotone\<close>

lemma days_in_month_bounds: "28 \<le> days_in_month y m" "days_in_month y m \<le> 31"
  by (auto simp: days_in_month_def)

lemma days_before_month_Suc:
  "1 \<le> m \<Longrightarrow> days_before_month y (Suc m) = days_before_month y m + days_in_month y m"
  by (simp add: days_before_month_def)

lemma days_before_month_mono:
  assumes "1 \<le> m" "m < m'"
  shows "days_before_month y m + days_in_month y m \<le> days_before_month y m'"
  using assms(2)
proof (induction m')
  case (Suc m')
  show ?case
  proof (cases "m = m'")
    case True
    then show ?thesis using assms(1) by (simp add: days_before_month_Suc)
  next
    case False
    with Suc assms(1) show ?thesis by (simp add: days_before_month_Suc)
  qed
qed simp

definition year_length :: "nat \<Rightarrow> nat" where
  "year_length y = (if is_leap y then 366 else 365)"

lemma months_before_december: "[1..<12] = [1, 2, 3, 4, 5, 6, 7, 8, 9, 10, 11]"
  by code_simp

lemma days_before_december: "days_before_month y 12 = (if is_leap y then 335 else 334)"
  unfolding days_before_month_def months_before_december by (simp add: days_in_month_def)

lemma days_before_month_13: "days_before_month y 12 + days_in_month y 12 = year_length y"
  by (simp add: days_before_december days_in_month_def year_length_def)

lemma year_step:
  fixes n :: nat
  shows "Suc n div 4 + n div 100 + Suc n div 400
    = n div 4 + Suc n div 100 + n div 400 + (if is_leap (Suc n) then 1 else 0)"
proof -
  have "Suc n mod 400 = 0 \<longrightarrow> Suc n mod 100 = 0" "Suc n mod 100 = 0 \<longrightarrow> Suc n mod 4 = 0"
    by presburger+
  then show ?thesis unfolding div_Suc is_leap_def by simp
qed

lemma year_difference:
  fixes a b c a' b' c' m m' k :: nat
  assumes "a' + b + c' = a + b' + c + k" "m' = m + 365" "b \<le> m + a" "b' \<le> m' + a'"
  shows "m' + a' - b' + c' = m + a - b + c + (365 + k)"
  using assms by linarith

lemma days_before_year_Suc:
  assumes "1 \<le> y"
  shows "days_before_year (Suc y) = days_before_year y + year_length y"
proof -
  obtain n where y: "y = Suc n" using assms by (cases y) auto
  have "Suc n * 365 + Suc n div 4 - Suc n div 100 + Suc n div 400
      = n * 365 + n div 4 - n div 100 + n div 400 + (365 + (if is_leap (Suc n) then 1 else 0))"
    by (rule year_difference [OF year_step]) (simp_all add: div_le_mono2 trans_le_add2)
  moreover have "year_length (Suc n) = 365 + (if is_leap (Suc n) then 1 else 0)"
    by (simp add: year_length_def)
  ultimately show ?thesis unfolding days_before_year_def y diff_Suc_1 by (simp only:)
qed

lemma days_before_year_mono:
  assumes "1 \<le> y" "y < y'"
  shows "days_before_year y + year_length y \<le> days_before_year y'"
  using assms(2)
proof (induction y')
  case (Suc y')
  show ?case
  proof (cases "y = y'")
    case True
    then show ?thesis using assms(1) by (simp add: days_before_year_Suc)
  next
    case False
    with Suc assms(1) show ?thesis by (simp add: days_before_year_Suc)
  qed
qed simp

lemma date_in_year:
  assumes "valid_date y m d"
  shows "days_before_month y m + d \<le> year_length y"
proof (cases "m = 12")
  case True
  then show ?thesis using assms days_before_month_13 [of y] by (simp add: valid_date_def)
next
  case False
  then have "days_before_month y m + days_in_month y m \<le> days_before_month y 12"
    using assms by (intro days_before_month_mono) (auto simp: valid_date_def)
  then show ?thesis using assms days_before_month_13 [of y] by (simp add: valid_date_def)
qed

lemma date_ordinal_strict_mono:
  assumes "valid_date y m d" "valid_date y' m' d'"
    and "y < y' \<or> y = y' \<and> (m < m' \<or> m = m' \<and> d < d')"
  shows "date_ordinal y m d < date_ordinal y' m' d'"
proof -
  have d': "1 \<le> d'" and y: "1 \<le> y" and m: "1 \<le> m" and d: "d \<le> days_in_month y m"
    using assms(1,2) by (auto simp: valid_date_def)
  from assms(3) show ?thesis
  proof (elim disjE conjE)
    assume "y < y'"
    then show ?thesis
      using days_before_year_mono [OF y, of y'] date_in_year [OF assms(1)] d'
      by (simp add: date_ordinal_def)
  next
    assume "y = y'" "m < m'"
    then show ?thesis
      using days_before_month_mono [OF m, of m' y] d d' by (simp add: date_ordinal_def)
  qed (simp add: date_ordinal_def)
qed

text \<open>\<open>clock_le\<close>: the written order of date and time of day.\<close>

lemma epoch_seconds_strict_mono:
  assumes v: "valid_date y m d" "valid_date y' m' d'"
    and t: "h \<le> 23" "mi \<le> 59" "s \<le> 59" "h' \<le> 23" "mi' \<le> 59" "s' \<le> 59"
    and less: "(y, m, d) = (y', m', d') \<and> (h < h' \<or> h = h' \<and> (mi < mi' \<or> mi = mi' \<and> s < s'))
       \<or> y < y' \<or> y = y' \<and> (m < m' \<or> m = m' \<and> d < d')"
  shows "epoch_seconds y m d h mi s < epoch_seconds y' m' d' h' mi' s'"
proof -
  have day: "h * 3600 + mi * 60 + s < 86400" using t by simp
  from less show ?thesis
  proof
    assume "(y, m, d) = (y', m', d') \<and> (h < h' \<or> h = h' \<and> (mi < mi' \<or> mi = mi' \<and> s < s'))"
    then show ?thesis using t by (auto simp: epoch_seconds_def)
  next
    assume "y < y' \<or> y = y' \<and> (m < m' \<or> m = m' \<and> d < d')"
    then have "date_ordinal y m d < date_ordinal y' m' d'" by (rule date_ordinal_strict_mono [OF v])
    then have "(int (date_ordinal y m d) - 719163) * 86400 + 86400
        \<le> (int (date_ordinal y' m' d') - 719163) * 86400" by simp
    with day show ?thesis unfolding epoch_seconds_def by linarith
  qed
qed

text \<open>Valid dates with a time of day lie in the range of \<^verbatim>\<open>datetime\<close>.\<close>

lemma epoch_seconds_representable:
  assumes "valid_date y m d" "h \<le> 23" "mi \<le> 59" "s \<le> 59"
  shows "representable (epoch_seconds y m d h mi s)"
proof -
  have last: "date_ordinal 9999 12 31 = 3652059"
    by (simp add: date_ordinal_def days_before_year_def days_before_december is_leap_def)
  have v2: "valid_date 9999 12 31"
    by (simp add: valid_date_def days_in_month_def)
  have "1 \<le> date_ordinal y m d"
    using assms(1) by (simp add: date_ordinal_def valid_date_def)
  moreover have "date_ordinal y m d \<le> 3652059"
  proof (cases "(y, m, d) = (9999, 12, 31)")
    case True
    then show ?thesis using last by simp
  next
    case False
    have "d \<le> 31" using assms(1) days_in_month_bounds(2) [of y m] by (simp add: valid_date_def)
    with False assms(1) have "date_ordinal y m d < date_ordinal 9999 12 31"
      by (intro date_ordinal_strict_mono [OF assms(1) v2]) (auto simp: valid_date_def)
    then show ?thesis using last by simp
  qed
  ultimately show ?thesis
    using assms(2-4) by (auto simp: representable_def epoch_seconds_def min_seconds_def max_seconds_def)
qed


section \<open>Order and offsets\<close>

lemma decimal_number_less: "decimal_number acc s = Some n \<Longrightarrow> n < (acc + 1) * 10 ^ length s"
proof (induction s arbitrary: acc)
  case (Cons c cs)
  then obtain d where d: "decimal_value c = Some d" "decimal_number (10 * acc + d) cs = Some n"
    by (auto split: option.splits)
  then have "n < (10 * acc + d + 1) * 10 ^ length cs" using Cons.IH by blast
  also have "\<dots> \<le> (10 * (acc + 1)) * 10 ^ length cs"
    using decimal_value_less [OF d(1)] by (intro mult_right_mono) auto
  finally show ?case by (simp add: algebra_simps)
qed simp

lemma fraction_nanoseconds_bounds:
  assumes "length f \<le> 9"
  shows "0 \<le> fraction_nanoseconds f" "fraction_nanoseconds f < 10 ^ 9"
proof -
  have "length (f @ replicate (nanosecond_digits - length f) 48) = 9"
    using assms by (simp add: nanosecond_digits_def)
  then show "fraction_nanoseconds f < 10 ^ 9"
    using decimal_number_less [of 0 "f @ replicate (nanosecond_digits - length f) 48"]
    by (auto simp: fraction_nanoseconds_def split: option.split)
qed (simp add: fraction_nanoseconds_def)

text \<open>The fields of a matched text in the order they are written, and its offset in seconds.\<close>

definition clock_fields :: "ts_match \<Rightarrow> int list" where
  "clock_fields t = [int (tm_year t), int (tm_month t), int (tm_day t), int (tm_hour t),
     int (tm_minute t), int (tm_second t), fraction_nanoseconds (tm_fraction t)]"

definition offset_seconds :: "ts_match \<Rightarrow> int" where
  "offset_seconds t = (case tm_offset t of None \<Rightarrow> 0
     | Some (ahead, oh, om) \<Rightarrow> (if ahead then int (oh * 3600 + om * 60) else - int (oh * 3600 + om * 60)))"

definition valid_clock :: "ts_match \<Rightarrow> bool" where
  "valid_clock t \<longleftrightarrow> 3 \<le> length (tm_fraction t) \<and> length (tm_fraction t) \<le> 9
     \<and> tm_hour t \<le> 23 \<and> tm_minute t \<le> 59 \<and> tm_second t \<le> 59
     \<and> valid_date (tm_year t) (tm_month t) (tm_day t)"

definition clock_nanoseconds :: "ts_match \<Rightarrow> int" where
  "clock_nanoseconds t = epoch_seconds (tm_year t) (tm_month t) (tm_day t) (tm_hour t)
     (tm_minute t) (tm_second t) * 10 ^ 9 + fraction_nanoseconds (tm_fraction t)"

lemma parse_instant_value:
  assumes "parse_instant v = Inr i" and "rfc3339_match v = Some t"
  shows "valid_clock t" and "epoch_nanoseconds i = clock_nanoseconds t - offset_seconds t * 10 ^ 9"
    and "inst_text i = v"
  using assms
  by (auto simp: parse_instant_def valid_clock_def clock_nanoseconds_def offset_seconds_def Let_def
      nanosecond_digits_def algebra_simps split: if_splits option.splits prod.splits)

lemma clock_nanoseconds_mono:
  assumes v: "valid_clock t" "valid_clock u" and less: "clock_fields t < clock_fields u"
  shows "clock_nanoseconds t < clock_nanoseconds u"
proof (cases "(tm_year t, tm_month t, tm_day t, tm_hour t, tm_minute t, tm_second t)
    = (tm_year u, tm_month u, tm_day u, tm_hour u, tm_minute u, tm_second u)")
  case True
  then show ?thesis using less by (simp add: clock_fields_def clock_nanoseconds_def)
next
  case False
  then have "epoch_seconds (tm_year t) (tm_month t) (tm_day t) (tm_hour t) (tm_minute t) (tm_second t)
      < epoch_seconds (tm_year u) (tm_month u) (tm_day u) (tm_hour u) (tm_minute u) (tm_second u)"
    using v less by (intro epoch_seconds_strict_mono) (auto simp: valid_clock_def clock_fields_def)
  then show ?thesis
    using fraction_nanoseconds_bounds [of "tm_fraction t"] fraction_nanoseconds_bounds [of "tm_fraction u"] v
    by (simp add: clock_nanoseconds_def valid_clock_def)
qed

lemma clock_fields_nanoseconds:
  "clock_fields t = clock_fields u \<Longrightarrow> clock_nanoseconds t = clock_nanoseconds u"
  by (simp add: clock_fields_def clock_nanoseconds_def)

lemma clock_nanoseconds_less_iff:
  assumes "valid_clock t" "valid_clock u"
  shows "clock_nanoseconds t < clock_nanoseconds u \<longleftrightarrow> clock_fields t < clock_fields u"
  using clock_nanoseconds_mono [OF assms] clock_nanoseconds_mono [OF assms(2,1)]
    clock_fields_nanoseconds [of t u] by (metis less_asym' less_irrefl linorder_less_linear)

section \<open>Properties\<close>

text \<open>
  C35: two accepted timestamps denote instants in the order of their calendar fields read left to
  right, each shifted by its own offset: for equal offsets the comparison of instants is the
  lexicographic comparison of year, month, day, hour, minute, second and nanoseconds, and for any
  offsets the instants differ by the difference of the clock readings less that of the offsets.
\<close>

theorem parse_instant_order:
  assumes "parse_instant v = Inr i" "rfc3339_match v = Some t"
    and "parse_instant w = Inr j" "rfc3339_match w = Some u"
  shows "(offset_seconds t = offset_seconds u \<longrightarrow>
           (instant_lt i j \<longleftrightarrow> clock_fields t < clock_fields u)
           \<and> (same_instant_as i j \<longleftrightarrow> clock_fields t = clock_fields u))
    \<and> epoch_nanoseconds j - epoch_nanoseconds i =
        clock_nanoseconds u - clock_nanoseconds t - (offset_seconds u - offset_seconds t) * 10 ^ 9"
proof -
  note i = parse_instant_value [OF assms(1,2)] and j = parse_instant_value [OF assms(3,4)]
  have "clock_nanoseconds t = clock_nanoseconds u \<longleftrightarrow> clock_fields t = clock_fields u"
    using clock_nanoseconds_less_iff [OF i(1) j(1)] clock_nanoseconds_less_iff [OF j(1) i(1)]
      clock_fields_nanoseconds [of t u] by (metis linorder_less_linear less_irrefl)
  moreover have "instant_lt i j \<longleftrightarrow> clock_nanoseconds t < clock_nanoseconds u"
    and "same_instant_as i j \<longleftrightarrow> clock_nanoseconds t = clock_nanoseconds u"
    if "offset_seconds t = offset_seconds u"
    using i(2) j(2) that by (auto simp: instant_lt_def same_instant_as_def)
  ultimately show ?thesis
    using i(2) j(2) clock_nanoseconds_less_iff [OF i(1) j(1)] by (simp add: algebra_simps)
qed

theorem parse_instant_order_witness:
  "\<exists>i j. parse_instant (str ''2026-02-28T23:59:59.999Z'') = Inr i
     \<and> parse_instant (str ''2026-03-01T00:00:00.000Z'') = Inr j \<and> instant_lt i j"
proof -
  let ?v = "str ''2026-02-28T23:59:59.999Z''" and ?w = "str ''2026-03-01T00:00:00.000Z''"
  let ?t = "\<lparr>tm_year = 2026, tm_month = 2, tm_day = 28, tm_hour = 23, tm_minute = 59, tm_second = 59,
      tm_fraction = [57, 57, 57], tm_offset = None\<rparr>"
  let ?u = "\<lparr>tm_year = 2026, tm_month = 3, tm_day = 1, tm_hour = 0, tm_minute = 0, tm_second = 0,
      tm_fraction = [48, 48, 48], tm_offset = None\<rparr>"
  have i: "parse_instant ?v = Inr \<lparr>epoch_nanoseconds = 1772323199999000000, inst_text = ?v\<rparr>"
    and t: "rfc3339_match ?v = Some ?t"
    and j: "parse_instant ?w = Inr \<lparr>epoch_nanoseconds = 1772323200000000000, inst_text = ?w\<rparr>"
    and u: "rfc3339_match ?w = Some ?u"
    by code_simp+
  have "offset_seconds ?t = offset_seconds ?u" and less: "clock_fields ?t < clock_fields ?u"
    by code_simp+
  with parse_instant_order [OF i t j u] show ?thesis using i j by blast
qed

text \<open>
  \<open>parse_instant\<close> can fail with an exception that is not a \<^verbatim>\<open>TimestampError\<close>: a text whose
  calendar fields, time of day, fraction and offset are all acceptable is refused with
  \<open>DatetimeOverflow\<close> exactly when shifting by its offset leaves the years 1 to 9999, and in every
  other case it is accepted.
\<close>

theorem parse_instant_total:
  assumes "rfc3339_match v = Some t" and "valid_clock t"
    and "\<forall>ahead oh om. tm_offset t = Some (ahead, oh, om) \<longrightarrow> oh \<le> 23 \<and> om \<le> 59"
  shows "parse_instant v =
    (if representable ((clock_nanoseconds t - offset_seconds t * 10 ^ 9) div 10 ^ 9)
     then Inr \<lparr>epoch_nanoseconds = clock_nanoseconds t - offset_seconds t * 10 ^ 9, inst_text = v\<rparr>
     else Inl DatetimeOverflow)"
proof -
  let ?n = "epoch_seconds (tm_year t) (tm_month t) (tm_day t) (tm_hour t) (tm_minute t) (tm_second t)"
  have f: "0 \<le> fraction_nanoseconds (tm_fraction t)" "fraction_nanoseconds (tm_fraction t) < 10 ^ 9"
    using fraction_nanoseconds_bounds assms(2) by (simp_all add: valid_clock_def)
  have split: "clock_nanoseconds t - offset_seconds t * 10 ^ 9
      = (?n - offset_seconds t) * 10 ^ 9 + fraction_nanoseconds (tm_fraction t)"
    by (simp add: clock_nanoseconds_def algebra_simps)
  have sec: "(clock_nanoseconds t - offset_seconds t * 10 ^ 9) div 10 ^ 9 = ?n - offset_seconds t"
    unfolding split using f by simp
  have "representable ?n"
    using assms(2) by (intro epoch_seconds_representable) (auto simp: valid_clock_def)
  then show ?thesis
    unfolding sec unfolding split using assms
    by (auto simp: parse_instant_def valid_clock_def offset_seconds_def nanosecond_digits_def Let_def
        split: option.split if_splits)
qed

theorem parse_instant_total_witness:
  "parse_instant (str ''0001-01-01T00:00:00.000+01:00'') = Inl DatetimeOverflow"
proof -
  let ?v = "str ''0001-01-01T00:00:00.000+01:00''"
  let ?t = "\<lparr>tm_year = 1, tm_month = 1, tm_day = 1, tm_hour = 0, tm_minute = 0, tm_second = 0,
      tm_fraction = [48, 48, 48], tm_offset = Some (True, 1, 0)\<rparr>"
  have t: "rfc3339_match ?v = Some ?t" and c: "valid_clock ?t" by code_simp+
  have "\<not> representable ((clock_nanoseconds ?t - offset_seconds ?t * 10 ^ 9) div 10 ^ 9)"
    by code_simp
  with parse_instant_total [OF t c] show ?thesis by simp
qed

end
