(* ===== verification/Registries.thy ===== *)
theory Registries
  imports Canonical
begin

text \<open>
  The closed tables of the evidence specification: \<^verbatim>\<open>sdk_python/evidence/versions.py\<close> (which schema
  and methodology versions a verifier has rules for) and \<^verbatim>\<open>sdk_python/evidence/origin.py\<close> (which
  key namespace signs which record type).
\<close>

section \<open>Published versions\<close>

datatype version_status = PUBLISHED | RESERVED

datatype version_error = VersionNotString | VersionAbsent | VersionReserved

type_synonym version_registry = "(pystr \<times> version_status) list"

definition SCHEMA_VERSION_REGISTRY :: version_registry where
  "SCHEMA_VERSION_REGISTRY = [(str ''1.0.0'', PUBLISHED), (str ''2.0.0'', RESERVED)]"

definition METHODOLOGY_VERSION_REGISTRY :: version_registry where
  "METHODOLOGY_VERSION_REGISTRY = [(str ''1.0.0'', PUBLISHED)]"

definition require_published :: "pyval \<Rightarrow> version_registry \<Rightarrow> version_error + pystr" where
  "require_published v registry =
     (case v of
        PStr s \<Rightarrow>
          (case map_of registry s of
             None \<Rightarrow> Inl VersionAbsent
           | Some status \<Rightarrow> if status \<noteq> PUBLISHED then Inl VersionReserved else Inr s)
      | _ \<Rightarrow> Inl VersionNotString)"

definition published_versions :: "version_registry \<Rightarrow> pystr set" where
  "published_versions registry = fst ` set (filter (\<lambda>(v, status). status = PUBLISHED) registry)"

definition require_published_schema_version :: "pyval \<Rightarrow> version_error + pystr" where
  "require_published_schema_version v = require_published v SCHEMA_VERSION_REGISTRY"

definition require_published_methodology_version :: "pyval \<Rightarrow> version_error + pystr" where
  "require_published_methodology_version v = require_published v METHODOLOGY_VERSION_REGISTRY"

lemma require_published_iff:
  assumes "distinct (map fst registry)"
  shows "require_published v registry = Inr s \<longleftrightarrow> v = PStr s \<and> s \<in> published_versions registry"
proof -
  have "s \<in> published_versions registry \<longleftrightarrow> map_of registry s = Some PUBLISHED" for s
    using assms by (force simp: published_versions_def map_of_eq_Some_iff)
  then show ?thesis
    by (auto simp: require_published_def split: pyval.splits option.splits)
qed

lemma registries_distinct:
  "distinct (map fst SCHEMA_VERSION_REGISTRY)" "distinct (map fst METHODOLOGY_VERSION_REGISTRY)"
  by (simp_all add: SCHEMA_VERSION_REGISTRY_def METHODOLOGY_VERSION_REGISTRY_def)

lemma schema_version_ok_iff:
  "require_published_schema_version v = Inr s \<longleftrightarrow> v = PStr s \<and> s = str ''1.0.0''"
  unfolding require_published_schema_version_def require_published_iff [OF registries_distinct(1)]
  by (auto simp: published_versions_def SCHEMA_VERSION_REGISTRY_def)

lemma methodology_version_ok_iff:
  "require_published_methodology_version v = Inr s \<longleftrightarrow> v = PStr s \<and> s = str ''1.0.0''"
  unfolding require_published_methodology_version_def require_published_iff [OF registries_distinct(2)]
  by (auto simp: published_versions_def METHODOLOGY_VERSION_REGISTRY_def)

section \<open>Record origins\<close>

datatype key_namespace = Evidence | Issuer

definition PRIMARY_SIGNER_NAMESPACE :: "(pystr \<times> key_namespace) list" where
  "PRIMARY_SIGNER_NAMESPACE =
     [(str ''AssuranceBoundary'', Evidence),
      (str ''QualificationRecord'', Evidence),
      (str ''PopulationRecord'', Issuer),
      (str ''AgentIdentity'', Evidence),
      (str ''ActionProposal'', Evidence),
      (str ''AuthorityDecision'', Evidence),
      (str ''HumanReview'', Evidence),
      (str ''ExecutionReceipt'', Evidence),
      (str ''ExternalConfirmation'', Issuer),
      (str ''FinalityRecord'', Evidence),
      (str ''OutcomeRecord'', Evidence),
      (str ''CoverageGap'', Evidence),
      (str ''AttestationWindow'', Evidence),
      (str ''RevocationRecord'', Issuer)]"

text \<open>\<open>None\<close> is the \<^verbatim>\<open>ValueError\<close> of an unclassified record type.\<close>

definition primary_signer_namespace :: "pystr \<Rightarrow> key_namespace option" where
  "primary_signer_namespace t = map_of PRIMARY_SIGNER_NAMESPACE t"

text \<open>
  A hosted population and an external confirmation are signed by the issuer, and so is a
  revocation; everything else the table names is the customer's.
\<close>

lemma issuer_signed_iff:
  "primary_signer_namespace t = Some Issuer \<longleftrightarrow>
     t \<in> {str ''PopulationRecord'', str ''ExternalConfirmation'', str ''RevocationRecord''}"
  by (auto simp: primary_signer_namespace_def PRIMARY_SIGNER_NAMESPACE_def)

end
