(* ===== verification/Records.thy ===== *)
theory Records
  imports Registries Json_Text Instants
begin

text \<open>
  \<^verbatim>\<open>sdk_python/evidence/schema.py\<close>: the closed record envelope, the bodies of the fourteen record
  types and the validation that turns a decoded JSON object into a record.  A Pydantic model class
  is a \<open>model_spec\<close>: its required fields with their types, the fields optional by
  presence, and whether it keeps extra members; \<open>conforms\<close> reads the field types and
  \<open>model_ok\<close> the class.  \<open>validate_record\<close>, \<open>parse_record\<close> and
  \<open>serialize_record\<close> are the public functions; \<open>record_members\<close> is the
  \<^verbatim>\<open>model_dump\<close> a record is canonicalized from.
\<close>

section \<open>Field validators\<close>

text \<open>\<^verbatim>\<open>_assert_json_value\<close>; it does not look for surrogates in keys.\<close>

fun assert_json_value :: "pyval \<Rightarrow> bool" where
  "assert_json_value PNone = True"
| "assert_json_value (PBool b) = True"
| "assert_json_value (PStr s) = list_all (\<lambda>c. \<not> is_surrogate c) s"
| "assert_json_value PFloat = False"
| "assert_json_value (PInt i) = (- max_safe_integer \<le> i \<and> i \<le> max_safe_integer)"
| "assert_json_value (PList xs) = list_all assert_json_value xs"
| "assert_json_value (PDict d) = list_all (\<lambda>kv. fst kv \<noteq> KNonStr \<and> assert_json_value (snd kv)) d"
| "assert_json_value (POther t) = False"

definition is_lower_hex :: "nat \<Rightarrow> bool" where
  "is_lower_hex c \<longleftrightarrow> 48 \<le> c \<and> c \<le> 57 \<or> 97 \<le> c \<and> c \<le> 102"

text \<open>
  \<^verbatim>\<open>_uuid7\<close>: a text that \<^verbatim>\<open>UUID\<close> parses, prints back unchanged (so it is the lowercase hyphenated
  form), and whose version is 7, which \<^verbatim>\<open>UUID.version\<close> answers only for the RFC 4122 variant.
\<close>

definition uuid7 :: "pystr \<Rightarrow> bool" where
  "uuid7 s \<longleftrightarrow> length s = 36
     \<and> list_all (\<lambda>i. if i \<in> {8, 13, 18, 23} then s ! i = 45 else is_lower_hex (s ! i)) [0..<36]
     \<and> s ! 14 = 55 \<and> s ! 19 \<in> {56, 57, 97, 98}"

definition digest_ok :: "pystr \<Rightarrow> bool" where
  "digest_ok s \<longleftrightarrow> take 7 s = str ''sha256:'' \<and> length (drop 7 s) = 64 \<and> list_all is_lower_hex (drop 7 s)"

text \<open>
  \<^verbatim>\<open>_SEMVER_RE\<close>, read from the left: no choice of the pattern can be revised by what
  follows it, because a numeric part ends at a point, a hyphen or a plus and an identifier list at
  a plus.
\<close>

definition semver_number :: "pystr \<Rightarrow> pystr option" where
  "semver_number s =
     (case s of
        c # r \<Rightarrow> if c = 48 then Some r
                 else if 49 \<le> c \<and> c \<le> 57 then Some (dropWhile (\<lambda>c. decimal_value c \<noteq> None) r)
                 else None
      | [] \<Rightarrow> None)"

definition semver_ident_char :: "nat \<Rightarrow> bool" where
  "semver_ident_char c \<longleftrightarrow> 48 \<le> c \<and> c \<le> 57 \<or> 65 \<le> c \<and> c \<le> 90 \<or> 97 \<le> c \<and> c \<le> 122 \<or> c = 45"

definition semver_idents :: "pystr \<Rightarrow> bool" where
  "semver_idents b \<longleftrightarrow> list_all (\<lambda>p. p \<noteq> [] \<and> list_all semver_ident_char p) (split_on 46 b)"

definition semver_tail :: "pystr \<Rightarrow> bool" where
  "semver_tail r =
     (case r of
        [] \<Rightarrow> True
      | c # b \<Rightarrow>
          if c = 43 then semver_idents b
          else c = 45 \<and> semver_idents (takeWhile (\<lambda>c. c \<noteq> 43) b)
               \<and> (case dropWhile (\<lambda>c. c \<noteq> 43) b of [] \<Rightarrow> True | _ # build \<Rightarrow> semver_idents build))"

definition after_point :: "pystr \<Rightarrow> pystr option" where
  "after_point s = (case s of c # r \<Rightarrow> if c = 46 then Some r else None | [] \<Rightarrow> None)"

definition semver :: "pystr \<Rightarrow> bool" where
  "semver s =
     (case do { a \<leftarrow> semver_number s; b \<leftarrow> after_point a; c \<leftarrow> semver_number b;
                d \<leftarrow> after_point c; semver_number d } of
        None \<Rightarrow> False
      | Some r \<Rightarrow> semver_tail r)"

text \<open>
  \<^verbatim>\<open>_timestamp\<close>: the pattern is that of \<^theory_text>\<open>Instants\<close> with upper-case \<open>T\<close> and \<open>Z\<close> only and
  at least three fraction digits; a leap second is acceptable here.
\<close>

definition timestamp_ok :: "pystr \<Rightarrow> bool" where
  "timestamp_ok v =
     (case rfc3339_match v of
        None \<Rightarrow> False
      | Some t \<Rightarrow>
          v ! 10 = 84 \<and> last v \<noteq> 122 \<and> 3 \<le> length (tm_fraction t)
          \<and> valid_date (tm_year t) (tm_month t) (tm_day t)
          \<and> tm_hour t \<le> 23 \<and> tm_minute t \<le> 59 \<and> tm_second t \<le> 60
          \<and> (case tm_offset t of None \<Rightarrow> True | Some (_, oh, om) \<Rightarrow> oh \<le> 23 \<and> om \<le> 59))"

section \<open>Models\<close>

datatype field_type =
    TStr
  | TUuid7
  | TSemVer
  | TTimestamp
  | TDigest
  | TPositive
  | TNonNegative
  | TSafe
  | TBool
  | TJson
  | TObject
  | TModel
  | TList field_type
  | TLiteral "pystr list"
  | TOrNone field_type

text \<open>
  Strict mode coerces nothing: a Boolean is not an integer, and a string must be valid Unicode.
\<close>

fun conforms :: "field_type \<Rightarrow> pyval \<Rightarrow> bool" where
  "conforms TStr v = (case v of PStr s \<Rightarrow> list_all (\<lambda>c. \<not> is_surrogate c) s | _ \<Rightarrow> False)"
| "conforms TUuid7 v = (case v of PStr s \<Rightarrow> uuid7 s | _ \<Rightarrow> False)"
| "conforms TSemVer v = (case v of PStr s \<Rightarrow> semver s | _ \<Rightarrow> False)"
| "conforms TTimestamp v = (case v of PStr s \<Rightarrow> timestamp_ok s | _ \<Rightarrow> False)"
| "conforms TDigest v = (case v of PStr s \<Rightarrow> digest_ok s | _ \<Rightarrow> False)"
| "conforms TPositive v = (case v of PInt i \<Rightarrow> 1 \<le> i \<and> i \<le> max_safe_integer | _ \<Rightarrow> False)"
| "conforms TNonNegative v = (case v of PInt i \<Rightarrow> 0 \<le> i \<and> i \<le> max_safe_integer | _ \<Rightarrow> False)"
| "conforms TSafe v =
     (case v of PInt i \<Rightarrow> - max_safe_integer \<le> i \<and> i \<le> max_safe_integer | _ \<Rightarrow> False)"
| "conforms TBool v = (case v of PBool _ \<Rightarrow> True | _ \<Rightarrow> False)"
| "conforms TJson v = portable v"
| "conforms TObject v = (case v of PDict _ \<Rightarrow> portable v | _ \<Rightarrow> False)"
| "conforms TModel v = (case v of PDict _ \<Rightarrow> True | _ \<Rightarrow> False)"
| "conforms (TList t) v = (case v of PList xs \<Rightarrow> list_all (conforms t) xs | _ \<Rightarrow> False)"
| "conforms (TLiteral ls) v = (case v of PStr s \<Rightarrow> s \<in> set ls | _ \<Rightarrow> False)"
| "conforms (TOrNone t) v = (case v of PNone \<Rightarrow> True | _ \<Rightarrow> conforms t v)"

type_synonym field_table = "(string \<times> field_type) list"

record model_spec =
  ms_required :: field_table
  ms_presence_optional :: field_table
  ms_extra_allowed :: bool

definition member :: "pydict \<Rightarrow> string \<Rightarrow> pyval option" where
  "member d name = map_of d (KStr (str name))"

text \<open>
  \<^verbatim>\<open>JsonModel\<close> with a class's fields: the \<^verbatim>\<open>before\<close> validator (JSON values only, no optional field
  spelled as null), the fields, and the treatment of extra members.
\<close>

definition model_ok :: "model_spec \<Rightarrow> pydict \<Rightarrow> bool" where
  "model_ok m d \<longleftrightarrow>
     assert_json_value (PDict d)
     \<and> list_all (\<lambda>(n, t). member d n \<noteq> Some PNone) (ms_presence_optional m)
     \<and> list_all (\<lambda>(n, t). case member d n of None \<Rightarrow> False | Some v \<Rightarrow> conforms t v) (ms_required m)
     \<and> list_all (\<lambda>(n, t). case member d n of None \<Rightarrow> True | Some v \<Rightarrow> conforms t v)
         (ms_presence_optional m)
     \<and> (ms_extra_allowed m \<or>
         list_all (\<lambda>kv. fst kv \<in> KStr ` str ` fst ` set (ms_required m @ ms_presence_optional m)) d)"

definition body_model :: "field_table \<Rightarrow> field_table \<Rightarrow> model_spec" where
  "body_model req opt = \<lparr>ms_required = req, ms_presence_optional = opt, ms_extra_allowed = True\<rparr>"

definition closed_model :: "field_table \<Rightarrow> field_table \<Rightarrow> model_spec" where
  "closed_model req opt = \<lparr>ms_required = req, ms_presence_optional = opt, ms_extra_allowed = False\<rparr>"

definition ClocksModel :: model_spec where
  "ClocksModel = closed_model [(''source_time'', TTimestamp)] [(''authoritative_time'', TTimestamp)]"

definition IngestionReceiptModel :: model_spec where
  "IngestionReceiptModel = closed_model
     [(''record_digest'', TDigest), (''ingest_time'', TTimestamp), (''clock_skew_ms'', TSafe)] []"

section \<open>Bodies\<close>

definition assurance_classes :: "pystr list" where
  "assurance_classes = [str ''C1'', str ''C2'', str ''C3'', str ''C4'', str ''C5'']"

definition AssuranceBoundaryBody :: model_spec where
  "AssuranceBoundaryBody = body_model
     [(''boundary_version'', TStr), (''tenant'', TStr), (''deployment'', TStr),
      (''agent_identities'', TList TJson), (''action_families'', TList TJson),
      (''destination_systems'', TList TJson), (''enforcement_points'', TList TJson),
      (''policy_refs'', TList TStr), (''window_start'', TTimestamp), (''window_end'', TTimestamp),
      (''collection_modes'', TList TStr), (''fail_behaviour'', TObject),
      (''qualification_refs'', TList TStr)] []"

definition QualificationRecordBody :: model_spec where
  "QualificationRecordBody = body_model
     [(''action_family'', TStr), (''destination_system'', TStr), (''enumeration'', TObject),
      (''identity_isolation'', TObject), (''confirmation'', TObject), (''temporal'', TObject),
      (''retention_period'', TStr), (''mutability'', TObject),
      (''assigned_class'', TLiteral assurance_classes), (''class_evidence'', TJson),
      (''trial'', TObject), (''qualified_at'', TTimestamp), (''revalidation_cadence'', TStr)] []"

definition PopulationRecordBody :: model_spec where
  "PopulationRecordBody = body_model
     [(''action_family'', TStr), (''destination_system'', TStr), (''window_start'', TTimestamp),
      (''window_end'', TTimestamp), (''enumeration_query'', TObject), (''count'', TNonNegative),
      (''pagination_complete'', TBool), (''result_cap_hit'', TBool), (''retrieved_at'', TTimestamp),
      (''authoritative_timestamps'', TObject)]
     [(''record_identifiers'', TList TStr), (''identifier_digest'', TDigest)]"

text \<open>Its validator \<^verbatim>\<open>has_one_identifier_representation\<close>.\<close>

definition has_one_identifier_representation :: "pydict \<Rightarrow> bool" where
  "has_one_identifier_representation d \<longleftrightarrow>
     (member d ''record_identifiers'' = None) \<noteq> (member d ''identifier_digest'' = None)"

definition AgentIdentityBody :: model_spec where
  "AgentIdentityBody = body_model
     [(''agent_id'', TStr), (''deployment'', TStr), (''runtime'', TStr), (''tenant_scope'', TStr),
      (''service_identity'', TStr), (''model_versions'', TList TStr), (''tool_versions'', TList TStr),
      (''credential_ref'', TStr)] []"

definition ActionProposalBody :: model_spec where
  "ActionProposalBody = body_model
     [(''action_family'', TStr), (''action_id'', TStr), (''tool'', TStr),
      (''parameters_digest'', TDigest), (''purpose'', TStr), (''target_ref'', TStr),
      (''risk_class'', TStr), (''proposed_at'', TTimestamp)]
     [(''parameters'', TObject)]"

definition AuthorityDecisionBody :: model_spec where
  "AuthorityDecisionBody = body_model
     [(''action_id'', TStr),
      (''decision'', TLiteral [str ''grant'', str ''deny'', str ''review_required'']),
      (''policy_ref'', TStr), (''policy_version'', TStr), (''constraints'', TList TJson),
      (''decided_by'', TStr), (''decided_at'', TTimestamp)] []"

definition HumanReviewBody :: model_spec where
  "HumanReviewBody = body_model
     [(''action_id'', TStr), (''reviewer_identity'', TStr), (''reviewer_authority'', TObject),
      (''surface'', TObject), (''evidence_shown'', TDigest), (''evidence_shown_refs'', TList TStr),
      (''options_offered'', TList (TLiteral
         [str ''approve'', str ''deny'', str ''modify'', str ''escalate'', str ''stop'',
          str ''reverse'', str ''compensate''])),
      (''time_available_ms'', TNonNegative), (''time_taken_ms'', TNonNegative), (''decision'', TStr),
      (''modifications'', TJson),
      (''action_state_at_review'', TLiteral
         [str ''proposed'', str ''dispatched'', str ''accepted'', str ''committed'',
          str ''reversible'', str ''irreversible'']),
      (''decided_at'', TTimestamp)] []"

definition ExecutionReceiptBody :: model_spec where
  "ExecutionReceiptBody = body_model
     [(''action_id'', TStr), (''dispatch_attempt'', TPositive), (''connector_identity'', TStr),
      (''connector_version'', TStr), (''destination_response_digest'', TDigest),
      (''destination_record_ref'', TStr), (''status'', TStr), (''dispatched_at'', TTimestamp),
      (''responded_at'', TTimestamp)] []"

definition ExternalConfirmationBody :: model_spec where
  "ExternalConfirmationBody = body_model
     [(''action_id'', TStr), (''destination_system'', TStr), (''destination_record_id'', TStr),
      (''destination_record_digest'', TDigest), (''authoritative_timestamp'', TTimestamp),
      (''reconciliation_status'', TLiteral
         [str ''matched'', str ''unmatched_with_evidence'', str ''unmatched_without_evidence'',
          str ''duplicate'', str ''ambiguous'', str ''out_of_scope'']),
      (''retrieved_at'', TTimestamp)] []"

definition FinalityRecordBody :: model_spec where
  "FinalityRecordBody = body_model
     [(''action_id'', TStr), (''state'', TStr), (''reversible_until'', TOrNone TTimestamp),
      (''compensation_ref'', TOrNone TStr), (''settled_at'', TTimestamp)] []"

definition OutcomeRecordBody :: model_spec where
  "OutcomeRecordBody = body_model
     [(''action_id'', TStr), (''outcome_contract_ref'', TStr), (''authoritative_source'', TStr),
      (''result'', TJson), (''finalised_at'', TTimestamp), (''disputed'', TBool),
      (''reversal_ref'', TOrNone TStr)] []"

definition CoverageGapBody :: model_spec where
  "CoverageGapBody = body_model
     [(''gap_start'', TTimestamp), (''gap_end'', TTimestamp), (''affected_scope'', TObject),
      (''cause'', TLiteral
         [str ''collector_unreachable'', str ''fail_open'', str ''sequence_break'',
          str ''denominator_unavailable'', str ''clock_skew'', str ''key_discontinuity'']),
      (''detection_source'', TStr),
      (''exposure'', TLiteral [str ''known'', str ''estimated_bounds'', str ''unknown'']),
      (''actions_during_gap'', TOrNone TNonNegative)] []"

definition AttestationWindowBody :: model_spec where
  "AttestationWindowBody = body_model
     [(''boundary_ref'', TStr), (''window_start'', TTimestamp), (''window_end'', TTimestamp),
      (''methodology_version'', TStr), (''denominator_class'', TLiteral assurance_classes),
      (''population_record_refs'', TList TStr), (''coverage_level'', TStr),
      (''verification_status'', TLiteral [str ''self_computed'', str ''independently_reproduced'']),
      (''coverage_ratio'', TOrNone TStr), (''counts'', TObject), (''gaps'', TList TJson),
      (''assertions'', TList TJson), (''exclusions'', TList TJson),
      (''relying_parties'', TList TJson), (''validity_from'', TTimestamp),
      (''validity_until'', TTimestamp), (''liability_ref'', TStr), (''issued_at'', TTimestamp),
      (''issuer'', TJson), (''verifier_version'', TStr)] []"

definition RevocationRecordBody :: model_spec where
  "RevocationRecordBody = body_model
     [(''attestation_ref'', TStr), (''reason'', TStr), (''issuer'', TJson),
      (''effective_at'', TTimestamp), (''superseding_ref'', TOrNone TStr),
      (''relying_party_notification_status'', TStr)] []"

section \<open>The envelope\<close>

record clocks =
  source_time :: pystr
  authoritative_time :: "pystr option"

record 'b envelope =
  record_id :: pystr
  record_type :: pystr
  schema_version :: pystr
  tenant_id :: pystr
  boundary_ref :: pystr
  stream_id :: pystr
  sequence :: int
  prev_digest :: "pystr option"
  source :: pydict
  record_clocks :: clocks
  body :: 'b
  signature :: pydict

type_synonym evidence_record = "pydict envelope"

definition envelope_fields :: "string list" where
  "envelope_fields =
     [''record_id'', ''record_type'', ''schema_version'', ''tenant_id'', ''boundary_ref'',
      ''stream_id'', ''sequence'', ''prev_digest'', ''source'', ''clocks'', ''body'', ''signature'']"

definition record_models :: "(string \<times> model_spec) list" where
  "record_models =
     [(''AssuranceBoundary'', AssuranceBoundaryBody),
      (''QualificationRecord'', QualificationRecordBody),
      (''PopulationRecord'', PopulationRecordBody),
      (''AgentIdentity'', AgentIdentityBody),
      (''ActionProposal'', ActionProposalBody),
      (''AuthorityDecision'', AuthorityDecisionBody),
      (''HumanReview'', HumanReviewBody),
      (''ExecutionReceipt'', ExecutionReceiptBody),
      (''ExternalConfirmation'', ExternalConfirmationBody),
      (''FinalityRecord'', FinalityRecordBody),
      (''OutcomeRecord'', OutcomeRecordBody),
      (''CoverageGap'', CoverageGapBody),
      (''AttestationWindow'', AttestationWindowBody),
      (''RevocationRecord'', RevocationRecordBody)]"

definition body_spec :: "pystr \<Rightarrow> model_spec option" where
  "body_spec t = map_of (map (\<lambda>(n, m). (str n, m)) record_models) t"

definition body_ok :: "pystr \<Rightarrow> model_spec \<Rightarrow> pydict \<Rightarrow> bool" where
  "body_ok t m d \<longleftrightarrow>
     model_ok m d \<and> (t = str ''PopulationRecord'' \<longrightarrow> has_one_identifier_representation d)"

text \<open>\<^verbatim>\<open>RecordEnvelope\<close> and its subclass for a record type; \<open>clocks\<close> and \<open>body\<close> are models of their own.\<close>

definition RecordEnvelope :: "pystr \<Rightarrow> model_spec" where
  "RecordEnvelope t = closed_model
     [(''record_id'', TUuid7), (''record_type'', TLiteral [t]), (''schema_version'', TSemVer),
      (''tenant_id'', TStr), (''boundary_ref'', TStr), (''stream_id'', TStr),
      (''sequence'', TPositive), (''prev_digest'', TOrNone TDigest), (''source'', TObject),
      (''clocks'', TModel), (''body'', TModel), (''signature'', TObject)] []"

definition dict_of :: "pyval option \<Rightarrow> pydict" where
  "dict_of v = (case v of Some (PDict d) \<Rightarrow> d | _ \<Rightarrow> [])"

definition str_of :: "pyval option \<Rightarrow> pystr" where
  "str_of v = (case v of Some (PStr s) \<Rightarrow> s | _ \<Rightarrow> [])"

definition opt_str_of :: "pyval option \<Rightarrow> pystr option" where
  "opt_str_of v = (case v of Some (PStr s) \<Rightarrow> Some s | _ \<Rightarrow> None)"

definition int_of_val :: "pyval option \<Rightarrow> int" where
  "int_of_val v = (case v of Some (PInt i) \<Rightarrow> i | _ \<Rightarrow> 0)"

definition record_ok :: "pystr \<Rightarrow> model_spec \<Rightarrow> pydict \<Rightarrow> bool" where
  "record_ok t m d \<longleftrightarrow>
     model_ok (RecordEnvelope t) d
     \<and> model_ok ClocksModel (dict_of (member d ''clocks''))
     \<and> (case member d ''body'' of Some (PDict b) \<Rightarrow> body_ok t m b | _ \<Rightarrow> False)"

definition record_of :: "pydict \<Rightarrow> evidence_record" where
  "record_of d =
     \<lparr>record_id = str_of (member d ''record_id''),
      record_type = str_of (member d ''record_type''),
      schema_version = str_of (member d ''schema_version''),
      tenant_id = str_of (member d ''tenant_id''),
      boundary_ref = str_of (member d ''boundary_ref''),
      stream_id = str_of (member d ''stream_id''),
      sequence = int_of_val (member d ''sequence''),
      prev_digest = opt_str_of (member d ''prev_digest''),
      source = dict_of (member d ''source''),
      record_clocks =
        (let c = dict_of (member d ''clocks'')
         in \<lparr>source_time = str_of (member c ''source_time''),
             authoritative_time = opt_str_of (member c ''authoritative_time'')\<rparr>),
      body = dict_of (member d ''body''),
      signature = dict_of (member d ''signature'')\<rparr>"

datatype record_error =
    UnknownEnvelopeField
  | RecordTypeMissing
  | UnknownRecordType pystr
  | ModelInvalid
  | NotJson json_error
  | NotAnObject

definition validate_record :: "pydict \<Rightarrow> record_error + evidence_record" where
  "validate_record d =
     (if list_ex (\<lambda>kv. fst kv = KNonStr) d then Inl UnknownEnvelopeField
      else if list_ex (\<lambda>kv. fst kv \<notin> KStr ` str ` set envelope_fields) d then Inl UnknownEnvelopeField
      else case member d ''record_type'' of
             Some (PStr t) \<Rightarrow>
               (case body_spec t of
                  None \<Rightarrow> Inl (UnknownRecordType t)
                | Some m \<Rightarrow> if record_ok t m d then Inr (record_of d) else Inl ModelInvalid)
           | _ \<Rightarrow> Inl RecordTypeMissing)"

text \<open>\<open>parse_record\<close> on bytes; \<open>other\<close> decodes the encodings that \<^verbatim>\<open>json.loads\<close> detects besides UTF-8.\<close>

definition parse_record :: "(bytes \<Rightarrow> pystr option) \<Rightarrow> bytes \<Rightarrow> record_error + evidence_record" where
  "parse_record other raw =
     (case json_loads other raw of
        Inl e \<Rightarrow> Inl (NotJson e)
      | Inr (PDict d) \<Rightarrow> validate_record d
      | Inr _ \<Rightarrow> Inl NotAnObject)"

section \<open>Serialization\<close>

text \<open>\<^verbatim>\<open>record.model_dump(mode="json", exclude_unset=True)\<close>\<close>

definition clocks_members :: "clocks \<Rightarrow> pydict" where
  "clocks_members c =
     (KStr (str ''source_time''), PStr (source_time c)) #
     (case authoritative_time c of
        None \<Rightarrow> []
      | Some t \<Rightarrow> [(KStr (str ''authoritative_time''), PStr t)])"

definition opt_str :: "pystr option \<Rightarrow> pyval" where
  "opt_str v = (case v of None \<Rightarrow> PNone | Some s \<Rightarrow> PStr s)"

definition unsigned_mapping :: "evidence_record \<Rightarrow> pydict" where
  "unsigned_mapping r =
     [(KStr (str ''record_id''), PStr (record_id r)),
      (KStr (str ''record_type''), PStr (record_type r)),
      (KStr (str ''schema_version''), PStr (schema_version r)),
      (KStr (str ''tenant_id''), PStr (tenant_id r)),
      (KStr (str ''boundary_ref''), PStr (boundary_ref r)),
      (KStr (str ''stream_id''), PStr (stream_id r)),
      (KStr (str ''sequence''), PInt (sequence r)),
      (KStr (str ''prev_digest''), opt_str (prev_digest r)),
      (KStr (str ''source''), PDict (source r)),
      (KStr (str ''clocks''), PDict (clocks_members (record_clocks r))),
      (KStr (str ''body''), PDict (body r))]"

definition record_members :: "evidence_record \<Rightarrow> pydict" where
  "record_members r = unsigned_mapping r @ [(KStr (str ''signature''), PDict (signature r))]"

definition serialize_record :: "evidence_record \<Rightarrow> canon_error + bytes" where
  "serialize_record r = canonicalize (PDict (record_members r))"

definition record_digest :: "(bytes \<Rightarrow> bytes) \<Rightarrow> evidence_record \<Rightarrow> canon_error + pystr" where
  "record_digest sha r = canonical_digest sha (PDict (record_members r))"

section \<open>Validation keeps the canonical form\<close>

lemma no_surrogate_str [simp]: "list_all (\<lambda>c. \<not> is_surrogate c) (str s)"
proof -
  have "\<not> is_surrogate (of_char c)" for c :: char
    using nat_of_char_less_256 [of c] unfolding is_surrogate_def by linarith
  then show ?thesis by (simp add: list_all_iff str_def)
qed

text \<open>Dictionaries whose keys are among the names of a model's fields.\<close>

definition named_by :: "string set \<Rightarrow> pydict \<Rightarrow> bool" where
  "named_by N d \<longleftrightarrow> fst ` set d \<subseteq> KStr ` str ` N"

lemma named_by_inj: "wf_value (PDict d) \<Longrightarrow> named_by N d \<Longrightarrow> inj_on item_key (set d)"
  by (rule item_key_inj)
    (use no_surrogate_str in \<open>fastforce simp: named_by_def list_ex_iff list_all_iff key_text_def\<close>)+

lemma named_by_lookup: "named_by N d \<Longrightarrow> (\<And>n. n \<in> N \<Longrightarrow> k \<noteq> KStr (str n)) \<Longrightarrow> map_of d k = None"
  by (force simp: named_by_def map_of_eq_None_iff)

lemma norm_value_PDict_cong:
  assumes wf: "wf_value (PDict d)" and d: "named_by N d" and e: "named_by N e" "distinct (map fst e)"
    and same: "\<And>n. n \<in> N \<Longrightarrow> map_option norm_value (member d n) = map_option norm_value (member e n)"
  shows "norm_value (PDict d) = norm_value (PDict e)"
proof -
  let ?g = "\<lambda>kv. (fst kv, norm_value (snd kv))"
  have "map_option norm_value (map_of d k) = map_option norm_value (map_of e k)" for k
  proof (cases "\<exists>n \<in> N. k = KStr (str n)")
    case True
    then show ?thesis using same by (auto simp: member_def)
  next
    case False
    then have "map_of d k = None" "map_of e k = None"
      by (auto intro!: named_by_lookup [OF d] named_by_lookup [OF e(1)])
    then show ?thesis by simp
  qed
  then have "mset (map ?g d) = mset (map ?g e)"
    using wf e by (intro same_lookups_same_items) (auto simp: comp_def map_of_map_values)
  moreover have "inj_on item_key (set (map ?g d))"
    using named_by_inj [OF wf d] by (auto simp: inj_on_def)
  ultimately show ?thesis by (simp add: sort_key_unique)
qed

lemma name_eq_iff: "(KStr (str m) = KStr (str n)) = (m = n)"
  by simp

lemma member_Cons:
  "member ((KStr (str m), v) # d) n = (if n = m then Some v else member d n)"
  "member [] n = None"
  by (auto simp: member_def)

lemma member_append: "member (d @ e) n = (case member d n of None \<Rightarrow> member e n | Some v \<Rightarrow> Some v)"
  by (auto simp: member_def map_add_def split: option.splits)

lemma assert_json_value_member:
  "assert_json_value (PDict d) \<Longrightarrow> member d n = Some v \<Longrightarrow> assert_json_value v"
  by (auto simp: member_def list_all_iff dest!: map_of_SomeD)

text \<open>The named members of a model and their types.\<close>

lemma model_ok_required:
  assumes "model_ok m d" and "(n, t) \<in> set (ms_required m)"
  obtains v where "member d n = Some v" "conforms t v"
  using assms by (fastforce simp: model_ok_def list_all_iff split: option.splits)

definition string_type :: "field_type \<Rightarrow> bool" where
  "string_type t \<longleftrightarrow> t \<in> {TStr, TUuid7, TSemVer, TTimestamp, TDigest} \<or> (\<exists>ls. t = TLiteral ls)"

lemma string_type_simps [simp]:
  "string_type TStr" "string_type TUuid7" "string_type TSemVer" "string_type TTimestamp"
  "string_type TDigest" "string_type (TLiteral ls)"
  by (simp_all add: string_type_def)

lemma conforms_string: "string_type t \<Longrightarrow> conforms t v \<Longrightarrow> \<exists>s. v = PStr s"
  by (cases v) (auto simp: string_type_def)

lemma required_str:
  assumes "model_ok m d" "(n, t) \<in> set (ms_required m)" "string_type t"
  shows "member d n = Some (PStr (str_of (member d n)))"
proof -
  obtain v where "member d n = Some v" "conforms t v"
    using model_ok_required [OF assms(1,2)] .
  with conforms_string [OF assms(3)] show ?thesis by (fastforce simp: str_of_def)
qed

lemma required_opt_str:
  assumes "model_ok m d" "(n, TOrNone t) \<in> set (ms_required m)" "string_type t"
  shows "member d n = Some (opt_str (opt_str_of (member d n)))"
proof -
  obtain v where v: "member d n = Some v" "conforms (TOrNone t) v"
    using model_ok_required [OF assms(1,2)] .
  then have "v = PNone \<or> (\<exists>s. v = PStr s)"
    using conforms_string [OF assms(3)] by (cases v) auto
  with v(1) show ?thesis by (auto simp: opt_str_def opt_str_of_def)
qed

lemma required_int:
  assumes "model_ok m d" "(n, TPositive) \<in> set (ms_required m)"
  shows "member d n = Some (PInt (int_of_val (member d n)))"
proof -
  obtain v where "member d n = Some v" "conforms TPositive v"
    using model_ok_required [OF assms] .
  then show ?thesis by (cases v) (auto simp: int_of_val_def)
qed

lemma required_dict:
  assumes "model_ok m d" "(n, t) \<in> set (ms_required m)" "t \<in> {TObject, TModel}"
  shows "member d n = Some (PDict (dict_of (member d n)))"
proof -
  obtain v where "member d n = Some v" "conforms t v"
    using model_ok_required [OF assms(1,2)] .
  with assms(3) show ?thesis by (cases v) (auto simp: dict_of_def)
qed

lemma optional_str:
  assumes "model_ok m d" "(n, t) \<in> set (ms_presence_optional m)" "string_type t"
  shows "member d n = map_option PStr (opt_str_of (member d n))"
proof (cases "member d n")
  case (Some v)
  then have "conforms t v" using assms(1,2) by (fastforce simp: model_ok_def list_all_iff)
  then obtain s where "v = PStr s" using conforms_string [OF assms(3)] by blast
  with Some show ?thesis by (simp add: opt_str_of_def)
qed (simp add: opt_str_of_def)

lemma closed_model_keys:
  assumes "model_ok m d" "\<not> ms_extra_allowed m"
  shows "named_by (fst ` set (ms_required m @ ms_presence_optional m)) d"
  using assms by (auto simp: model_ok_def list_all_iff named_by_def)

lemma clocks_members_norm:
  assumes ok: "model_ok ClocksModel c" and wf: "wf_value (PDict c)"
  shows "norm_value (PDict c) = norm_value (PDict (clocks_members
     \<lparr>source_time = str_of (member c ''source_time''),
      authoritative_time = opt_str_of (member c ''authoritative_time'')\<rparr>))"
proof (rule norm_value_PDict_cong [OF wf])
  have s: "member c ''source_time'' = Some (PStr (str_of (member c ''source_time'')))"
    by (rule required_str [OF ok, of _ TTimestamp]) (simp_all add: ClocksModel_def closed_model_def)
  have a: "member c ''authoritative_time'' = map_option PStr (opt_str_of (member c ''authoritative_time''))"
    by (rule optional_str [OF ok, of _ TTimestamp]) (simp_all add: ClocksModel_def closed_model_def)
  show "named_by {''source_time'', ''authoritative_time''} c"
    using closed_model_keys [OF ok] by (simp add: ClocksModel_def closed_model_def)
  fix n assume "n \<in> {''source_time'', ''authoritative_time''}"
  then show "map_option norm_value (member c n) = map_option norm_value (member (clocks_members
     \<lparr>source_time = str_of (member c ''source_time''),
      authoritative_time = opt_str_of (member c ''authoritative_time'')\<rparr>) n)"
    by (elim insertE emptyE; simp only:)
      (subst s a; simp add: clocks_members_def member_Cons split: option.split)+
qed (auto simp: clocks_members_def named_by_def split: option.split)

lemma validate_record_Inr:
  assumes "validate_record d = Inr r"
  obtains t m where "member d ''record_type'' = Some (PStr t)" "body_spec t = Some m"
    "record_ok t m d" "r = record_of d" "named_by (set envelope_fields) d"
proof -
  have "named_by (set envelope_fields) d"
    using assms by (auto simp: validate_record_def named_by_def list_ex_iff split: if_splits)
  then show thesis
    using assms that by (auto simp: validate_record_def split: if_splits option.splits pyval.splits)
qed

lemma named_by_checks:
  assumes "named_by N d"
  shows "\<not> list_ex (\<lambda>kv. fst kv = KNonStr) d" "\<not> list_ex (\<lambda>kv. fst kv \<notin> KStr ` str ` N) d"
  using assms by (auto simp: named_by_def list_ex_iff)

lemma member_record_members:
  "member (record_members r) ''record_id'' = Some (PStr (record_id r))"
  "member (record_members r) ''record_type'' = Some (PStr (record_type r))"
  "member (record_members r) ''schema_version'' = Some (PStr (schema_version r))"
  "member (record_members r) ''tenant_id'' = Some (PStr (tenant_id r))"
  "member (record_members r) ''boundary_ref'' = Some (PStr (boundary_ref r))"
  "member (record_members r) ''stream_id'' = Some (PStr (stream_id r))"
  "member (record_members r) ''sequence'' = Some (PInt (sequence r))"
  "member (record_members r) ''prev_digest'' = Some (opt_str (prev_digest r))"
  "member (record_members r) ''source'' = Some (PDict (source r))"
  "member (record_members r) ''clocks'' = Some (PDict (clocks_members (record_clocks r)))"
  "member (record_members r) ''body'' = Some (PDict (body r))"
  "member (record_members r) ''signature'' = Some (PDict (signature r))"
  by (simp_all add: record_members_def unsigned_mapping_def member_Cons)

lemma record_members_keys:
  "map fst (record_members r) = map (\<lambda>n. KStr (str n)) envelope_fields"
  by (simp add: record_members_def unsigned_mapping_def envelope_fields_def)

lemma distinct_record_members: "distinct (map fst (record_members r))"
  by (simp add: record_members_keys) (simp add: envelope_fields_def)

lemma named_record_members: "named_by (set envelope_fields) (record_members r)"
  unfolding named_by_def set_map [symmetric] record_members_keys by (simp add: comp_def)

lemma record_ok_members:
  assumes "record_ok t m d"
  shows "member d ''record_id'' = Some (PStr (record_id (record_of d)))"
    "member d ''record_type'' = Some (PStr (record_type (record_of d)))"
    "member d ''schema_version'' = Some (PStr (schema_version (record_of d)))"
    "member d ''tenant_id'' = Some (PStr (tenant_id (record_of d)))"
    "member d ''boundary_ref'' = Some (PStr (boundary_ref (record_of d)))"
    "member d ''stream_id'' = Some (PStr (stream_id (record_of d)))"
    "member d ''sequence'' = Some (PInt (sequence (record_of d)))"
    "member d ''prev_digest'' = Some (opt_str (prev_digest (record_of d)))"
    "member d ''source'' = Some (PDict (source (record_of d)))"
    "member d ''clocks'' = Some (PDict (dict_of (member d ''clocks'')))"
    "member d ''body'' = Some (PDict (body (record_of d)))"
    "member d ''signature'' = Some (PDict (signature (record_of d)))"
proof -
  have ok: "model_ok (RecordEnvelope t) d" using assms by (simp add: record_ok_def)
  note intros = required_str [OF ok] required_opt_str [OF ok] required_int [OF ok] required_dict [OF ok]
  note spec = RecordEnvelope_def closed_model_def
  show "member d ''record_id'' = Some (PStr (record_id (record_of d)))"
    using required_str [OF ok, of "''record_id''" TUuid7] by (simp add: spec record_of_def)
  show "member d ''record_type'' = Some (PStr (record_type (record_of d)))"
    using required_str [OF ok, of "''record_type''" "TLiteral [t]"] by (simp add: spec record_of_def)
  show "member d ''schema_version'' = Some (PStr (schema_version (record_of d)))"
    using required_str [OF ok, of "''schema_version''" TSemVer] by (simp add: spec record_of_def)
  show "member d ''tenant_id'' = Some (PStr (tenant_id (record_of d)))"
    using required_str [OF ok, of "''tenant_id''" TStr] by (simp add: spec record_of_def)
  show "member d ''boundary_ref'' = Some (PStr (boundary_ref (record_of d)))"
    using required_str [OF ok, of "''boundary_ref''" TStr] by (simp add: spec record_of_def)
  show "member d ''stream_id'' = Some (PStr (stream_id (record_of d)))"
    using required_str [OF ok, of "''stream_id''" TStr] by (simp add: spec record_of_def)
  show "member d ''sequence'' = Some (PInt (sequence (record_of d)))"
    using required_int [OF ok, of "''sequence''"] by (simp add: spec record_of_def)
  show "member d ''prev_digest'' = Some (opt_str (prev_digest (record_of d)))"
    using required_opt_str [OF ok, of "''prev_digest''" TDigest] by (simp add: spec record_of_def)
  show "member d ''source'' = Some (PDict (source (record_of d)))"
    using required_dict [OF ok, of "''source''" TObject] by (simp add: spec record_of_def)
  show "member d ''clocks'' = Some (PDict (dict_of (member d ''clocks'')))"
    using required_dict [OF ok, of "''clocks''" TModel] by (simp add: spec)
  show "member d ''body'' = Some (PDict (body (record_of d)))"
    using required_dict [OF ok, of "''body''" TModel] by (simp add: spec record_of_def)
  show "member d ''signature'' = Some (PDict (signature (record_of d)))"
    using required_dict [OF ok, of "''signature''" TObject] by (simp add: spec record_of_def)
qed

lemma wf_value_member: "wf_value (PDict d) \<Longrightarrow> member d n = Some v \<Longrightarrow> wf_value v"
  by (fastforce simp: member_def list_all_iff dest: map_of_SomeD)

lemma record_members_norm:
  assumes v: "validate_record d = Inr r" and wf: "wf_value (PDict d)"
  shows "norm_value (PDict d) = norm_value (PDict (record_members r))"
proof -
  obtain t m where ok: "record_ok t m d" and r: "r = record_of d"
    and named: "named_by (set envelope_fields) d"
    using validate_record_Inr [OF v] by metis
  note d = record_ok_members [OF ok] and e = member_record_members [of "record_of d"]
  have "wf_value (PDict (dict_of (member d ''clocks'')))"
    using wf_value_member [OF wf d(10)] .
  moreover have "model_ok ClocksModel (dict_of (member d ''clocks''))"
    using ok by (simp add: record_ok_def)
  ultimately have clocks: "norm_value (PDict (dict_of (member d ''clocks'')))
      = norm_value (PDict (clocks_members (record_clocks (record_of d))))"
    using clocks_members_norm by (simp add: record_of_def Let_def)
  have "map_option norm_value (member d n) = map_option norm_value (member (record_members r) n)"
    if "n \<in> set envelope_fields" for n
    using that unfolding envelope_fields_def r list.set
    by (elim insertE emptyE; simp only: d(1-9,11,12) e)
      (subst d(10), simp only: clocks option.map)
  then show ?thesis
    by (rule norm_value_PDict_cong [OF wf named named_record_members distinct_record_members])
qed

text \<open>A validated object and the record made of it have the same canonical bytes.\<close>

lemma serialize_validated:
  assumes "validate_record d = Inr r" and "wf_value (PDict d)"
  shows "serialize_record r = canonicalize (PDict d)"
  using record_members_norm [OF assms] serialize_norm_value
  by (metis canonicalize_def serialize_record_def)

section \<open>Validation does not see member order\<close>

definition norm_dict :: "pydict \<Rightarrow> pydict" where
  "norm_dict d = sort_key item_key (map (\<lambda>kv. (fst kv, norm_value (snd kv))) d)"

lemma norm_value_PDict: "norm_value (PDict d) = PDict (norm_dict d)"
  by (simp add: norm_dict_def)

lemma norm_dict_keys: "fst ` set (norm_dict d) = fst ` set d"
  by (simp add: norm_dict_def image_image)

lemma member_norm_dict:
  assumes "wf_value (PDict d)"
  shows "member (norm_dict d) n = map_option norm_value (member d n)"
proof -
  let ?g = "\<lambda>kv. (fst kv, norm_value (snd kv))"
  have "mset (map fst (norm_dict d)) = mset (map fst d)"
    by (simp add: norm_dict_def multiset.map_comp comp_def)
  then have "distinct (map fst (norm_dict d))"
    using assms by (metis mset_eq_imp_distinct_iff wf_value.simps(3))
  moreover have "distinct (map fst (map ?g d))" using assms by (simp add: comp_def)
  moreover have "set (norm_dict d) = set (map ?g d)" by (simp add: norm_dict_def)
  ultimately have "map_of (norm_dict d) = map_of (map ?g d)"
    by (metis map_of_inject_set)
  then show ?thesis by (simp add: member_def map_of_map_values)
qed

lemma portable_norm: "portable (norm_value v) = portable v"
  by (simp only: serialize_ok_iff [symmetric] serialize_norm_value)

lemma assert_json_norm: "assert_json_value (norm_value v) = assert_json_value v"
  by (induction v rule: pyval_induct) (auto simp: list_all_iff)

lemma conforms_norm: "conforms t (norm_value v) = conforms t v"
proof (induction t arbitrary: v)
  case TJson
  show ?case by (simp add: portable_norm)
next
  case TObject
  show ?case using portable_norm [of v] by (cases v) simp_all
next
  case (TList t)
  show ?case by (cases v) (simp_all add: list_all_iff TList)
next
  case (TOrNone t)
  show ?case using TOrNone [of v] by (cases v) simp_all
qed (case_tac [!] v, simp_all)

lemma model_ok_norm:
  assumes wf: "wf_value (PDict d)"
  shows "model_ok m (norm_dict d) = model_ok m d"
proof -
  have 1: "assert_json_value (PDict (norm_dict d)) = assert_json_value (PDict d)"
    using assert_json_norm [of "PDict d"] by (simp only: norm_value_PDict)
  have none: "norm_value v = PNone \<longleftrightarrow> v = PNone" for v by (cases v) simp_all
  have 2: "(member (norm_dict d) n = Some PNone) = (member d n = Some PNone)" for n
    by (cases "member d n") (simp_all add: member_norm_dict [OF wf] none)
  have 3: "(case member (norm_dict d) n of None \<Rightarrow> b | Some v \<Rightarrow> conforms t v)
      = (case member d n of None \<Rightarrow> b | Some v \<Rightarrow> conforms t v)" for n t b
    by (cases "member d n") (simp_all add: member_norm_dict [OF wf] conforms_norm)
  have 4: "list_all (\<lambda>kv. fst kv \<in> N) (norm_dict d) = list_all (\<lambda>kv. fst kv \<in> N) d" for N
    using norm_dict_keys [of d] by (auto simp: list_all_iff) (metis fst_conv image_eqI image_iff)+
  show ?thesis unfolding model_ok_def 1 2 3 4 ..
qed

lemma validate_record_norm:
  assumes v: "validate_record d = Inr r" and wf: "wf_value (PDict d)"
  shows "\<exists>r'. validate_record (norm_dict d) = Inr r'"
proof -
  obtain t m where type: "member d ''record_type'' = Some (PStr t)" and spec: "body_spec t = Some m"
    and ok: "record_ok t m d" and named: "named_by (set envelope_fields) d"
    using validate_record_Inr [OF v] by metis
  note d = record_ok_members [OF ok]
  have dict: "dict_of (member (norm_dict d) n) = norm_dict (dict_of (member d n))"
    if "member d n = Some (PDict e)" for n e
    using that by (simp add: member_norm_dict [OF wf] dict_of_def norm_value_PDict del: norm_value.simps)
  have body: "member (norm_dict d) ''body'' = Some (PDict (norm_dict (body (record_of d))))"
    by (simp add: member_norm_dict [OF wf] d(11) norm_value_PDict del: norm_value.simps)
  have wfb: "wf_value (PDict (body (record_of d)))" using wf_value_member [OF wf d(11)] .
  have "has_one_identifier_representation (norm_dict (body (record_of d)))
      = has_one_identifier_representation (body (record_of d))"
    by (simp add: has_one_identifier_representation_def member_norm_dict [OF wfb])
  moreover have "model_ok ClocksModel (norm_dict (dict_of (member d ''clocks'')))"
    using ok wf_value_member [OF wf d(10)] by (simp add: model_ok_norm record_ok_def)
  ultimately have "record_ok t m (norm_dict d)"
    using ok wf wfb d(11)
    by (simp add: record_ok_def body_ok_def body dict [OF d(10)] model_ok_norm)
  moreover have "named_by (set envelope_fields) (norm_dict d)"
    using named by (simp add: named_by_def norm_dict_keys)
  note named_by_checks [OF this]
  ultimately show ?thesis
    using type spec by (simp add: validate_record_def member_norm_dict [OF wf])
qed

lemma wf_value_norm: "wf_value v \<Longrightarrow> wf_value (norm_value v)"
proof (induction v rule: pyval_induct)
  case (PDict d)
  have "mset (map fst (norm_dict d)) = mset (map fst d)"
    by (simp add: norm_dict_def multiset.map_comp comp_def)
  then have "distinct (map fst (norm_dict d))"
    using PDict.prems by (metis mset_eq_imp_distinct_iff wf_value.simps(3))
  moreover have "wf_str (key_text (fst kv)) \<and> wf_value (snd kv)" if "kv \<in> set (norm_dict d)" for kv
    using that PDict by (auto simp: norm_dict_def list_all_iff)
  ultimately show ?case by (simp add: norm_value_PDict list_all_iff del: norm_value.simps)
qed (simp_all add: list_all_iff)

section \<open>Properties\<close>

text \<open>
  C33: validation and the wire agree: the canonical bytes of an object that validates parse to a
  record, and that record serializes to the same bytes, so nothing a record says is lost, added or
  respelled between the object, the record and the wire, whatever order the object's members had.
\<close>

theorem parse_record_canonical:
  assumes "validate_record d = Inr r" and "wf_value (PDict d)"
    and "canonicalize (PDict d) = Inr b"
  shows "serialize_record r = Inr b
    \<and> (\<exists>r'. parse_record other b = Inr r' \<and> serialize_record r' = Inr b)"
proof -
  obtain r' where r': "validate_record (norm_dict d) = Inr r'"
    using validate_record_norm [OF assms(1,2)] by blast
  have "json_loads other b = Inr (PDict (norm_dict d))"
    using json_loads_canonical [OF assms(3,2)] by (simp only: norm_value_PDict)
  with r' have "parse_record other b = Inr r'" by (simp add: parse_record_def)
  moreover have "wf_value (PDict (norm_dict d))"
    using wf_value_norm [OF assms(2)] by (simp only: norm_value_PDict)
  then have "serialize_record r' = canonicalize (PDict (norm_dict d))"
    by (rule serialize_validated [OF r'])
  moreover have "canonicalize (PDict (norm_dict d)) = canonicalize (PDict d)"
    using serialize_norm_value [of "PDict d"] by (simp only: canonicalize_def norm_value_PDict)
  ultimately show ?thesis using serialize_validated [OF assms(1,2)] assms(3) by simp
qed

text \<open>A record of the smallest body, with its members out of order.\<close>

definition sample_revocation :: pydict where
  "sample_revocation =
     [(KStr (str ''record_type''), PStr (str ''RevocationRecord'')),
      (KStr (str ''record_id''), PStr (str ''01890a5d-ac96-774b-bcce-b302099a8057'')),
      (KStr (str ''schema_version''), PStr (str ''1.0.0'')),
      (KStr (str ''tenant_id''), PStr (str ''t'')),
      (KStr (str ''boundary_ref''), PStr (str ''b'')),
      (KStr (str ''stream_id''), PStr (str ''s'')),
      (KStr (str ''sequence''), PInt 1),
      (KStr (str ''prev_digest''), PNone),
      (KStr (str ''source''), PDict []),
      (KStr (str ''signature''), PDict []),
      (KStr (str ''clocks''), PDict [(KStr (str ''source_time''), PStr (str ''2026-01-01T00:00:00.000Z''))]),
      (KStr (str ''body''), PDict
         [(KStr (str ''attestation_ref''), PStr (str ''a'')),
          (KStr (str ''reason''), PStr (str ''r'')),
          (KStr (str ''issuer''), PNone),
          (KStr (str ''effective_at''), PStr (str ''2026-01-01T00:00:00.000Z'')),
          (KStr (str ''superseding_ref''), PNone),
          (KStr (str ''relying_party_notification_status''), PStr (str ''n''))])]"

lemma sample_revocation_facts:
  "validate_record sample_revocation = Inr (record_of sample_revocation)"
  "wf_value (PDict sample_revocation)" "portable (PDict sample_revocation)"
  by code_simp+

theorem parse_record_canonical_witness:
  "\<exists>b r. canonicalize (PDict sample_revocation) = Inr b \<and> parse_record (\<lambda>_. None) b = Inr r
     \<and> serialize_record r = Inr b"
proof -
  obtain s where "serialize (PDict sample_revocation) = Inr s"
    using sample_revocation_facts(3) by (simp only: serialize_ok_iff [symmetric]) blast
  then have "canonicalize (PDict sample_revocation) = Inr (utf8 s)" by (simp add: canonicalize_def)
  then show ?thesis
    using parse_record_canonical [OF sample_revocation_facts(1,2), of "utf8 s" "\<lambda>_. None"] by blast
qed

end
