(* ===== verification/Signing.thy ===== *)
theory Signing
  imports Records
begin

text \<open>
  \<^verbatim>\<open>sdk_python/evidence/signing.py\<close>: the primary Ed25519 signature of a record, the issuer's
  counter-signature of an attestation, and the checks of the signature object.  SHA-256 and
  Ed25519 are the fields of a \<open>crypto\<close> record, a parameter of every definition;
  \<open>crypto_ok\<close> is what their documentation promises.
\<close>

section \<open>Cryptography\<close>

record ('sk, 'pk) crypto =
  sha256 :: "bytes \<Rightarrow> bytes"
  ed_sign :: "'sk \<Rightarrow> bytes \<Rightarrow> bytes"
  ed_verify :: "'pk \<Rightarrow> bytes \<Rightarrow> bytes \<Rightarrow> bool"
  ed_public :: "'sk \<Rightarrow> 'pk"
  ed_raw :: "'pk \<Rightarrow> bytes"

definition byte_string :: "bytes \<Rightarrow> bool" where
  "byte_string bs \<longleftrightarrow> list_all (\<lambda>b. b < 256) bs"

definition crypto_ok :: "('sk, 'pk) crypto \<Rightarrow> bool" where
  "crypto_ok c \<longleftrightarrow>
     (\<forall>m. length (sha256 c m) = 32 \<and> byte_string (sha256 c m))
     \<and> (\<forall>k m. length (ed_sign c k m) = 64 \<and> byte_string (ed_sign c k m)
              \<and> ed_verify c (ed_public c k) (ed_sign c k m) m)
     \<and> (\<forall>p. length (ed_raw c p) = 32 \<and> byte_string (ed_raw c p))"

section \<open>Base64url and hex\<close>

definition b64_char :: "nat \<Rightarrow> nat" where
  "b64_char v = (if v < 26 then 65 + v else if v < 52 then 71 + v else if v < 62 then v - 4
     else if v = 62 then 45 else 95)"

definition b64_value :: "nat \<Rightarrow> nat option" where
  "b64_value c =
     (if 65 \<le> c \<and> c \<le> 90 then Some (c - 65) else if 97 \<le> c \<and> c \<le> 122 then Some (c - 71)
      else if 48 \<le> c \<and> c \<le> 57 then Some (c + 4) else if c = 45 then Some 62
      else if c = 95 then Some 63 else None)"

text \<open>\<^verbatim>\<open>urlsafe_b64encode\<close> without its padding.\<close>

fun encode_base64url :: "bytes \<Rightarrow> pystr" where
  "encode_base64url [] = []"
| "encode_base64url [a] = [b64_char (a div 4), b64_char (a mod 4 * 16)]"
| "encode_base64url [a, b] =
     [b64_char (a div 4), b64_char (a mod 4 * 16 + b div 16), b64_char (b mod 16 * 4)]"
| "encode_base64url (a # b # c # r) =
     [b64_char (a div 4), b64_char (a mod 4 * 16 + b div 16), b64_char (b mod 16 * 4 + c div 64),
      b64_char (c mod 64)] @ encode_base64url r"

text \<open>
  \<^verbatim>\<open>b64decode\<close> of the padded text: a single left-over symbol is an error, and the unused low bits of
  a last group are dropped.
\<close>

fun b64_bytes :: "nat list \<Rightarrow> bytes option" where
  "b64_bytes [] = Some []"
| "b64_bytes [a] = None"
| "b64_bytes [a, b] = Some [a * 4 + b div 16]"
| "b64_bytes [a, b, c] = Some [a * 4 + b div 16, b mod 16 * 16 + c div 4]"
| "b64_bytes (a # b # c # d # r) =
     map_option (\<lambda>bs. [a * 4 + b div 16, b mod 16 * 16 + c div 4, c mod 4 * 64 + d] @ bs) (b64_bytes r)"

definition decode_base64url :: "pyval option \<Rightarrow> nat \<Rightarrow> bytes option" where
  "decode_base64url v n =
     (case v of
        Some (PStr s) \<Rightarrow>
          if s = [] \<or> list_ex (\<lambda>c. b64_value c = None) s then None
          else case b64_bytes (map (\<lambda>c. the (b64_value c)) s) of
                 None \<Rightarrow> None
               | Some bs \<Rightarrow> if length bs = n then Some bs else None
      | _ \<Rightarrow> None)"

text \<open>\<^verbatim>\<open>bytes.fromhex\<close> skips ASCII white space between bytes.\<close>

definition ascii_space :: "nat \<Rightarrow> bool" where
  "ascii_space c \<longleftrightarrow> c = 32 \<or> 9 \<le> c \<and> c \<le> 13"

fun from_hex :: "pystr \<Rightarrow> bytes option" where
  "from_hex [] = Some []"
| "from_hex [c] = (if ascii_space c then Some [] else None)"
| "from_hex (c # d # r) =
     (if ascii_space c then from_hex (d # r)
      else case (hex_value c, hex_value d) of
             (Some h, Some l) \<Rightarrow> map_option (\<lambda>bs. (h * 16 + l) # bs) (from_hex r)
           | _ \<Rightarrow> None)"

datatype sig_error =
    SignatureError
  | UnsupportedAlgorithmError
  | UnknownKeyError pystr
  | InvalidSignatureError
  | CompareTypeError
  | RecordNotCanonical canon_error

definition digest_bytes :: "pystr \<Rightarrow> sig_error + bytes" where
  "digest_bytes d =
     (if take 7 d \<noteq> str ''sha256:'' then Inl SignatureError
      else let e = drop 7 d
           in if length e \<noteq> 64 \<or> list_ex (\<lambda>c. 65 \<le> c \<and> c \<le> 90) e then Inl SignatureError
              else case from_hex e of None \<Rightarrow> Inl SignatureError | Some bs \<Rightarrow> Inr bs)"

section \<open>The signature object\<close>

definition ALGORITHM :: pystr where
  "ALGORITHM = str ''ed25519''"

definition customer_signature_fields :: "string list" where
  "customer_signature_fields = [''alg'', ''key_id'', ''sig'', ''signed_digest'']"

definition continuity_fields :: "string list" where
  "continuity_fields =
     [''alg'', ''predecessor_key_id'', ''new_key_id'', ''new_public_key'', ''tenant_id'',
      ''stream_id'', ''sig'']"

definition required_text :: "pyval option \<Rightarrow> sig_error + pystr" where
  "required_text v = (case v of Some (PStr s) \<Rightarrow> if s = [] then Inl SignatureError else Inr s
                              | _ \<Rightarrow> Inl SignatureError)"

definition algorithm :: "pydict \<Rightarrow> sig_error + unit" where
  "algorithm sg = require (member sg ''alg'' = Some (PStr ALGORITHM)) UnsupportedAlgorithmError"

definition closed_members :: "pydict \<Rightarrow> string list \<Rightarrow> string list \<Rightarrow> sig_error + unit" where
  "closed_members d required allowed =
     (if list_ex (\<lambda>n. member d n = None) required then Inl SignatureError
      else if list_ex (\<lambda>kv. fst kv \<notin> KStr ` str ` set allowed) d then Inl SignatureError
      else Inr ())"

definition of_option :: "'e \<Rightarrow> 'a option \<Rightarrow> 'e + 'a" where
  "of_option e v = (case v of None \<Rightarrow> Inl e | Some x \<Rightarrow> Inr x)"

definition validate_continuity_members ::
    "evidence_record \<Rightarrow> pydict \<Rightarrow> pyval option \<Rightarrow> sig_error + unit" where
  "validate_continuity_members r sg v =
     (case v of
        Some (PDict k) \<Rightarrow>
          rbind (closed_members k continuity_fields continuity_fields) (\<lambda>_.
          rbind (algorithm k) (\<lambda>_.
          rbind (require (member k ''new_key_id'' = member sg ''key_id'') SignatureError) (\<lambda>_.
          rbind (require (member k ''tenant_id'' = Some (PStr (tenant_id r))) SignatureError) (\<lambda>_.
          rbind (require (member k ''stream_id'' = Some (PStr (stream_id r))) SignatureError) (\<lambda>_.
          rbind (required_text (member k ''predecessor_key_id'')) (\<lambda>_.
          rbind (required_text (member k ''new_key_id'')) (\<lambda>_.
          rbind (required_text (member k ''tenant_id'')) (\<lambda>_.
          rbind (required_text (member k ''stream_id'')) (\<lambda>_.
          rbind (of_option SignatureError (decode_base64url (member k ''new_public_key'') 32)) (\<lambda>_.
          rbind (of_option SignatureError (decode_base64url (member k ''sig'') 64)) (\<lambda>_.
          Inr ())))))))))))
      | _ \<Rightarrow> Inl SignatureError)"

definition validate_signature_members :: "evidence_record \<Rightarrow> pydict \<Rightarrow> sig_error + unit" where
  "validate_signature_members r sg =
     (let allowed = customer_signature_fields @ [''key_continuity'']
            @ (if record_type r = str ''AttestationWindow'' then [''issuer''] else [])
      in rbind (closed_members sg customer_signature_fields allowed) (\<lambda>_.
         rbind (if member sg ''key_continuity'' = None then Inr ()
                else validate_continuity_members r sg (member sg ''key_continuity'')) (\<lambda>_.
         case member sg ''issuer'' of
           None \<Rightarrow> Inr ()
         | Some (PDict i) \<Rightarrow> closed_members i customer_signature_fields customer_signature_fields
         | Some _ \<Rightarrow> Inl SignatureError)))"

section \<open>Primary signatures\<close>

definition record_signing_bytes :: "evidence_record \<Rightarrow> sig_error + bytes" where
  "record_signing_bytes r =
     (case canonicalize (PDict (unsigned_mapping r)) of
        Inl e \<Rightarrow> Inl (RecordNotCanonical e) | Inr b \<Rightarrow> Inr b)"

definition signing_digest :: "('sk, 'pk) crypto \<Rightarrow> evidence_record \<Rightarrow> sig_error + pystr" where
  "signing_digest c r = rbind (record_signing_bytes r) (\<lambda>b. Inr (digest_text (sha256 c) b))"

definition record_signature_bytes :: "evidence_record \<Rightarrow> sig_error + bytes" where
  "record_signature_bytes r =
     rbind (validate_signature_members r (signature r)) (\<lambda>_.
     of_option SignatureError (decode_base64url (member (signature r) ''sig'') 64))"

definition signature_object :: "pystr \<Rightarrow> bytes \<Rightarrow> pystr \<Rightarrow> pydict" where
  "signature_object key_id proof digest =
     [(KStr (str ''alg''), PStr ALGORITHM), (KStr (str ''key_id''), PStr key_id),
      (KStr (str ''sig''), PStr (encode_base64url proof)),
      (KStr (str ''signed_digest''), PStr digest)]"

definition sign_record ::
    "('sk, 'pk) crypto \<Rightarrow> evidence_record \<Rightarrow> pystr \<Rightarrow> 'sk \<Rightarrow> pydict option \<Rightarrow> sig_error + evidence_record"
where
  "sign_record c r key_id private_key key_continuity =
     (if signature r \<noteq> [] then Inl SignatureError
      else rbind (required_text (Some (PStr key_id))) (\<lambda>key_id.
           rbind (signing_digest c r) (\<lambda>digest.
           rbind (digest_bytes digest) (\<lambda>raw.
             let sg = signature_object key_id (ed_sign c private_key raw) digest
                      @ (case key_continuity of
                           None \<Rightarrow> []
                         | Some k \<Rightarrow> [(KStr (str ''key_continuity''), PDict k)])
             in rbind (validate_signature_members r sg) (\<lambda>_. Inr (r\<lparr>signature := sg\<rparr>))))))"

text \<open>\<^verbatim>\<open>hmac.compare_digest\<close> on strings raises \<^verbatim>\<open>TypeError\<close> unless both are ASCII.\<close>

definition compare_digest :: "pystr \<Rightarrow> pystr \<Rightarrow> sig_error + bool" where
  "compare_digest a b =
     (if list_all (\<lambda>c. c < 128) a \<and> list_all (\<lambda>c. c < 128) b then Inr (a = b)
      else Inl CompareTypeError)"

type_synonym 'pk keyring = "(pystr \<times> 'pk) list"

text \<open>The checks a proof object passes, primary and counter-signature alike.\<close>

definition verify_record_signature_bytes ::
    "('sk, 'pk) crypto \<Rightarrow> evidence_record \<Rightarrow> bytes \<Rightarrow> 'pk keyring \<Rightarrow> sig_error + pystr" where
  "verify_record_signature_bytes c r signing_bytes public_keys =
     rbind (record_signing_bytes r) (\<lambda>expected.
     if signing_bytes \<noteq> expected then Inl InvalidSignatureError
     else let sg = signature r in
     rbind (validate_signature_members r sg) (\<lambda>_.
     rbind (algorithm sg) (\<lambda>_.
     rbind (required_text (member sg ''key_id'')) (\<lambda>key_id.
     rbind (of_option (UnknownKeyError key_id) (map_of public_keys key_id)) (\<lambda>public_key.
     rbind (required_text (member sg ''signed_digest'')) (\<lambda>claimed.
     let actual = digest_text (sha256 c) signing_bytes in
     rbind (compare_digest claimed actual) (\<lambda>same.
     if \<not> same then Inl InvalidSignatureError
     else
     rbind (of_option SignatureError (decode_base64url (member sg ''sig'') 64)) (\<lambda>proof.
     rbind (digest_bytes actual) (\<lambda>raw.
     if ed_verify c public_key proof raw then Inr key_id else Inl InvalidSignatureError)))))))))"

definition verify_record_signature ::
    "('sk, 'pk) crypto \<Rightarrow> evidence_record \<Rightarrow> 'pk keyring \<Rightarrow> sig_error + pystr" where
  "verify_record_signature c r public_keys =
     rbind (record_signing_bytes r) (\<lambda>b. verify_record_signature_bytes c r b public_keys)"

section \<open>Counter-signatures\<close>

definition without :: "string \<Rightarrow> pydict \<Rightarrow> pydict" where
  "without n d = filter (\<lambda>kv. fst kv \<noteq> KStr (str n)) d"

definition counter_signing_mapping :: "evidence_record \<Rightarrow> pydict" where
  "counter_signing_mapping r = record_members (r\<lparr>signature := without ''issuer'' (signature r)\<rparr>)"

definition counter_signing_digest :: "('sk, 'pk) crypto \<Rightarrow> evidence_record \<Rightarrow> sig_error + pystr" where
  "counter_signing_digest c r =
     (case canonical_digest (sha256 c) (PDict (counter_signing_mapping r)) of
        Inl e \<Rightarrow> Inl (RecordNotCanonical e) | Inr d \<Rightarrow> Inr d)"

definition counter_sign_attestation ::
    "('sk, 'pk) crypto \<Rightarrow> evidence_record \<Rightarrow> pystr \<Rightarrow> 'sk \<Rightarrow> sig_error + evidence_record" where
  "counter_sign_attestation c r issuer_key_id issuer_private_key =
     (let sg = signature r in
      if list_ex (\<lambda>n. member sg n = None) customer_signature_fields then Inl SignatureError
      else rbind (validate_signature_members r sg) (\<lambda>_.
           if member sg ''issuer'' \<noteq> None then Inl SignatureError
           else rbind (required_text (Some (PStr issuer_key_id))) (\<lambda>key_id.
                rbind (counter_signing_digest c r) (\<lambda>digest.
                rbind (digest_bytes digest) (\<lambda>raw.
                  let sg' = sg @ [(KStr (str ''issuer''),
                        PDict (signature_object key_id (ed_sign c issuer_private_key raw) digest))]
                  in rbind (validate_signature_members r sg') (\<lambda>_. Inr (r\<lparr>signature := sg'\<rparr>)))))))"

definition verify_attestation_counter_signature ::
    "('sk, 'pk) crypto \<Rightarrow> evidence_record \<Rightarrow> 'pk keyring \<Rightarrow> sig_error + pystr" where
  "verify_attestation_counter_signature c r issuer_public_keys =
     (let sg = signature r in
      rbind (validate_signature_members r sg) (\<lambda>_.
      case member sg ''issuer'' of
        Some (PDict issuer) \<Rightarrow>
          rbind (algorithm issuer) (\<lambda>_.
          rbind (required_text (member issuer ''key_id'')) (\<lambda>key_id.
          rbind (of_option (UnknownKeyError key_id) (map_of issuer_public_keys key_id)) (\<lambda>public_key.
          rbind (required_text (member issuer ''signed_digest'')) (\<lambda>claimed.
          rbind (counter_signing_digest c r) (\<lambda>actual.
          rbind (compare_digest claimed actual) (\<lambda>same.
          if \<not> same then Inl InvalidSignatureError
          else
          rbind (of_option SignatureError (decode_base64url (member issuer ''sig'') 64)) (\<lambda>proof.
          rbind (digest_bytes actual) (\<lambda>raw.
          if ed_verify c public_key proof raw then Inr key_id else Inl InvalidSignatureError))))))))
      | _ \<Rightarrow> Inl InvalidSignatureError))"

definition verify_attestation_signatures ::
    "('sk, 'pk) crypto \<Rightarrow> evidence_record \<Rightarrow> 'pk keyring \<Rightarrow> 'pk keyring \<Rightarrow> sig_error + pystr \<times> pystr" where
  "verify_attestation_signatures c r evidence_public_keys issuer_public_keys =
     rbind (verify_record_signature c r evidence_public_keys) (\<lambda>evidence_key_id.
     rbind (verify_attestation_counter_signature c r issuer_public_keys) (\<lambda>issuer_key_id.
     Inr (evidence_key_id, issuer_key_id)))"

section \<open>Encodings invert\<close>

lemma b64_value_char: "v < 64 \<Longrightarrow> b64_value (b64_char v) = Some v"
  by (auto simp: b64_value_def b64_char_def)

lemma b64_value_less: "b64_value c = Some v \<Longrightarrow> v < 64"
  by (auto simp: b64_value_def split: if_splits)

lemma b64_char_value: "b64_value c = Some v \<Longrightarrow> b64_char v = c"
  by (auto simp: b64_value_def b64_char_def split: if_splits)

text \<open>The symbols of an encoding as numbers below 64.\<close>

fun b64_values :: "bytes \<Rightarrow> nat list" where
  "b64_values [] = []"
| "b64_values [a] = [a div 4, a mod 4 * 16]"
| "b64_values [a, b] = [a div 4, a mod 4 * 16 + b div 16, b mod 16 * 4]"
| "b64_values (a # b # c # r) =
     [a div 4, a mod 4 * 16 + b div 16, b mod 16 * 4 + c div 64, c mod 64] @ b64_values r"

lemma encode_base64url_values: "encode_base64url bs = map b64_char (b64_values bs)"
  by (induction bs rule: b64_values.induct) auto

lemma b64_values_less: "byte_string bs \<Longrightarrow> v \<in> set (b64_values bs) \<Longrightarrow> v < 64"
  by (induction bs rule: b64_values.induct) (auto simp: byte_string_def)

lemma b64_bytes_values: "byte_string bs \<Longrightarrow> b64_bytes (b64_values bs) = Some bs"
  by (induction bs rule: b64_values.induct) (auto simp: byte_string_def)

lemma decode_encode_base64url:
  assumes "byte_string bs" "bs \<noteq> []"
  shows "decode_base64url (Some (PStr (encode_base64url bs))) n = (if length bs = n then Some bs else None)"
proof -
  have vals: "map (\<lambda>c. the (b64_value c)) (encode_base64url bs) = b64_values bs"
    using b64_values_less [OF assms(1)]
    by (simp add: encode_base64url_values map_idI b64_value_char)
  have "\<not> list_ex (\<lambda>c. b64_value c = None) (encode_base64url bs)"
    using b64_values_less [OF assms(1)] by (auto simp: encode_base64url_values list_ex_iff b64_value_char)
  moreover have "encode_base64url bs \<noteq> []"
    using assms(2) by (cases bs rule: b64_values.cases) auto
  ultimately show ?thesis
    using b64_bytes_values [OF assms(1)] by (simp add: decode_base64url_def vals)
qed

lemma b64_bytes_length:
  "b64_bytes vs = Some bs \<Longrightarrow> length bs = length vs * 3 div 4 \<and> length vs mod 4 \<noteq> 1"
  by (induction vs arbitrary: bs rule: b64_bytes.induct) auto

lemma hex_value_digit_mod: "hex_value (hex_digit (b mod 16)) = Some (b mod 16)"
  by (rule hex_value_digit) simp

lemma hex_digit_not_space: "d < 16 \<Longrightarrow> \<not> ascii_space (hex_digit d)"
  by (auto simp: ascii_space_def hex_digit_def)

lemma from_hex_hexdigest: "byte_string bs \<Longrightarrow> from_hex (hexdigest bs) = Some bs"
proof (induction bs)
  case (Cons b bs)
  then have "b < 256" by (simp add: byte_string_def)
  then have "b div 16 < 16" by linarith
  then show ?case
    using Cons by (simp add: hexdigest_def hex_value_digit hex_digit_not_space byte_string_def)
qed (simp add: hexdigest_def)

lemma hexdigest_length: "length (hexdigest bs) = 2 * length bs"
  by (induction bs) (simp_all add: hexdigest_def)

lemma hexdigest_chars: "byte_string bs \<Longrightarrow> c \<in> set (hexdigest bs) \<Longrightarrow> is_lower_hex c"
proof -
  assume "byte_string bs" "c \<in> set (hexdigest bs)"
  then obtain b where b: "b < 256" "c = hex_digit (b div 16) \<or> c = hex_digit (b mod 16)"
    by (auto simp: hexdigest_def byte_string_def list_all_iff)
  have "is_lower_hex (hex_digit d)" if "d < 16" for d
    using that by (auto simp: is_lower_hex_def hex_digit_def)
  moreover have "b div 16 < 16" "b mod 16 < 16" using b(1) by linarith+
  ultimately show ?thesis using b(2) by blast
qed

lemma take_digest_text [simp]: "take 7 (digest_text sha b) = str ''sha256:''"
  "drop 7 (digest_text sha b) = hexdigest (sha b)"
  by (simp_all add: digest_text_def str_def)

lemma digest_bytes_digest_text:
  assumes "length (sha b) = 32" "byte_string (sha b)"
  shows "digest_bytes (digest_text sha b) = Inr (sha b)"
proof -
  have "\<not> list_ex (\<lambda>c. 65 \<le> c \<and> c \<le> 90) (hexdigest (sha b))"
    using hexdigest_chars [OF assms(2)] by (force simp: list_ex_iff is_lower_hex_def)
  then show ?thesis
    using assms by (simp add: digest_bytes_def hexdigest_length from_hex_hexdigest)
qed

lemma digest_text_ascii:
  assumes "byte_string (sha b)"
  shows "list_all (\<lambda>c. c < 128) (digest_text sha b)"
proof -
  have "list_all (\<lambda>c. c < 128) (str ''sha256:'')" by (simp add: str_def)
  moreover have "list_all (\<lambda>c. c < 128) (hexdigest (sha b))"
    using hexdigest_chars [OF assms] by (force simp: list_all_iff is_lower_hex_def)
  ultimately show ?thesis by (simp add: digest_text_def)
qed

lemma digest_text_inj:
  assumes "digest_text sha a = digest_text sha b" "byte_string (sha a)" "byte_string (sha b)"
  shows "sha a = sha b"
  using assms from_hex_hexdigest by (metis append_eq_append_conv digest_text_def option.inject)

lemma crypto_okD:
  assumes "crypto_ok c"
  shows "length (sha256 c m) = 32" "byte_string (sha256 c m)" "length (ed_sign c k m) = 64"
    "byte_string (ed_sign c k m)" "ed_verify c (ed_public c k) (ed_sign c k m) m"
    "length (ed_raw c p) = 32" "byte_string (ed_raw c p)"
  using assms by (simp_all add: crypto_ok_def)

section \<open>What the signature covers\<close>

lemma unsigned_signature [simp]: "unsigned_mapping (r\<lparr>signature := sg\<rparr>) = unsigned_mapping r"
  by (simp add: unsigned_mapping_def)

lemma record_signing_bytes_signature [simp]:
  "record_signing_bytes (r\<lparr>signature := sg\<rparr>) = record_signing_bytes r"
  by (simp add: record_signing_bytes_def)

lemma validate_continuity_signature [simp]:
  "validate_continuity_members (r\<lparr>signature := sg'\<rparr>) = validate_continuity_members r"
  by (intro ext) (simp add: validate_continuity_members_def split: option.split pyval.split)

lemma validate_signature_members_signature [simp]:
  "validate_signature_members (r\<lparr>signature := sg'\<rparr>) = validate_signature_members r"
  by (simp add: validate_signature_members_def fun_eq_iff)

lemma member_append_new:
  "member (d @ [(KStr (str n), v)]) m = (case member d m of None \<Rightarrow> if m = n then Some v else None | Some w \<Rightarrow> Some w)"
  by (simp add: member_append member_Cons split: option.split)

lemma member_signature_object:
  "member (signature_object k p d) ''alg'' = Some (PStr ALGORITHM)"
  "member (signature_object k p d) ''key_id'' = Some (PStr k)"
  "member (signature_object k p d) ''sig'' = Some (PStr (encode_base64url p))"
  "member (signature_object k p d) ''signed_digest'' = Some (PStr d)"
  "member (signature_object k p d) ''issuer'' = None"
  "member (signature_object k p d) ''key_continuity'' = None"
  by (simp_all add: signature_object_def member_Cons)

lemma verify_record_signature_eq:
  "verify_record_signature c r public_keys =
     rbind (record_signing_bytes r) (\<lambda>b. let sg = signature r in
     rbind (validate_signature_members r sg) (\<lambda>_.
     rbind (algorithm sg) (\<lambda>_.
     rbind (required_text (member sg ''key_id'')) (\<lambda>key_id.
     rbind (of_option (UnknownKeyError key_id) (map_of public_keys key_id)) (\<lambda>public_key.
     rbind (required_text (member sg ''signed_digest'')) (\<lambda>claimed.
     let actual = digest_text (sha256 c) b in
     rbind (compare_digest claimed actual) (\<lambda>same.
     if \<not> same then Inl InvalidSignatureError
     else
     rbind (of_option SignatureError (decode_base64url (member sg ''sig'') 64)) (\<lambda>proof.
     rbind (digest_bytes actual) (\<lambda>raw.
     if ed_verify c public_key proof raw then Inr key_id else Inl InvalidSignatureError)))))))))"
  unfolding verify_record_signature_def
  by (rule rbind_cong [OF refl]) (simp add: verify_record_signature_bytes_def)

lemma of_option_eq_Inr [simp]: "of_option e v = Inr x \<longleftrightarrow> v = Some x"
  by (auto simp: of_option_def split: option.splits)

text \<open>What acceptance says.\<close>

lemma verify_record_signature_Inr:
  assumes "verify_record_signature c r public_keys = Inr key_id"
  obtains b pk pf where "record_signing_bytes r = Inr b"
    "validate_signature_members r (signature r) = Inr ()"
    "member (signature r) ''alg'' = Some (PStr ALGORITHM)"
    "member (signature r) ''key_id'' = Some (PStr key_id)" "map_of public_keys key_id = Some pk"
    "member (signature r) ''signed_digest'' = Some (PStr (digest_text (sha256 c) b))"
    "decode_base64url (member (signature r) ''sig'') 64 = Some pf"
    "\<exists>raw. digest_bytes (digest_text (sha256 c) b) = Inr raw \<and> ed_verify c pk pf raw"
proof -
  have nonempty: "required_text v = Inr k \<Longrightarrow> v = Some (PStr k)" for v k
    by (auto simp: required_text_def split: option.splits pyval.splits if_splits)
  have same: "compare_digest a d = Inr True \<Longrightarrow> a = d" for a d
    by (auto simp: compare_digest_def split: if_splits)
  show thesis
    using assms unfolding verify_record_signature_eq
    by (auto simp: result_simps Let_def algorithm_def split: if_splits dest!: nonempty same intro: that)
qed

lemma sign_record_Inr:
  assumes "sign_record c r key_id sk k = Inr r'"
  obtains b raw where "record_signing_bytes r = Inr b" "key_id \<noteq> []" "signature r = []"
    "digest_bytes (digest_text (sha256 c) b) = Inr raw"
    "r' = r\<lparr>signature := signature_object key_id (ed_sign c sk raw) (digest_text (sha256 c) b)
        @ (case k of None \<Rightarrow> [] | Some k \<Rightarrow> [(KStr (str ''key_continuity''), PDict k)])\<rparr>"
    "validate_signature_members r (signature r') = Inr ()"
  using assms that
  by (auto simp: sign_record_def signing_digest_def result_simps required_text_def Let_def split: if_splits)

text \<open>A record signed with a registered key verifies under that key.\<close>

lemma sign_then_verify:
  assumes c: "crypto_ok c" and s: "sign_record c r key_id sk k = Inr r'"
    and key: "map_of public_keys key_id = Some (ed_public c sk)"
  shows "verify_record_signature c r' public_keys = Inr key_id"
proof -
  obtain b raw where b: "record_signing_bytes r = Inr b" and id: "key_id \<noteq> []"
    and raw: "digest_bytes (digest_text (sha256 c) b) = Inr raw"
    and r': "r' = r\<lparr>signature := signature_object key_id (ed_sign c sk raw) (digest_text (sha256 c) b)
        @ (case k of None \<Rightarrow> [] | Some k \<Rightarrow> [(KStr (str ''key_continuity''), PDict k)])\<rparr>"
    and v: "validate_signature_members r (signature r') = Inr ()"
    by (rule sign_record_Inr [OF s])
  let ?d = "digest_text (sha256 c) b"
  note ok = crypto_okD [OF c]
  have m: "member (signature r') ''alg'' = Some (PStr ALGORITHM)"
    "member (signature r') ''key_id'' = Some (PStr key_id)"
    "member (signature r') ''signed_digest'' = Some (PStr ?d)"
    "member (signature r') ''sig'' = Some (PStr (encode_base64url (ed_sign c sk raw)))"
    by (simp_all add: r' member_append member_signature_object)
  have "decode_base64url (Some (PStr (encode_base64url (ed_sign c sk raw)))) 64 = Some (ed_sign c sk raw)"
    using decode_encode_base64url [OF ok(4), of sk raw 64] ok(3) [of sk raw] by fastforce
  moreover have "?d \<noteq> []" by (simp add: digest_text_def)
  moreover have "compare_digest ?d ?d = Inr True"
    using digest_text_ascii [where sha = "sha256 c" and b = b, OF ok(2)] by (simp add: compare_digest_def)
  moreover have "record_signing_bytes r' = Inr b" "validate_signature_members r' = validate_signature_members r"
    using b by (simp_all add: r')
  ultimately show ?thesis
    unfolding verify_record_signature_eq
    using id v key raw ok(5) by (simp add: m algorithm_def required_text_def of_option_def)
qed

text \<open>Equal signing bytes are equal contents.\<close>

lemma signing_bytes_inj:
  assumes "record_signing_bytes r = Inr b" "record_signing_bytes r' = Inr b"
    and "wf_value (PDict (unsigned_mapping r))" "wf_value (PDict (unsigned_mapping r'))"
  shows "norm_value (PDict (unsigned_mapping r)) = norm_value (PDict (unsigned_mapping r'))"
proof -
  have "canonicalize (PDict (unsigned_mapping r)) = Inr b"
    and "canonicalize (PDict (unsigned_mapping r')) = Inr b"
    using assms(1,2) by (auto simp: record_signing_bytes_def split: sum.splits)
  then show ?thesis using assms(3,4) by (rule canonicalize_inj)
qed

lemma member_unsigned:
  "member (unsigned_mapping r) ''record_id'' = Some (PStr (record_id r))"
  "member (unsigned_mapping r) ''record_type'' = Some (PStr (record_type r))"
  "member (unsigned_mapping r) ''tenant_id'' = Some (PStr (tenant_id r))"
  "member (unsigned_mapping r) ''stream_id'' = Some (PStr (stream_id r))"
  "member (unsigned_mapping r) ''sequence'' = Some (PInt (sequence r))"
  "member (unsigned_mapping r) ''prev_digest'' = Some (opt_str (prev_digest r))"
  "member (unsigned_mapping r) ''body'' = Some (PDict (body r))"
  by (simp_all add: unsigned_mapping_def member_Cons)

lemma opt_str_inj [simp]: "opt_str a = opt_str b \<longleftrightarrow> a = b"
  by (auto simp: opt_str_def split: option.splits)

lemma norm_opt_str [simp]: "norm_value (opt_str a) = opt_str a"
  by (auto simp: opt_str_def split: option.splits)

lemma norm_unsigned_fields:
  assumes n: "norm_value (PDict (unsigned_mapping r)) = norm_value (PDict (unsigned_mapping r'))"
    and wf: "wf_value (PDict (unsigned_mapping r))" "wf_value (PDict (unsigned_mapping r'))"
  shows "record_id r = record_id r'" "record_type r = record_type r'" "tenant_id r = tenant_id r'"
    "stream_id r = stream_id r'" "sequence r = sequence r'" "prev_digest r = prev_digest r'"
    "norm_value (PDict (body r)) = norm_value (PDict (body r'))"
    "schema_version r = schema_version r'" "boundary_ref r = boundary_ref r'"
    "norm_value (PDict (source r)) = norm_value (PDict (source r'))" "record_clocks r = record_clocks r'"
proof -
  have eq: "map_option norm_value (member (unsigned_mapping r) k)
      = map_option norm_value (member (unsigned_mapping r') k)" for k
    using n member_norm_dict [OF wf(1), of k] member_norm_dict [OF wf(2), of k]
    by (simp add: norm_value_PDict del: norm_value.simps)
  show "record_id r = record_id r'" "record_type r = record_type r'" "tenant_id r = tenant_id r'"
    "stream_id r = stream_id r'" "sequence r = sequence r'" "prev_digest r = prev_digest r'"
    using eq [of "''record_id''"] eq [of "''record_type''"] eq [of "''tenant_id''"]
      eq [of "''stream_id''"] eq [of "''sequence''"] eq [of "''prev_digest''"]
    by (simp_all add: member_unsigned)
  show "norm_value (PDict (body r)) = norm_value (PDict (body r'))"
    using eq [of "''body''"] by (simp only: member_unsigned option.map option.inject)
  have "member (unsigned_mapping q) ''source'' = Some (PDict (source q))"
    "member (unsigned_mapping q) ''schema_version'' = Some (PStr (schema_version q))"
    "member (unsigned_mapping q) ''boundary_ref'' = Some (PStr (boundary_ref q))"
    "member (unsigned_mapping q) ''clocks'' = Some (PDict (clocks_members (record_clocks q)))" for q
    by (simp_all add: unsigned_mapping_def member_Cons)
  note more_unsigned = this
  show "norm_value (PDict (source r)) = norm_value (PDict (source r'))"
    using eq [of "''source''"] by (simp only: more_unsigned option.map option.inject)
  show "schema_version r = schema_version r'" "boundary_ref r = boundary_ref r'"
    using eq [of "''schema_version''"] eq [of "''boundary_ref''"] by (simp_all add: more_unsigned)
  have clocks: "norm_value (PDict (clocks_members (record_clocks r))) = norm_value (PDict (clocks_members (record_clocks r')))"
    using eq [of "''clocks''"] by (simp only: more_unsigned option.map option.inject)
  have wfc: "wf_value (PDict (clocks_members (record_clocks r)))" "wf_value (PDict (clocks_members (record_clocks r')))"
    using wf_value_member [OF wf(1) more_unsigned(4)] wf_value_member [OF wf(2) more_unsigned(4)] .
  have "map_option norm_value (member (clocks_members (record_clocks r)) k)
      = map_option norm_value (member (clocks_members (record_clocks r')) k)" for k
    using clocks member_norm_dict [OF wfc(1), of k] member_norm_dict [OF wfc(2), of k]
    by (simp add: norm_value_PDict del: norm_value.simps)
  from this [of "''source_time''"] this [of "''authoritative_time''"]
  show "record_clocks r = record_clocks r'"
    by (cases "record_clocks r"; cases "record_clocks r'")
      (auto simp: clocks_members_def member_Cons split: option.splits)
qed

section \<open>The spelling of a proof is not unique\<close>

text \<open>
  A proof of 64 bytes takes 86 symbols, and the decoder drops the low four bits of the last one:
  \<open>respell\<close> changes them.
\<close>

definition respell_value :: "nat \<Rightarrow> nat" where
  "respell_value v = v div 16 * 16 + (v + 1) mod 16"

definition respell :: "pystr \<Rightarrow> pystr" where
  "respell s = butlast s @ [b64_char (respell_value (the (b64_value (last s))))]"

lemma respell_value: "v < 64 \<Longrightarrow> respell_value v < 64 \<and> respell_value v div 16 = v div 16 \<and> respell_value v \<noteq> v"
proof -
  assume v: "v < 64"
  let ?q = "v div 16" and ?m = "(v + 1) mod 16"
  have q: "?q < 4" and m: "?m < 16" using v by linarith+
  have "respell_value v div 16 = ?q" using m by (simp add: respell_value_def)
  moreover have "respell_value v < 64" using q m unfolding respell_value_def by linarith
  moreover have "respell_value v mod 16 \<noteq> v mod 16"
    using m by (simp add: respell_value_def mod_Suc)
  ultimately show ?thesis by auto
qed

lemma b64_bytes_last:
  "length vs mod 4 = 2 \<Longrightarrow> w div 16 = last vs div 16 \<Longrightarrow> b64_bytes (butlast vs @ [w]) = b64_bytes vs"
  by (induction vs rule: b64_bytes.induct) auto

lemma decode_respell:
  assumes d: "decode_base64url (Some (PStr s)) 64 = Some bs"
  shows "decode_base64url (Some (PStr (respell s))) 64 = Some bs" and "respell s \<noteq> s"
proof -
  let ?vs = "map (\<lambda>c. the (b64_value c)) s" and ?l = "the (b64_value (last s))"
  have s: "s \<noteq> []" and ok: "\<And>c. c \<in> set s \<Longrightarrow> b64_value c \<noteq> None"
    and b: "b64_bytes ?vs = Some bs" and len: "length bs = 64"
    using d by (auto simp: decode_base64url_def list_ex_iff split: if_splits option.splits)
  have l: "b64_value (last s) = Some ?l" using ok s by (metis last_in_set option.collapse)
  then have l64: "?l < 64" by (rule b64_value_less)
  note w = respell_value [OF l64]
  have mod4: "length ?vs mod 4 = 2"
    using b64_bytes_length [OF b] len by presburger
  have "map (\<lambda>c. the (b64_value c)) (respell s) = butlast ?vs @ [respell_value ?l]"
    using w by (simp add: respell_def map_butlast b64_value_char)
  moreover have "b64_bytes (butlast ?vs @ [respell_value ?l]) = Some bs"
    using b64_bytes_last [OF mod4, of "respell_value ?l"] w b s by (simp add: last_map)
  moreover have "\<not> list_ex (\<lambda>c. b64_value c = None) (respell s)"
    using ok w by (auto simp: respell_def list_ex_iff b64_value_char dest: in_set_butlastD)
  ultimately show "decode_base64url (Some (PStr (respell s))) 64 = Some bs"
    using len by (simp add: decode_base64url_def) (simp add: respell_def)
  have "last (respell s) \<noteq> last s"
    using w b64_char_value [OF l] l b64_value_char by (simp add: respell_def) (metis option.sel)
  then show "respell s \<noteq> s" by metis
qed

text \<open>The record with the \<^verbatim>\<open>sig\<close> member of its signature object respelled.\<close>

definition respell_record :: "evidence_record \<Rightarrow> evidence_record" where
  "respell_record r =
     r\<lparr>signature := map (\<lambda>kv. if fst kv = KStr (str ''sig'')
          then (fst kv, PStr (respell (str_of (Some (snd kv))))) else kv) (signature r)\<rparr>"

lemma member_respell:
  "member (signature (respell_record r)) n =
     (if n = ''sig'' then map_option (\<lambda>v. PStr (respell (str_of (Some v)))) (member (signature r) n)
      else member (signature r) n)"
proof -
  have "map_of (map (\<lambda>kv. if fst kv = k then (fst kv, f (snd kv)) else kv) d) k'
      = (if k' = k then map_option f (map_of d k') else map_of d k')"
    for k k' :: pykey and f :: "pyval \<Rightarrow> pyval" and d
    by (induction d) auto
  from this [where k = "KStr (str ''sig'')" and f = "\<lambda>v. PStr (respell (str_of (Some v)))"] show ?thesis by (simp add: member_def respell_record_def)
qed

lemma respell_keys: "map fst (signature (respell_record r)) = map fst (signature r)"
  by (auto simp: respell_record_def comp_def)

lemma closed_members_respell:
  "closed_members (signature (respell_record r)) req al = closed_members (signature r) req al"
proof -
  have "fst ` set (signature (respell_record r)) = fst ` set (signature r)"
    using respell_keys by (metis set_map)
  then have "list_ex (\<lambda>kv. fst kv \<notin> K) (signature (respell_record r)) = list_ex (\<lambda>kv. fst kv \<notin> K) (signature r)" for K
    by (simp add: list_ex_iff) (metis (no_types, lifting) image_iff)
  moreover have "(member (signature (respell_record r)) n = None) = (member (signature r) n = None)" for n
    by (simp add: member_respell)
  ultimately show ?thesis by (simp add: closed_members_def)
qed

lemma respell_other [simp]:
  "record_type (respell_record r) = record_type r" "tenant_id (respell_record r) = tenant_id r"
  "stream_id (respell_record r) = stream_id r" "sequence (respell_record r) = sequence r"
  "record_id (respell_record r) = record_id r" "prev_digest (respell_record r) = prev_digest r"
  "record_signing_bytes (respell_record r) = record_signing_bytes r"
  "unsigned_mapping (respell_record r) = unsigned_mapping r"
  by (simp_all add: respell_record_def)

lemma validate_respell:
  "validate_signature_members (respell_record r) (signature (respell_record r))
   = validate_signature_members r (signature r)"
proof -
  have "validate_continuity_members (respell_record r) (signature (respell_record r)) v
      = validate_continuity_members r (signature r) v" for v
    by (simp add: validate_continuity_members_def member_respell split: option.split pyval.split)
  then show ?thesis
    by (simp add: validate_signature_members_def closed_members_respell member_respell)
qed

lemma verify_respell:
  assumes "verify_record_signature c r public_keys = Inr key_id"
  shows "verify_record_signature c (respell_record r) public_keys = Inr key_id"
proof -
  obtain pf where "decode_base64url (member (signature r) ''sig'') 64 = Some pf"
    using verify_record_signature_Inr [OF assms] by metis
  moreover from this obtain s where "member (signature r) ''sig'' = Some (PStr s)"
    by (auto simp: decode_base64url_def split: option.splits pyval.splits)
  ultimately have "decode_base64url (member (signature (respell_record r)) ''sig'') 64
      = decode_base64url (member (signature r) ''sig'') 64"
    using decode_respell [of s pf] by (simp add: member_respell str_of_def)
  then have "verify_record_signature c (respell_record r) public_keys = verify_record_signature c r public_keys"
    unfolding verify_record_signature_eq by (simp add: validate_respell member_respell algorithm_def Let_def cong: if_cong)
  with assms show ?thesis by simp
qed

lemma respell_bytes:
  assumes wf: "wf_value (PDict (record_members r))"
    and sig: "decode_base64url (member (signature r) ''sig'') 64 = Some pf"
    and bytes: "serialize_record r = Inr b"
  shows "serialize_record (respell_record r) \<noteq> Inr b"
proof
  assume same: "serialize_record (respell_record r) = Inr b"
  obtain s where s: "member (signature r) ''sig'' = Some (PStr s)"
    using sig by (auto simp: decode_base64url_def split: option.splits pyval.splits)
  have wfs: "wf_value (PDict (signature r))" and wfu: "wf_value (PDict (unsigned_mapping r))"
    using wf by (auto simp: record_members_def)
  have wf_respell: "wf_str (respell t)" if "wf_str t" for t
    using that by (auto simp: wf_str_def respell_def list_all_iff b64_char_def dest!: in_set_butlastD)
  have "wf_str (respell (str_of (Some v)))" if "wf_value v" for v
    using that wf_respell wf_respell [of "[]"] by (cases v) (simp_all add: str_of_def wf_str_def)
  then have "list_all (\<lambda>kv. wf_str (key_text (fst kv)) \<and> wf_value (snd kv)) (signature (respell_record r))"
    using wfs by (auto simp: respell_record_def list_all_iff)
  then have "wf_value (PDict (signature (respell_record r)))"
    using wfs by (simp add: respell_keys)
  then have wf': "wf_value (PDict (record_members (respell_record r)))"
    using wf wfu by (auto simp: record_members_def)
  have "norm_value (PDict (record_members r)) = norm_value (PDict (record_members (respell_record r)))"
    using bytes same wf wf' unfolding serialize_record_def by (intro canonicalize_inj)
  then have "map_option norm_value (member (record_members r) ''signature'')
      = map_option norm_value (member (record_members (respell_record r)) ''signature'')"
    using member_norm_dict [OF wf, of "''signature''"] member_norm_dict [OF wf', of "''signature''"]
    by (simp add: norm_value_PDict del: norm_value.simps)
  then have "norm_dict (signature r) = norm_dict (signature (respell_record r))"
    by (simp add: member_record_members norm_value_PDict del: norm_value.simps)
  then have "norm_value (PStr s) = norm_value (PStr (respell s))"
    using member_norm_dict [OF wfs, of "''sig''"] s
      member_norm_dict [OF \<open>wf_value (PDict (signature (respell_record r)))\<close>, of "''sig''"]
    by (simp add: member_respell str_of_def)
  moreover have "respell s \<noteq> s" using decode_respell(2) sig s by simp
  ultimately show False by simp
qed

section \<open>Counter-signing\<close>

lemma without_absent: "member d n = None \<Longrightarrow> without n d = d"
  by (force simp: without_def member_def map_of_eq_None_iff filter_id_conv)

lemma without_new: "member d n = None \<Longrightarrow> without n (d @ [(KStr (str n), v)]) = d"
  using without_absent [of d n] by (simp add: without_def)

lemma counter_sign_Inr:
  assumes "counter_sign_attestation c r key_id sk = Inr r'"
  obtains digest raw where "key_id \<noteq> []" "member (signature r) ''issuer'' = None"
    "counter_signing_digest c r = Inr digest" "digest_bytes digest = Inr raw"
    "r' = r\<lparr>signature := signature r @ [(KStr (str ''issuer''),
        PDict (signature_object key_id (ed_sign c sk raw) digest))]\<rparr>"
    "validate_signature_members r (signature r') = Inr ()"
  using assms that
  by (auto simp: counter_sign_attestation_def result_simps required_text_def Let_def split: if_splits)

lemma counter_signing_digest_new:
  assumes "member (signature r) ''issuer'' = None"
  shows "counter_signing_digest c (r\<lparr>signature := signature r @ [(KStr (str ''issuer''), v)]\<rparr>)
    = counter_signing_digest c r"
  using assms by (simp add: counter_signing_digest_def counter_signing_mapping_def without_new without_absent)

lemma counter_signing_digest_text:
  "counter_signing_digest c r = Inr d \<Longrightarrow> \<exists>b. d = digest_text (sha256 c) b"
  by (auto simp: counter_signing_digest_def canonical_digest_def result_simps split: sum.splits)

lemma counter_sign_then_verify:
  assumes c: "crypto_ok c" and s: "counter_sign_attestation c r key_id sk = Inr r'"
    and key: "map_of public_keys key_id = Some (ed_public c sk)"
  shows "verify_attestation_counter_signature c r' public_keys = Inr key_id"
proof -
  obtain d raw where id: "key_id \<noteq> []" and new: "member (signature r) ''issuer'' = None"
    and d: "counter_signing_digest c r = Inr d" and raw: "digest_bytes d = Inr raw"
    and r': "r' = r\<lparr>signature := signature r @ [(KStr (str ''issuer''),
        PDict (signature_object key_id (ed_sign c sk raw) d))]\<rparr>"
    and v: "validate_signature_members r (signature r') = Inr ()"
    by (rule counter_sign_Inr [OF s])
  note ok = crypto_okD [OF c]
  have "decode_base64url (Some (PStr (encode_base64url (ed_sign c sk raw)))) 64 = Some (ed_sign c sk raw)"
    using decode_encode_base64url [OF ok(4), of sk raw 64] ok(3) [of sk raw] by fastforce
  moreover obtain b where b: "d = digest_text (sha256 c) b"
    using counter_signing_digest_text [OF d] by blast
  moreover have "compare_digest d d = Inr True" and "d \<noteq> []"
    using digest_text_ascii [where sha = "sha256 c" and b = b, OF ok(2)]
    by (simp_all add: b compare_digest_def) (simp add: digest_text_def)
  moreover have "counter_signing_digest c r' = Inr d"
    unfolding r' counter_signing_digest_new [OF new] by (rule d)
  moreover have "member (signature r') ''issuer'' = Some (PDict (signature_object key_id (ed_sign c sk raw) d))"
    using new by (simp add: r' member_append_new)
  moreover have "validate_signature_members r' = validate_signature_members r" by (simp add: r')
  ultimately show ?thesis
    using id v key raw ok(5)
    by (simp add: verify_attestation_counter_signature_def member_signature_object algorithm_def
        required_text_def of_option_def Let_def)
qed

text \<open>Adding the counter-signature leaves the primary proof as it was.\<close>

lemma counter_sign_keeps_primary:
  assumes s: "counter_sign_attestation c r key_id sk = Inr r'"
    and v: "verify_record_signature c r public_keys = Inr k"
  shows "verify_record_signature c r' public_keys = Inr k"
proof -
  obtain d raw where new: "member (signature r) ''issuer'' = None"
    and r': "r' = r\<lparr>signature := signature r @ [(KStr (str ''issuer''),
        PDict (signature_object key_id (ed_sign c sk raw) d))]\<rparr>"
    and ok: "validate_signature_members r (signature r') = Inr ()"
    by (rule counter_sign_Inr [OF s])
  obtain b pk pf where "validate_signature_members r (signature r) = Inr ()"
    and m: "member (signature r) ''alg'' = Some (PStr ALGORITHM)"
      "member (signature r) ''key_id'' = Some (PStr k)"
      "member (signature r) ''signed_digest'' = Some (PStr (digest_text (sha256 c) b))"
    and pf: "decode_base64url (member (signature r) ''sig'') 64 = Some pf"
    by (rule verify_record_signature_Inr [OF v]) (rule that)
  have "member (signature r) ''sig'' \<noteq> None" using pf by (cases "member (signature r) ''sig''") (simp_all add: decode_base64url_def)
  then have "member (signature r') n = member (signature r) n"
    if "n \<in> {''alg'', ''key_id'', ''signed_digest'', ''sig''}" for n
    using that m by (auto simp: r' member_append_new)
  then have "verify_record_signature c r' public_keys = verify_record_signature c r public_keys"
    using ok \<open>validate_signature_members r (signature r) = Inr ()\<close>
    unfolding verify_record_signature_eq
    by (simp add: r' algorithm_def Let_def cong: if_cong)
  with v show ?thesis by simp
qed

text \<open>Signing succeeds on every portable unsigned record, counter-signing on every signed attestation.\<close>

lemma closed_signature_object [simp]:
  "closed_members (signature_object k p d) customer_signature_fields (customer_signature_fields @ extra) = Inr ()"
  "closed_members (signature_object k p d) customer_signature_fields customer_signature_fields = Inr ()"
  by (simp_all add: closed_members_def customer_signature_fields_def member_signature_object)
    (simp_all add: signature_object_def)

text \<open>ASCII names are well-formed text.\<close>

lemma wf_str_str [simp]: "wf_str (str n)"
proof -
  have "(of_char c :: nat) \<le> 0x10FFFF" for c using nat_of_char_less_256 [of c] by linarith
  then show ?thesis by (simp add: wf_str_def str_def list_all_iff)
qed

lemma record_members_value:
  "wf_value (PDict (unsigned_mapping r)) \<Longrightarrow> wf_value (PDict (signature r)) \<Longrightarrow> wf_value (PDict (record_members r))"
  "portable (PDict (unsigned_mapping r)) \<Longrightarrow> portable (PDict (signature r)) \<Longrightarrow> portable (PDict (record_members r))"
  using distinct_record_members [of r] by (auto simp: record_members_def key_text_def)

lemma record_signing_bytes_ok:
  "portable (PDict (unsigned_mapping r)) \<Longrightarrow> \<exists>b. record_signing_bytes r = Inr b"
  using serialize_ok_iff [of "PDict (unsigned_mapping r)"]
  by (auto simp: record_signing_bytes_def canonicalize_def)

lemma sign_record_ok:
  assumes c: "crypto_ok c" and "signature r = []" "key_id \<noteq> []"
    and p: "portable (PDict (unsigned_mapping r))"
  shows "\<exists>b. record_signing_bytes r = Inr b \<and> sign_record c r key_id sk None = Inr (r\<lparr>signature :=
    signature_object key_id (ed_sign c sk (sha256 c b)) (digest_text (sha256 c) b)\<rparr>)"
proof -
  obtain b where b: "record_signing_bytes r = Inr b" using record_signing_bytes_ok [OF p] by blast
  have "digest_bytes (digest_text (sha256 c) b) = Inr (sha256 c b)"
    by (rule digest_bytes_digest_text) (simp_all add: crypto_okD [OF c])
  moreover have "validate_signature_members r (signature_object key_id x y) = Inr ()" for x y
    by (simp add: validate_signature_members_def closed_signature_object member_signature_object)
  ultimately show ?thesis
    using assms b by (simp add: sign_record_def signing_digest_def required_text_def)
qed

lemma closed_members_extend:
  assumes "closed_members d req allowed = Inr ()" "n \<in> set allowed"
  shows "closed_members (d @ [(KStr (str n), v)]) req allowed = Inr ()"
  using assms by (auto simp: closed_members_def member_append_new list_ex_iff split: if_splits option.splits)

lemma counter_sign_ok:
  assumes c: "crypto_ok c" and r: "record_type r = str ''AttestationWindow''" "key_id \<noteq> []"
    and sg: "signature r = signature_object k p d"
    and p: "portable (PDict (record_members r))"
  shows "\<exists>r'. counter_sign_attestation c r key_id sk = Inr r'"
proof -
  have new: "member (signature r) ''issuer'' = None" by (simp add: sg member_signature_object)
  obtain b where b: "canonicalize (PDict (record_members r)) = Inr b"
    using p serialize_ok_iff [of "PDict (record_members r)"] by (auto simp: canonicalize_def)
  then have d: "counter_signing_digest c r = Inr (digest_text (sha256 c) b)"
    by (simp add: counter_signing_digest_def counter_signing_mapping_def without_absent [OF new]
        canonical_digest_def)
  have raw: "digest_bytes (digest_text (sha256 c) b) = Inr (sha256 c b)"
    by (rule digest_bytes_digest_text) (simp_all add: crypto_okD [OF c])
  have fields: "\<not> list_ex (\<lambda>n. member (signature r) n = None) customer_signature_fields"
    by (simp add: customer_signature_fields_def sg member_signature_object)
  have ok: "validate_signature_members r (signature r) = Inr ()"
    by (simp add: validate_signature_members_def sg closed_signature_object member_signature_object)
  have "closed_members (signature r @ [(KStr (str ''issuer''), v)]) customer_signature_fields
      (customer_signature_fields @ [''key_continuity'', ''issuer'']) = Inr ()" for v
    by (rule closed_members_extend) (simp_all add: sg closed_signature_object)
  then have "validate_signature_members r (signature r @ [(KStr (str ''issuer''), PDict (signature_object x y z))])
      = Inr ()" for x y z
    using r(1) new by (simp add: validate_signature_members_def member_append_new closed_signature_object
        sg member_signature_object)
  then show ?thesis
    using fields ok new r(2) d raw by (simp add: counter_sign_attestation_def required_text_def Let_def)
qed

section \<open>Properties\<close>

text \<open>
  C31: the two-signature model round-trips: a record signed under an evidence key and then
  counter-signed under an issuer key verifies on both sides, under those two keys, provided each key
  is the one its keyring registers.
\<close>

theorem two_signatures_verify:
  assumes "crypto_ok c"
    and "sign_record c r key_id sk k = Inr r1"
    and "counter_sign_attestation c r1 issuer_id issuer_sk = Inr r2"
    and "map_of evidence_keys key_id = Some (ed_public c sk)"
    and "map_of issuer_keys issuer_id = Some (ed_public c issuer_sk)"
  shows "verify_attestation_signatures c r2 evidence_keys issuer_keys = Inr (key_id, issuer_id)"
proof -
  have "verify_record_signature c r2 evidence_keys = Inr key_id"
    by (rule counter_sign_keeps_primary [OF assms(3) sign_then_verify [OF assms(1,2,4)]])
  moreover have "verify_attestation_counter_signature c r2 issuer_keys = Inr issuer_id"
    by (rule counter_sign_then_verify [OF assms(1,3,5)])
  ultimately show ?thesis by (simp add: verify_attestation_signatures_def)
qed

text \<open>
  C30: an accepted primary signature binds the whole record.  If two accepted records carry the same
  \<^verbatim>\<open>signed_digest\<close>, and SHA-256 does not collide on their signing bytes, then they agree on every
  signed member: identity, type, schema version, tenant, boundary, stream, position, predecessor,
  clocks and (up to member order) source and body.
\<close>

theorem accepted_signature_binds_record:
  assumes "crypto_ok c"
    and "verify_record_signature c r public_keys = Inr k"
    and "verify_record_signature c r' public_keys' = Inr k'"
    and "member (signature r) ''signed_digest'' = member (signature r') ''signed_digest''"
    and "\<forall>b b'. record_signing_bytes r = Inr b \<and> record_signing_bytes r' = Inr b'
           \<and> sha256 c b = sha256 c b' \<longrightarrow> b = b'"
    and "wf_value (PDict (unsigned_mapping r))" "wf_value (PDict (unsigned_mapping r'))"
  shows "record_id r = record_id r' \<and> record_type r = record_type r' \<and> tenant_id r = tenant_id r'
    \<and> stream_id r = stream_id r' \<and> sequence r = sequence r' \<and> prev_digest r = prev_digest r'
    \<and> schema_version r = schema_version r' \<and> boundary_ref r = boundary_ref r' \<and> record_clocks r = record_clocks r'
    \<and> norm_value (PDict (source r)) = norm_value (PDict (source r'))
    \<and> norm_value (PDict (body r)) = norm_value (PDict (body r'))"
proof -
  obtain b where b: "record_signing_bytes r = Inr b"
    and d: "member (signature r) ''signed_digest'' = Some (PStr (digest_text (sha256 c) b))"
    by (rule verify_record_signature_Inr [OF assms(2)]) (rule that)
  obtain b' where b': "record_signing_bytes r' = Inr b'"
    and d': "member (signature r') ''signed_digest'' = Some (PStr (digest_text (sha256 c) b'))"
    by (rule verify_record_signature_Inr [OF assms(3)]) (rule that)
  have "digest_text (sha256 c) b = digest_text (sha256 c) b'" using assms(4) d d' by simp
  then have "sha256 c b = sha256 c b'"
    by (rule digest_text_inj) (simp_all add: crypto_okD(2) [OF assms(1)])
  with assms(5) b b' have "b' = b" by blast
  with b b' show ?thesis
    using norm_unsigned_fields [OF signing_bytes_inj [OF b _ assms(6,7)] assms(6,7)] by simp
qed

text \<open>
  the spelling of a proof is not authenticated: from any accepted record a second record can be
  made without a key that has the same signed content and is accepted under the same key but whose
  canonical bytes differ, by changing the unused low bits of the last base64url symbol of
  \<^verbatim>\<open>sig\<close>.
\<close>

theorem accepted_signature_respelled:
  assumes "verify_record_signature c r public_keys = Inr k"
    and "wf_value (PDict (record_members r))" and "serialize_record r = Inr b"
  shows "unsigned_mapping (respell_record r) = unsigned_mapping r
    \<and> verify_record_signature c (respell_record r) public_keys = Inr k
    \<and> serialize_record (respell_record r) \<noteq> Inr b"
proof -
  obtain pf where "decode_base64url (member (signature r) ''sig'') 64 = Some pf"
    by (rule verify_record_signature_Inr [OF assms(1)]) (rule that)
  then have "serialize_record (respell_record r) \<noteq> Inr b"
    by (rule respell_bytes [OF assms(2) _ assms(3)])
  then show ?thesis using verify_respell [OF assms(1)] by simp
qed

section \<open>Witnesses\<close>

text \<open>A stand-in for the primitives, with the lengths and the law they promise, on which to compute.\<close>

definition plain_sign :: "nat \<Rightarrow> bytes \<Rightarrow> bytes" where
  "plain_sign k m = take 64 (k mod 256 # map (\<lambda>b. b mod 256) m @ replicate 64 0)"

fun plain_hash :: "nat \<Rightarrow> bytes \<Rightarrow> nat" where
  "plain_hash h [] = h"
| "plain_hash h (b # bs) = plain_hash ((h * 31 + b) mod 251) bs"

definition plain_crypto :: "(nat, nat) crypto" where
  "plain_crypto =
     \<lparr>sha256 = (\<lambda>m. replicate 31 0 @ [plain_hash 7 m]),
      ed_sign = plain_sign, ed_verify = (\<lambda>k s m. s = plain_sign k m), ed_public = id,
      ed_raw = (\<lambda>k. replicate 31 0 @ [k mod 256])\<rparr>"

lemma plain_crypto_ok: "crypto_ok plain_crypto"
proof -
  have "plain_hash h m < 256" if "h < 256" for m and h :: nat
    using that by (induction h m rule: plain_hash.induct) (auto intro: less_trans [OF mod_less_divisor])
  from this [of 7] show ?thesis
    by (auto simp: crypto_ok_def plain_crypto_def plain_sign_def byte_string_def list_all_iff
        dest!: in_set_takeD)
qed

definition sample_attestation :: evidence_record where
  "sample_attestation = (record_of sample_revocation)\<lparr>record_type := str ''AttestationWindow''\<rparr>"

lemma sample_attestation_facts:
  "portable (PDict (unsigned_mapping sample_attestation))"
  "wf_value (PDict (unsigned_mapping sample_attestation))"
  "signature sample_attestation = []"
  "record_type sample_attestation = str ''AttestationWindow''"
  by code_simp+

text \<open>It can be signed and then counter-signed.\<close>

lemma signature_object_value:
  assumes "byte_string p" "wf_str k" "list_all (\<lambda>c. \<not> is_surrogate c) k"
    and d: "list_all (\<lambda>c. c < 128) d"
  shows "portable (PDict (signature_object k p d))" "wf_value (PDict (signature_object k p d))"
proof -
  have enc: "c < 128" if "c \<in> set (encode_base64url p)" for c
    using that b64_values_less [OF assms(1)] by (auto simp: encode_base64url_values b64_char_def)
  have low: "list_all (\<lambda>c. \<not> is_surrogate c) t" "wf_str t" if "\<And>c. c \<in> set t \<Longrightarrow> c < 128" for t
    using that unfolding wf_str_def list_all_iff is_surrogate_def by fastforce+
  have "c < 128" if "c \<in> set d" for c using d that by (simp add: list_all_iff)
  note low [OF this] low [OF enc]
  with assms(2,3) show "portable (PDict (signature_object k p d))"
    "wf_value (PDict (signature_object k p d))"
    by (simp_all add: signature_object_def ALGORITHM_def key_text_def)
qed

definition sample_signed :: "bytes \<Rightarrow> evidence_record" where
  "sample_signed b = sample_attestation\<lparr>signature := signature_object (str ''k'')
     (ed_sign plain_crypto 5 (sha256 plain_crypto b)) (digest_text (sha256 plain_crypto) b)\<rparr>"

lemma sample_signed_value:
  "wf_value (PDict (record_members (sample_signed b)))" "portable (PDict (record_members (sample_signed b)))"
proof -
  note sg = signature_object_value [OF crypto_okD(4) [OF plain_crypto_ok] wf_str_str no_surrogate_str
      digest_text_ascii [where sha = "sha256 plain_crypto", OF crypto_okD(2) [OF plain_crypto_ok]]]
  show "wf_value (PDict (record_members (sample_signed b)))"
    using sg(2) sample_attestation_facts(2)
    by (intro record_members_value) (simp_all add: sample_signed_def del: wf_value.simps)
  show "portable (PDict (record_members (sample_signed b)))"
    using sg(1) sample_attestation_facts(1)
    by (intro record_members_value) (simp_all add: sample_signed_def del: portable.simps)
qed

lemma sample_signed:
  obtains b where
    "sign_record plain_crypto sample_attestation (str ''k'') 5 None = Inr (sample_signed b)"
    "verify_record_signature plain_crypto (sample_signed b) [(str ''k'', 5)] = Inr (str ''k'')"
    "\<exists>r'. counter_sign_attestation plain_crypto (sample_signed b) (str ''i'') 6 = Inr r'"
proof -
  have "str ''k'' \<noteq> []" by simp
  from sign_record_ok [OF plain_crypto_ok sample_attestation_facts(3) this sample_attestation_facts(1), of 5]
  obtain b where s: "sign_record plain_crypto sample_attestation (str ''k'') 5 None = Inr (sample_signed b)"
    unfolding sample_signed_def by (elim exE conjE)
  have v: "verify_record_signature plain_crypto (sample_signed b) [(str ''k'', 5)] = Inr (str ''k'')"
    by (rule sign_then_verify [OF plain_crypto_ok s]) (simp add: plain_crypto_def)
  have "\<exists>r'. counter_sign_attestation plain_crypto (sample_signed b) (str ''i'') 6 = Inr r'"
  proof (rule counter_sign_ok [OF plain_crypto_ok _ _ _ sample_signed_value(2)])
    show "record_type (sample_signed b) = str ''AttestationWindow''"
      by (simp add: sample_signed_def sample_attestation_facts(4))
    show "signature (sample_signed b) = signature_object (str ''k'')
     (ed_sign plain_crypto 5 (sha256 plain_crypto b)) (digest_text (sha256 plain_crypto) b)"
      by (simp add: sample_signed_def)
  qed simp
  then show thesis by (rule that [OF s v])
qed

theorem two_signatures_verify_witness:
  "\<exists>r. verify_attestation_signatures plain_crypto r [(str ''k'', 5)] [(str ''i'', 6)]
     = Inr (str ''k'', str ''i'')"
proof -
  obtain r r' where "sign_record plain_crypto sample_attestation (str ''k'') 5 None = Inr r"
    "counter_sign_attestation plain_crypto r (str ''i'') 6 = Inr r'"
    by (rule sample_signed) blast
  from two_signatures_verify [OF plain_crypto_ok this, of "[(str ''k'', 5)]" "[(str ''i'', 6)]"]
  show ?thesis by (auto simp: plain_crypto_def)
qed

theorem accepted_signature_binds_record_witness:
  "\<exists>r. sequence r = sequence (respell_record r) \<and> record_id r = record_id (respell_record r)
     \<and> signature r \<noteq> []"
proof -
  obtain r where v: "verify_record_signature plain_crypto r [(str ''k'', 5)] = Inr (str ''k'')"
    and u: "wf_value (PDict (unsigned_mapping r))"
    using sample_attestation_facts(2)
    by (rule_tac sample_signed) (simp add: sample_signed_def del: wf_value.simps)
  have "signature r \<noteq> []"
    by (rule verify_record_signature_Inr [OF v]) (auto simp: member_def)
  with accepted_signature_binds_record [OF plain_crypto_ok v verify_respell [OF v]] u
  show ?thesis by (auto simp: member_respell)
qed

theorem accepted_signature_respelled_witness:
  "\<exists>r b. verify_record_signature plain_crypto (respell_record r) [(str ''k'', 5)] = Inr (str ''k'')
     \<and> serialize_record r = Inr b \<and> serialize_record (respell_record r) \<noteq> Inr b"
proof -
  obtain r where v: "verify_record_signature plain_crypto r [(str ''k'', 5)] = Inr (str ''k'')"
    and wf: "wf_value (PDict (record_members r))" and p: "portable (PDict (record_members r))"
    by (rule sample_signed) (use sample_signed_value in blast)
  obtain b where "serialize_record r = Inr b"
    using p serialize_ok_iff [of "PDict (record_members r)"]
    by (auto simp: serialize_record_def canonicalize_def)
  with accepted_signature_respelled [OF v wf this] show ?thesis by blast
qed

end
