(* ===== verification/Hash_Links.thy ===== *)
theory Hash_Links
  imports Ecp_Prelude
begin

text \<open>
  Hash-linked sequences, the interface shared by the stream verifier, the bundle parser and the
  client: consecutive positions, each element naming the digest of the one before it.  The locale
  states what a digest must promise; the lemma proved in it is that the digest of the last element
  commits to the whole sequence.
\<close>

fun linked :: "('r \<Rightarrow> int) \<Rightarrow> ('r \<Rightarrow> 'd option) \<Rightarrow> ('r \<Rightarrow> 'd option) \<Rightarrow> 'r list \<Rightarrow> bool" where
  "linked seq prev dig [] = True"
| "linked seq prev dig [r] = True"
| "linked seq prev dig (r # s # rs) =
     (seq s = seq r + 1 \<and> dig r \<noteq> None \<and> prev s = dig r \<and> linked seq prev dig (s # rs))"

lemma linked_append:
  "linked seq prev dig (xs @ ys) \<longleftrightarrow>
     linked seq prev dig xs \<and> linked seq prev dig ys \<and>
     (xs \<noteq> [] \<and> ys \<noteq> [] \<longrightarrow>
        seq (hd ys) = seq (last xs) + 1 \<and> dig (last xs) \<noteq> None \<and> prev (hd ys) = dig (last xs))"
proof (induction xs rule: induct_list012)
  case (2 x)
  then show ?case by (cases ys) auto
qed auto

lemma linked_snoc:
  "linked seq prev dig (xs @ [y]) \<longleftrightarrow>
     linked seq prev dig xs \<and>
     (xs \<noteq> [] \<longrightarrow> seq y = seq (last xs) + 1 \<and> dig (last xs) \<noteq> None \<and> prev y = dig (last xs))"
  by (simp add: linked_append)

lemma linked_sequence:
  assumes "linked seq prev dig (r # rs)"
  shows "map seq (r # rs) = [seq r .. seq r + int (length rs)]"
  using assms
proof (induction rs arbitrary: r)
  case (Cons s rs)
  then show ?case using Cons.IH [of s] by (simp add: upto_rec1 [of "seq r"] algebra_simps)
qed simp

lemma linked_sequence_last:
  "linked seq prev dig (r # rs) \<Longrightarrow> seq (last (r # rs)) = seq r + int (length rs)"
  by (induction rs arbitrary: r) auto

lemma linked_nth:
  assumes "linked seq prev dig xs" "Suc i < length xs"
  shows "prev (xs ! Suc i) = dig (xs ! i) \<and> dig (xs ! i) \<noteq> None \<and> seq (xs ! Suc i) = seq (xs ! i) + 1"
  using assms
proof (induction xs arbitrary: i rule: induct_list012)
  case (3 x y zs)
  then show ?case by (cases i) auto
qed auto

locale hash_linked =
  fixes seq :: "'r \<Rightarrow> int"
    and prev :: "'r \<Rightarrow> 'd option"
    and dig :: "'r \<Rightarrow> 'd option"
    and content :: "'r \<Rightarrow> 'c"
    and good :: "'r \<Rightarrow> 'r \<Rightarrow> bool"
  assumes commits: "good r r' \<Longrightarrow> dig r = Some d \<Longrightarrow> dig r' = Some d \<Longrightarrow>
    content r = content r' \<and> prev r = prev r'"
begin

lemma head_commits:
  assumes "linked seq prev dig xs" "linked seq prev dig ys" "xs \<noteq> []" "ys \<noteq> []"
    and "prev (hd xs) = None" "prev (hd ys) = None"
    and "dig (last xs) = Some d" "dig (last ys) = Some d"
    and "\<forall>x \<in> set xs. \<forall>y \<in> set ys. good x y"
  shows "map content xs = map content ys"
  using assms
proof (induction xs arbitrary: ys d rule: rev_induct)
  case (snoc x xs)
  obtain ys' y where ys: "ys = ys' @ [y]" using snoc.prems(4) by (metis append_butlast_last_id)
  have same: "content x = content y" "prev x = prev y"
    using snoc.prems(7-9) commits [of x y d] by (auto simp: ys)
  show ?case
  proof (cases "xs = [] \<or> ys' = []")
    case True
    have "xs = [] \<and> ys' = []"
      using True same(2) snoc.prems(1,2,5,6) by (auto simp: ys linked_snoc)
    then show ?thesis using same(1) by (simp add: ys)
  next
    case False
    then obtain e where "dig (last xs) = Some e" "dig (last ys') = Some e"
      using snoc.prems(1,2) same(2) by (auto simp: ys linked_snoc)
    moreover have "linked seq prev dig xs" "linked seq prev dig ys'"
      using snoc.prems(1,2) by (simp_all add: ys linked_snoc)
    moreover have "prev (hd xs) = None" "prev (hd ys') = None"
      using False snoc.prems(5,6) by (simp_all add: ys)
    ultimately have "map content xs = map content ys'"
      using False snoc.prems(9) by (intro snoc.IH [of ys' e]) (auto simp: ys)
    with same(1) show ?thesis by (simp add: ys)
  qed
qed simp

end

end
