(* ===== verification/Chain.thy ===== *)
theory Chain
  imports Signing Hash_Links
begin

text \<open>
  \<^verbatim>\<open>sdk_python/evidence/chain.py\<close>: key-continuity assertions and the verification of evidence
  streams (fork detection, contiguity, digest links, signer namespaces, key rotation).
  The lemmas characterise acceptance, independence of arrival order, the soundness of the reported
  valid prefix, and how fork detection behaves on respelled proofs.
\<close>

section \<open>Errors\<close>

text \<open>
  \<open>Escapes\<close> stands for an exception the module does not turn into a
  \<^verbatim>\<open>ChainVerificationError\<close>.
\<close>

datatype chain_failure =
    ChainVerificationError
  | StreamForkError
  | SequenceGapError
  | DigestLinkError
  | KeyContinuityError
  | KeyNamespaceError
  | Escapes

record chain_error =
  ce_failure :: chain_failure
  ce_stream_id :: "pystr option"
  ce_break_sequence :: "int option"
  ce_valid_through_sequence :: "int option"
  ce_fatal :: bool
  ce_coverage_gap_body :: "pydict option"

definition chain_error_at ::
    "chain_failure \<Rightarrow> evidence_record \<Rightarrow> int option \<Rightarrow> pydict option \<Rightarrow> chain_error" where
  "chain_error_at f r through gap =
     \<lparr>ce_failure = f, ce_stream_id = Some (stream_id r), ce_break_sequence = Some (sequence r),
      ce_valid_through_sequence = through, ce_fatal = (f = StreamForkError), ce_coverage_gap_body = gap\<rparr>"

definition chain_error_plain :: "chain_failure \<Rightarrow> chain_error" where
  "chain_error_plain f =
     \<lparr>ce_failure = f, ce_stream_id = None, ce_break_sequence = None,
      ce_valid_through_sequence = None, ce_fatal = False, ce_coverage_gap_body = None\<rparr>"

definition attestation_permitted :: "chain_error \<Rightarrow> bool" where
  "attestation_permitted e \<longleftrightarrow> \<not> ce_fatal e"

section \<open>Key continuity\<close>

record 'pk registered_key =
  rk_namespace :: key_namespace
  rk_public_key :: 'pk

type_synonym 'pk registry = "(pystr \<times> 'pk registered_key) list"

definition public_keys_of :: "'pk registry \<Rightarrow> 'pk keyring" where
  "public_keys_of reg = map (\<lambda>(k, rk). (k, rk_public_key rk)) reg"

datatype continuity_error = ContinuityError | ContinuityAlgorithm | ContinuityNotCanonical canon_error

definition continuity_dict :: "pystr \<Rightarrow> pystr \<Rightarrow> pystr \<Rightarrow> pystr \<Rightarrow> pystr \<Rightarrow> pystr \<Rightarrow> pydict" where
  "continuity_dict alg predecessor_key_id new_key_id new_public_key tenant stream =
     [(KStr (str ''alg''), PStr alg),
      (KStr (str ''predecessor_key_id''), PStr predecessor_key_id),
      (KStr (str ''new_key_id''), PStr new_key_id),
      (KStr (str ''new_public_key''), PStr new_public_key),
      (KStr (str ''tenant_id''), PStr tenant),
      (KStr (str ''stream_id''), PStr stream)]"

definition continuity_payload ::
    "('sk, 'pk) crypto \<Rightarrow> pystr \<Rightarrow> pystr \<Rightarrow> 'pk \<Rightarrow> pystr \<Rightarrow> pystr \<Rightarrow> continuity_error + pydict" where
  "continuity_payload c predecessor_key_id new_key_id new_public_key tenant stream =
     (if predecessor_key_id = [] \<or> new_key_id = [] \<or> tenant = [] \<or> stream = [] then Inl ContinuityError
      else if predecessor_key_id = new_key_id then Inl ContinuityError
      else Inr (continuity_dict ALGORITHM predecessor_key_id new_key_id
             (encode_base64url (ed_raw c new_public_key)) tenant stream))"

definition continuity_bytes :: "pydict \<Rightarrow> continuity_error + bytes" where
  "continuity_bytes d =
     (case canonicalize (PDict d) of Inl e \<Rightarrow> Inl (ContinuityNotCanonical e) | Inr b \<Rightarrow> Inr b)"

definition create_key_continuity ::
    "('sk, 'pk) crypto \<Rightarrow> pystr \<Rightarrow> 'sk \<Rightarrow> pystr \<Rightarrow> 'pk \<Rightarrow> pystr \<Rightarrow> pystr \<Rightarrow> continuity_error + pydict" where
  "create_key_continuity c predecessor_key_id predecessor_private_key new_key_id new_public_key tenant stream =
     rbind (continuity_payload c predecessor_key_id new_key_id new_public_key tenant stream) (\<lambda>payload.
     rbind (continuity_bytes payload) (\<lambda>b.
     Inr (payload @ [(KStr (str ''sig''), PStr (encode_base64url (ed_sign c predecessor_private_key b)))])))"

definition verify_key_continuity ::
    "('sk, 'pk) crypto \<Rightarrow> pydict \<Rightarrow> pystr \<Rightarrow> 'pk \<Rightarrow> pystr \<Rightarrow> 'pk \<Rightarrow> pystr \<Rightarrow> pystr \<Rightarrow> continuity_error + unit" where
  "verify_key_continuity c a predecessor_id predecessor_key new_id new_key tenant stream =
     rbind (require (fst ` set a = KStr ` str ` set continuity_fields) ContinuityError) (\<lambda>_.
     rbind (require (member a ''alg'' = Some (PStr ALGORITHM)) ContinuityAlgorithm) (\<lambda>_.
     rbind (require (member a ''predecessor_key_id'' = Some (PStr predecessor_id)) ContinuityError) (\<lambda>_.
     rbind (require (member a ''new_key_id'' = Some (PStr new_id)) ContinuityError) (\<lambda>_.
     rbind (require (member a ''tenant_id'' = Some (PStr tenant)) ContinuityError) (\<lambda>_.
     rbind (require (member a ''stream_id'' = Some (PStr stream)) ContinuityError) (\<lambda>_.
     rbind (of_option ContinuityError (decode_base64url (member a ''new_public_key'') 32)) (\<lambda>asserted.
     rbind (require (asserted = ed_raw c new_key) ContinuityError) (\<lambda>_.
     rbind (of_option ContinuityError (decode_base64url (member a ''sig'') 64)) (\<lambda>pf.
     rbind (continuity_bytes (continuity_dict ALGORITHM predecessor_id new_id
              (str_of (member a ''new_public_key'')) tenant stream)) (\<lambda>b.
     require (ed_verify c predecessor_key pf b) ContinuityError))))))))))"

section \<open>Streams\<close>

definition gap_body :: "evidence_record \<Rightarrow> evidence_record \<Rightarrow> string \<Rightarrow> pydict" where
  "gap_body previous current cause =
     [(KStr (str ''gap_start''), PStr (source_time (record_clocks previous))),
      (KStr (str ''gap_end''), PStr (source_time (record_clocks current))),
      (KStr (str ''affected_scope''), PDict [(KStr (str ''stream_id''), PStr (stream_id current))]),
      (KStr (str ''cause''), PStr (str cause)),
      (KStr (str ''detection_source''), PStr (str ''chain_verifier'')),
      (KStr (str ''exposure''), PStr (str ''unknown'')),
      (KStr (str ''actions_during_gap''), PNone)]"

text \<open>
  \<^verbatim>\<open>_signature_key_id\<close>.  Only a \<^verbatim>\<open>SignatureError\<close> is converted; the \<^verbatim>\<open>TypeError\<close> of
  \<^verbatim>\<open>compare_digest\<close>, a canonicalization failure and an unclassified record type escape.
\<close>

definition signature_key_id ::
    "('sk, 'pk) crypto \<Rightarrow> 'pk registry \<Rightarrow> evidence_record \<Rightarrow> int option \<Rightarrow> pydict option \<Rightarrow> chain_error + pystr"
where
  "signature_key_id c reg r through gap =
     (case verify_record_signature c r (public_keys_of reg) of
        Inl CompareTypeError \<Rightarrow> Inl (chain_error_plain Escapes)
      | Inl (RecordNotCanonical _) \<Rightarrow> Inl (chain_error_plain Escapes)
      | Inl _ \<Rightarrow> Inl (chain_error_at ChainVerificationError r through gap)
      | Inr key_id \<Rightarrow>
          (case primary_signer_namespace (record_type r) of
             None \<Rightarrow> Inl (chain_error_plain Escapes)
           | Some expected \<Rightarrow>
               if map_option rk_namespace (map_of reg key_id) \<noteq> Some expected
               then Inl (chain_error_at KeyNamespaceError r through gap)
               else Inr key_id))"

definition digest_of :: "('sk, 'pk) crypto \<Rightarrow> evidence_record \<Rightarrow> chain_error + pystr" where
  "digest_of c r =
     (case record_digest (sha256 c) r of Inl _ \<Rightarrow> Inl (chain_error_plain Escapes) | Inr d \<Rightarrow> Inr d)"

definition position :: "evidence_record \<Rightarrow> pystr \<times> int" where
  "position r = (stream_id r, sequence r)"

definition same_record ::
    "('sk, 'pk) crypto \<Rightarrow> evidence_record \<Rightarrow> evidence_record \<Rightarrow> chain_error + bool" where
  "same_record c previous r =
     (if record_id previous \<noteq> record_id r then Inr False
      else rbind (digest_of c previous) (\<lambda>d. rbind (digest_of c r) (\<lambda>d'. Inr (d = d'))))"

text \<open>\<^verbatim>\<open>_fork_checked_records\<close>; \<open>kept\<close> is the dictionary's values in insertion order.\<close>

fun fork_checked ::
    "('sk, 'pk) crypto \<Rightarrow> 'pk registry \<Rightarrow> evidence_record list \<Rightarrow> evidence_record list
     \<Rightarrow> chain_error + evidence_record list" where
  "fork_checked c reg kept [] = Inr kept"
| "fork_checked c reg kept (r # rs) =
     (case find (\<lambda>p. position p = position r) kept of
        None \<Rightarrow> fork_checked c reg (kept @ [r]) rs
      | Some previous \<Rightarrow>
          rbind (same_record c previous r) (\<lambda>same.
          if same then fork_checked c reg kept rs
          else rbind (signature_key_id c reg previous None None) (\<lambda>_.
               rbind (signature_key_id c reg r None None) (\<lambda>_.
               Inl (chain_error_at StreamForkError r None None)))))"

text \<open>The loop over the records after the first.\<close>

definition rotation_ok ::
    "('sk, 'pk) crypto \<Rightarrow> 'pk registry \<Rightarrow> evidence_record \<Rightarrow> pystr \<Rightarrow> pystr \<Rightarrow> int option \<Rightarrow> pydict option
     \<Rightarrow> chain_error + unit" where
  "rotation_ok c reg r last_key_id key_id through gap =
     (let continuity = member (signature r) ''key_continuity'';
          broken = chain_error_at KeyContinuityError r through gap
      in if key_id \<noteq> last_key_id then
           (case continuity of
              Some (PDict a) \<Rightarrow>
                (case (map_of (public_keys_of reg) last_key_id, map_of (public_keys_of reg) key_id) of
                   (Some predecessor_key, Some new_key) \<Rightarrow>
                     (case verify_key_continuity c a last_key_id predecessor_key key_id new_key
                             (tenant_id r) (stream_id r) of
                        Inl (ContinuityNotCanonical _) \<Rightarrow> Inl (chain_error_plain Escapes)
                      | Inl _ \<Rightarrow> Inl broken
                      | Inr _ \<Rightarrow> Inr ())
                 | _ \<Rightarrow> Inl (chain_error_plain KeyContinuityError))
            | _ \<Rightarrow> Inl broken)
         else if continuity \<noteq> None \<and> continuity \<noteq> Some PNone then Inl broken
         else Inr ())"

fun verify_links ::
    "('sk, 'pk) crypto \<Rightarrow> 'pk registry \<Rightarrow> evidence_record \<Rightarrow> pystr \<Rightarrow> pystr \<Rightarrow> evidence_record list
     \<Rightarrow> chain_error + pystr \<times> pystr" where
  "verify_links c reg previous last_key_id last_digest [] = Inr (last_digest, last_key_id)"
| "verify_links c reg previous last_key_id last_digest (r # rs) =
     (let through = Some (sequence previous) in
      if sequence r \<noteq> sequence previous + 1
      then Inl (chain_error_at SequenceGapError r through (Some (gap_body previous r ''sequence_break'')))
      else if prev_digest r \<noteq> Some last_digest
      then Inl (chain_error_at DigestLinkError r through (Some (gap_body previous r ''sequence_break'')))
      else let gap = Some (gap_body previous r ''key_discontinuity'') in
           rbind (signature_key_id c reg r through gap) (\<lambda>key_id.
           rbind (rotation_ok c reg r last_key_id key_id through gap) (\<lambda>_.
           rbind (digest_of c r) (\<lambda>d. verify_links c reg r key_id d rs))))"

record chain_result =
  cr_stream_id :: pystr
  cr_start_sequence :: int
  cr_end_sequence :: int
  cr_last_digest :: pystr
  cr_last_key_id :: pystr
  cr_records :: "evidence_record list"

text \<open>The namespace of each record, compared with the first one's; an unclassified type escapes.\<close>

fun one_namespace :: "key_namespace option \<Rightarrow> evidence_record list \<Rightarrow> chain_error + unit" where
  "one_namespace ns [] = Inr ()"
| "one_namespace ns (r # rs) =
     (case primary_signer_namespace (record_type r) of
        None \<Rightarrow> Inl (chain_error_plain Escapes)
      | Some ns' \<Rightarrow>
          if Some ns' \<noteq> ns then Inl (chain_error_at KeyNamespaceError r None None)
          else one_namespace ns rs)"

text \<open>\<^verbatim>\<open>_verify_stream\<close> from the sorted records on.\<close>

definition verify_ordered ::
    "('sk, 'pk) crypto \<Rightarrow> 'pk registry \<Rightarrow> evidence_record list \<Rightarrow> chain_error + chain_result" where
  "verify_ordered c reg ordered =
     (let first = hd ordered in
      case primary_signer_namespace (record_type first) of
        None \<Rightarrow> Inl (chain_error_plain Escapes)
      | Some ns \<Rightarrow>
     rbind (one_namespace (Some ns) (tl ordered)) (\<lambda>_.
     if sequence first \<noteq> 1
     then Inl (chain_error_at SequenceGapError first None (Some (gap_body first first ''sequence_break'')))
     else if prev_digest first \<noteq> None then Inl (chain_error_at DigestLinkError first None None)
     else
     rbind (signature_key_id c reg first None None) (\<lambda>key_id.
     if member (signature first) ''key_continuity'' \<noteq> None
     then Inl (chain_error_at KeyContinuityError first None None)
     else
     rbind (digest_of c first) (\<lambda>d.
     rbind (verify_links c reg first key_id d (tl ordered)) (\<lambda>(last_digest, last_key_id).
     Inr \<lparr>cr_stream_id = stream_id first, cr_start_sequence = sequence first,
          cr_end_sequence = sequence (last ordered), cr_last_digest = last_digest,
          cr_last_key_id = last_key_id, cr_records = ordered\<rparr>)))))"

definition verify_evidence_stream ::
    "('sk, 'pk) crypto \<Rightarrow> 'pk registry \<Rightarrow> evidence_record list \<Rightarrow> chain_error + chain_result" where
  "verify_evidence_stream c reg records =
     rbind (fork_checked c reg [] records) (\<lambda>materialized.
     if materialized = [] then Inl (chain_error_plain ChainVerificationError)
     else if card (set (map stream_id materialized)) \<noteq> 1 then Inl (chain_error_plain ChainVerificationError)
     else verify_ordered c reg (sort_key sequence materialized))"

definition verify_evidence_streams ::
    "('sk, 'pk) crypto \<Rightarrow> 'pk registry \<Rightarrow> evidence_record list \<Rightarrow> chain_error + (pystr \<times> chain_result) list"
where
  "verify_evidence_streams c reg records =
     (if records = [] then Inl (chain_error_plain ChainVerificationError)
      else rmap (\<lambda>(s, rs). rbind (verify_evidence_stream c reg rs) (\<lambda>v. Inr (s, v)))
             (group_by stream_id records))"

section \<open>Acceptance\<close>

definition digest_opt :: "('sk, 'pk) crypto \<Rightarrow> evidence_record \<Rightarrow> pystr option" where
  "digest_opt c r = (case record_digest (sha256 c) r of Inl _ \<Rightarrow> None | Inr d \<Rightarrow> Some d)"

lemma digest_of_Inr: "digest_of c r = Inr d \<longleftrightarrow> digest_opt c r = Some d"
  by (auto simp: digest_of_def digest_opt_def split: sum.splits)

text \<open>An accepted signer: the proof verifies and the key's namespace is the one of the record type.\<close>

definition authenticated :: "('sk, 'pk) crypto \<Rightarrow> 'pk registry \<Rightarrow> evidence_record \<Rightarrow> pystr \<Rightarrow> bool" where
  "authenticated c reg r k \<longleftrightarrow> verify_record_signature c r (public_keys_of reg) = Inr k
     \<and> (\<exists>ns. primary_signer_namespace (record_type r) = Some ns
            \<and> map_option rk_namespace (map_of reg k) = Some ns)"

lemma signature_key_id_Inr: "signature_key_id c reg r through gap = Inr k \<longleftrightarrow> authenticated c reg r k"
  by (auto simp: signature_key_id_def authenticated_def split: sum.splits sig_error.splits option.splits if_splits)

lemma chain_error_at_simps [simp]:
  "ce_failure (chain_error_at f r t g) = f" "ce_valid_through_sequence (chain_error_at f r t g) = t"
  "ce_fatal (chain_error_at f r t g) = (f = StreamForkError)"
  "ce_valid_through_sequence (chain_error_plain f) = None" "ce_fatal (chain_error_plain f) = False"
  "ce_failure (chain_error_plain f) = f"
  by (simp_all add: chain_error_at_def chain_error_plain_def)

lemma signature_key_id_Inl:
  "signature_key_id c reg r through gap = Inl e \<Longrightarrow>
     \<not> ce_fatal e \<and> ce_valid_through_sequence e \<in> {None, through}"
  by (auto simp: signature_key_id_def split: sum.splits sig_error.splits option.splits if_splits)

lemma signature_key_id_failure: "signature_key_id c reg r through gap = Inl e \<Longrightarrow> ce_failure e \<noteq> StreamForkError"
  by (auto simp: signature_key_id_def split: sum.splits sig_error.splits option.splits if_splits)

lemma rotation_ok_Inl:
  "rotation_ok c reg r l k through gap = Inl e \<Longrightarrow>
     \<not> ce_fatal e \<and> ce_valid_through_sequence e \<in> {None, through}"
  by (auto simp: rotation_ok_def Let_def split: option.splits pyval.splits sum.splits
      continuity_error.splits if_splits)

lemma digest_of_Inl: "digest_of c r = Inl e \<Longrightarrow> e = chain_error_plain Escapes"
  by (auto simp: digest_of_def split: sum.splits)

lemma verify_links_linked:
  assumes "verify_links c reg p k d rs = Inr (ld, lk)" and "digest_opt c p = Some d"
  shows "linked sequence prev_digest (digest_opt c) (p # rs) \<and> digest_opt c (last (p # rs)) = Some ld
    \<and> (\<forall>r \<in> set rs. \<exists>k. authenticated c reg r k)"
  using assms
proof (induction rs arbitrary: p k d)
  case (Cons r rs)
  then obtain k' d' where "sequence r = sequence p + 1" "prev_digest r = Some d"
    "authenticated c reg r k'" "digest_opt c r = Some d'" "verify_links c reg r k' d' rs = Inr (ld, lk)"
    by (auto simp: Let_def result_simps signature_key_id_Inr digest_of_Inr split: if_splits)
  with Cons.IH [of r k' d'] Cons.prems(2) show ?case by auto
qed simp

text \<open>The reported valid prefix does verify.\<close>

lemma verify_links_prefix:
  assumes "verify_links c reg p k d rs = Inl e" and "ce_valid_through_sequence e = Some n"
  shows "\<exists>pre post x. rs = pre @ post \<and> verify_links c reg p k d pre = Inr x \<and> sequence (last (p # pre)) = n"
  using assms
proof (induction rs arbitrary: p k d)
  case (Cons r rs)
  show ?case
  proof (cases "sequence p = n")
    case True
    then show ?thesis by (intro exI [of _ "[]"] exI [of _ "r # rs"] exI [of _ "(d, k)"]) simp
  next
    case False
    then obtain k' d' where step: "sequence r = sequence p + 1" "prev_digest r = Some d"
      "signature_key_id c reg r (Some (sequence p)) (Some (gap_body p r ''key_discontinuity'')) = Inr k'"
      "rotation_ok c reg r k k' (Some (sequence p)) (Some (gap_body p r ''key_discontinuity'')) = Inr ()"
      "digest_of c r = Inr d'" "verify_links c reg r k' d' rs = Inl e"
      using Cons.prems
      by (auto simp: Let_def result_simps split: if_splits
          dest!: signature_key_id_Inl rotation_ok_Inl digest_of_Inl)
    from Cons.IH [OF step(6) Cons.prems(2)] obtain pre post x where
      pre: "rs = pre @ post" "verify_links c reg r k' d' pre = Inr x" "sequence (last (r # pre)) = n"
      by blast
    show ?thesis
      using step pre by (intro exI [of _ "r # pre"] exI [of _ post] exI [of _ x]) (simp add: Let_def)
  qed
qed simp

section \<open>Fork checking\<close>

lemma fork_checked_Inr:
  assumes "fork_checked c reg kept rs = Inr m"
  shows "\<exists>new. m = kept @ new \<and> set new \<subseteq> set rs
    \<and> (distinct (map position kept) \<longrightarrow> distinct (map position m))
    \<and> (\<forall>r \<in> set rs. \<exists>r' \<in> set m. position r' = position r
         \<and> (r' = r \<or> record_id r' = record_id r \<and> digest_opt c r' = digest_opt c r))"
  using assms
proof (induction rs arbitrary: kept)
  case (Cons r rs)
  show ?case
  proof (cases "find (\<lambda>p. position p = position r) kept")
    case None
    then have free: "position r \<notin> position ` set kept" by (auto simp: find_None_iff)
    from None Cons.prems have "fork_checked c reg (kept @ [r]) rs = Inr m" by simp
    from Cons.IH [OF this] obtain new where new: "m = (kept @ [r]) @ new" "set new \<subseteq> set rs"
      "distinct (map position (kept @ [r])) \<longrightarrow> distinct (map position m)"
      "\<forall>r \<in> set rs. \<exists>r' \<in> set m. position r' = position r
         \<and> (r' = r \<or> record_id r' = record_id r \<and> digest_opt c r' = digest_opt c r)" by blast
    then show ?thesis using free by (intro exI [of _ "r # new"]) auto
  next
    case (Some p)
    then have p: "p \<in> set kept" "position p = position r" by (auto simp: find_Some_iff)
    from Some Cons.prems have same: "same_record c p r = Inr True" "fork_checked c reg kept rs = Inr m"
      by (auto simp: result_simps split: if_splits)
    from same(1) have "record_id p = record_id r \<and> digest_opt c p = digest_opt c r"
      by (auto simp: same_record_def result_simps digest_of_Inr split: if_splits)
    moreover from Cons.IH [OF same(2)] obtain new where "m = kept @ new" "set new \<subseteq> set rs"
      "distinct (map position kept) \<longrightarrow> distinct (map position m)"
      "\<forall>r \<in> set rs. \<exists>r' \<in> set m. position r' = position r
         \<and> (r' = r \<or> record_id r' = record_id r \<and> digest_opt c r' = digest_opt c r)" by auto
    ultimately show ?thesis using p by (intro exI [of _ new]) auto
  qed
qed auto

lemma fork_checked_distinct:
  "distinct (map position (kept @ rs)) \<Longrightarrow> fork_checked c reg kept rs = Inr (kept @ rs)"
proof (induction rs arbitrary: kept)
  case (Cons r rs)
  then have "position r \<notin> position ` set kept" by auto
  then have "find (\<lambda>p. position p = position r) kept = None" unfolding find_None_iff by (metis imageI)
  then show ?case using Cons.IH [of "kept @ [r]"] Cons.prems by simp
qed simp

text \<open>A selection by position is checked as the whole is.\<close>

lemma find_filter:
  "(\<And>p. P p \<Longrightarrow> Q p) \<Longrightarrow> find P (filter Q xs) = find P xs"
  by (induction xs) auto

lemma fork_checked_filter:
  assumes "fork_checked c reg kept rs = Inr m"
    and Q: "\<And>p r. position p = position r \<Longrightarrow> Q p = Q r"
  shows "fork_checked c reg (filter Q kept) (filter Q rs) = Inr (filter Q m)"
  using assms(1)
proof (induction rs arbitrary: kept)
  case (Cons r rs)
  show ?case
  proof (cases "find (\<lambda>p. position p = position r) kept")
    case None
    then have "find (\<lambda>p. position p = position r) (filter Q kept) = None"
      by (auto simp: find_None_iff)
    with None Cons.IH [of "kept @ [r]"] Cons.prems show ?thesis by (cases "Q r") simp_all
  next
    case (Some p)
    then have p: "p \<in> set kept" "position p = position r" by (auto simp: find_Some_iff)
    from Some Cons.prems have same: "same_record c p r = Inr True" "fork_checked c reg kept rs = Inr m"
      by (auto simp: result_simps split: if_splits)
    show ?thesis
    proof (cases "Q r")
      case True
      have "find (\<lambda>p. position p = position r) (filter Q kept) = find (\<lambda>p. position p = position r) kept"
        by (rule find_filter) (metis Q True)
      then have "find (\<lambda>p. position p = position r) (filter Q kept) = Some p" using Some by simp
      with True same Cons.IH show ?thesis by simp
    next
      case False
      with same Cons.IH show ?thesis by simp
    qed
  qed
qed simp

section \<open>Verified streams\<close>

lemma verify_ordered_Inr:
  assumes "verify_ordered c reg (r # rs) = Inr v"
  obtains ns k d lk where "primary_signer_namespace (record_type r) = Some ns"
    "one_namespace (Some ns) rs = Inr ()" "sequence r = 1" "prev_digest r = None"
    "authenticated c reg r k" "member (signature r) ''key_continuity'' = None"
    "digest_opt c r = Some d" "verify_links c reg r k d rs = Inr (cr_last_digest v, lk)"
    "v = \<lparr>cr_stream_id = stream_id r, cr_start_sequence = 1, cr_end_sequence = sequence (last (r # rs)),
       cr_last_digest = cr_last_digest v, cr_last_key_id = lk, cr_records = r # rs\<rparr>"
  using assms that
  by (auto simp: verify_ordered_def Let_def result_simps signature_key_id_Inr digest_of_Inr
      split: option.splits if_splits)

lemma one_namespace_Inr:
  "one_namespace ns rs = Inr u \<longleftrightarrow> (\<forall>r \<in> set rs. primary_signer_namespace (record_type r) = ns \<and> ns \<noteq> None)"
  by (induction ns rs rule: one_namespace.induct) (auto split: option.splits)

lemma one_namespace_Inl:
  "one_namespace ns rs = Inl e \<Longrightarrow> \<not> ce_fatal e \<and> ce_valid_through_sequence e = None"
  by (induction ns rs rule: one_namespace.induct) (auto split: option.splits if_splits)

lemma verify_links_Inl: "verify_links c reg p k d rs = Inl e \<Longrightarrow> \<not> ce_fatal e"
  by (induction rs arbitrary: p k d)
    (auto simp: Let_def result_simps split: if_splits
      dest!: signature_key_id_Inl rotation_ok_Inl digest_of_Inl)

lemma verify_ordered_Inl: "verify_ordered c reg ordered = Inl e \<Longrightarrow> \<not> ce_fatal e"
  by (auto simp: verify_ordered_def Let_def result_simps split: option.splits if_splits
      dest!: signature_key_id_Inl one_namespace_Inl digest_of_Inl verify_links_Inl)

lemma single_stream:
  assumes "card (set (map stream_id m)) = 1" "r \<in> set m" "r' \<in> set m"
  shows "stream_id r = stream_id r'"
proof -
  obtain s where s: "set (map stream_id m) = {s}" using assms(1) by (rule card_1_singletonE)
  have "stream_id r \<in> set (map stream_id m)" "stream_id r' \<in> set (map stream_id m)"
    using assms(2,3) by simp_all
  then show ?thesis unfolding s by simp
qed

lemma single_stream_filter:
  assumes "card (set (map stream_id m)) = 1" "filter Q m \<noteq> []"
  shows "card (set (map stream_id (filter Q m))) = 1"
proof -
  obtain s where s: "set (map stream_id m) = {s}" using assms(1) by (rule card_1_singletonE)
  then have "set (map stream_id (filter Q m)) \<subseteq> {s}" by auto
  moreover have "set (map stream_id (filter Q m)) \<noteq> {}" using assms(2) by (simp del: set_filter)
  ultimately have "set (map stream_id (filter Q m)) = {s}" by (simp only: subset_singleton_iff) simp
  then show ?thesis by simp
qed

lemma same_position_same_sequence:
  "position r = position r' \<longleftrightarrow> stream_id r = stream_id r' \<and> sequence r = sequence r'"
  by (simp add: position_def)

lemma single_stream_distinct:
  assumes "card (set (map stream_id m)) = 1" "distinct (map position m)"
  shows "distinct (map sequence m)" "inj_on sequence (set m)"
proof -
  have "inj_on position (set m)" "distinct m" using assms(2) by (simp_all add: distinct_map)
  moreover from this show "inj_on sequence (set m)"
    unfolding inj_on_def same_position_same_sequence using single_stream [OF assms(1)] by blast
  ultimately show "distinct (map sequence m)" by (simp add: distinct_map)
qed

lemma verify_evidence_stream_Inr:
  assumes "verify_evidence_stream c reg rs = Inr v"
  obtains m where "fork_checked c reg [] rs = Inr m" "m \<noteq> []" "card (set (map stream_id m)) = 1"
    "distinct (map position m)" "verify_ordered c reg (sort_key sequence m) = Inr v"
proof -
  obtain m where m: "fork_checked c reg [] rs = Inr m" "m \<noteq> []" "card (set (map stream_id m)) = 1"
    "verify_ordered c reg (sort_key sequence m) = Inr v"
    using assms by (auto simp: verify_evidence_stream_def result_simps split: if_splits)
  moreover have "distinct (map position m)" using fork_checked_Inr [OF m(1)] by auto
  ultimately show thesis using that by blast
qed

text \<open>The stream digests as a hash-linked sequence.\<close>

definition record_bytes_distinct :: "('sk, 'pk) crypto \<Rightarrow> evidence_record \<Rightarrow> evidence_record \<Rightarrow> bool" where
  "record_bytes_distinct c r r' \<longleftrightarrow>
     crypto_ok c \<and> wf_value (PDict (record_members r)) \<and> wf_value (PDict (record_members r'))
     \<and> (\<forall>b b'. serialize_record r = Inr b \<and> serialize_record r' = Inr b'
          \<and> sha256 c b = sha256 c b' \<longrightarrow> b = b')"

definition record_content :: "evidence_record \<Rightarrow> pyval" where
  "record_content r = norm_value (PDict (record_members r))"

lemma digest_opt_Some: "digest_opt c r = Some d \<longleftrightarrow> (\<exists>b. serialize_record r = Inr b \<and> d = digest_text (sha256 c) b)"
  by (auto simp: digest_opt_def record_digest_def serialize_record_def canonical_digest_def result_simps
      split: sum.splits)

lemma digest_commits:
  assumes "record_bytes_distinct c r r'" "digest_opt c r = Some d" "digest_opt c r' = Some d"
  shows "record_content r = record_content r' \<and> prev_digest r = prev_digest r'"
proof -
  have c: "crypto_ok c" and wf: "wf_value (PDict (record_members r))" "wf_value (PDict (record_members r'))"
    and nc: "\<And>b b'. serialize_record r = Inr b \<Longrightarrow> serialize_record r' = Inr b' \<Longrightarrow>
        sha256 c b = sha256 c b' \<Longrightarrow> b = b'"
    using assms(1) unfolding record_bytes_distinct_def by blast+
  obtain b b' where b: "serialize_record r = Inr b" "serialize_record r' = Inr b'"
    and "digest_text (sha256 c) b = digest_text (sha256 c) b'"
    using assms(2,3) by (auto simp: digest_opt_Some)
  then have "sha256 c b = sha256 c b'"
    by (intro digest_text_inj [where sha = "sha256 c"] crypto_okD(2) [OF c])
  then have "b' = b" using nc [OF b] by simp
  then have norm: "norm_value (PDict (record_members r)) = norm_value (PDict (record_members r'))"
    using b wf unfolding serialize_record_def by (intro canonicalize_inj [of _ b]) simp_all
  then have dict: "norm_dict (record_members r) = norm_dict (record_members r')"
    unfolding norm_value_PDict by (rule pyval.inject(5) [THEN iffD1])
  have "map_option norm_value (member (record_members r) ''prev_digest'')
      = map_option norm_value (member (record_members r') ''prev_digest'')"
    unfolding member_norm_dict [OF wf(1), symmetric] member_norm_dict [OF wf(2), symmetric] dict ..
  then show ?thesis using norm by (simp add: record_content_def member_record_members del: norm_value.simps)
qed

interpretation chain: hash_linked sequence prev_digest "digest_opt c" record_content "record_bytes_distinct c"
  for c :: "('sk, 'pk) crypto"
  by unfold_locales (rule digest_commits)

lemma accepted_stream:
  assumes "verify_evidence_stream c reg rs = Inr v"
  shows "linked sequence prev_digest (digest_opt c) (cr_records v)" "cr_records v \<noteq> []"
    "prev_digest (hd (cr_records v)) = None" "sequence (hd (cr_records v)) = 1"
    "digest_opt c (last (cr_records v)) = Some (cr_last_digest v)"
    "\<forall>r \<in> set (cr_records v). \<exists>k. authenticated c reg r k"
    "\<forall>r \<in> set (cr_records v). stream_id r = cr_stream_id v
       \<and> primary_signer_namespace (record_type r) = primary_signer_namespace (record_type (hd (cr_records v)))"
    "set (cr_records v) \<subseteq> set rs"
    "\<forall>r \<in> set rs. \<exists>r' \<in> set (cr_records v). position r' = position r
       \<and> record_id r' = record_id r \<and> digest_opt c r' = digest_opt c r"
    "cr_end_sequence v = sequence (last (cr_records v))"
proof -
  obtain m where m: "fork_checked c reg [] rs = Inr m" "m \<noteq> []" "card (set (map stream_id m)) = 1"
    "verify_ordered c reg (sort_key sequence m) = Inr v"
    by (rule verify_evidence_stream_Inr [OF assms])
  obtain r qs where ord: "sort_key sequence m = r # qs"
    using m(2) by (cases "sort_key sequence m") (auto dest: arg_cong [where f = length])
  have set: "set (r # qs) = set m" using ord by (metis set_sort)
  obtain ns k d lk where v: "primary_signer_namespace (record_type r) = Some ns"
    "one_namespace (Some ns) qs = Inr ()" "sequence r = 1" "prev_digest r = None"
    "authenticated c reg r k" "digest_opt c r = Some d"
    "verify_links c reg r k d qs = Inr (cr_last_digest v, lk)"
    "v = \<lparr>cr_stream_id = stream_id r, cr_start_sequence = 1, cr_end_sequence = sequence (last (r # qs)),
       cr_last_digest = cr_last_digest v, cr_last_key_id = lk, cr_records = r # qs\<rparr>"
    by (rule verify_ordered_Inr [OF m(4) [unfolded ord]])
  have rec: "cr_records v = r # qs" "cr_stream_id v = stream_id r"
    "cr_end_sequence v = sequence (last (r # qs))" by (subst v(8), simp)+
  note links = verify_links_linked [OF v(7,6)]
  show "linked sequence prev_digest (digest_opt c) (cr_records v)" "cr_records v \<noteq> []"
    "prev_digest (hd (cr_records v)) = None" "sequence (hd (cr_records v)) = 1"
    "digest_opt c (last (cr_records v)) = Some (cr_last_digest v)"
    "cr_end_sequence v = sequence (last (cr_records v))"
    using links v(3,4) by (simp_all add: rec)
  show "\<forall>r \<in> set (cr_records v). \<exists>k. authenticated c reg r k"
    using links v(5) by (auto simp: rec)
  have "\<forall>q \<in> set (r # qs). stream_id q = stream_id r"
    using single_stream [OF m(3)] set by (metis list.set_intros(1))
  then show "\<forall>r \<in> set (cr_records v). stream_id r = cr_stream_id v
       \<and> primary_signer_namespace (record_type r) = primary_signer_namespace (record_type (hd (cr_records v)))"
    using v(1,2) by (simp add: rec one_namespace_Inr)
  note fork = fork_checked_Inr [OF m(1)]
  show "set (cr_records v) \<subseteq> set rs" using fork set by (auto simp: rec)
  show "\<forall>r \<in> set rs. \<exists>r' \<in> set (cr_records v). position r' = position r
       \<and> record_id r' = record_id r \<and> digest_opt c r' = digest_opt c r"
    using fork unfolding rec set by fastforce
qed

section \<open>Arrival order\<close>

lemma stream_of_distinct:
  assumes "distinct (map position rs)"
  shows "verify_evidence_stream c reg rs =
    (if rs = [] then Inl (chain_error_plain ChainVerificationError)
     else if card (set (map stream_id rs)) \<noteq> 1 then Inl (chain_error_plain ChainVerificationError)
     else verify_ordered c reg (sort_key sequence rs))"
  using fork_checked_distinct [of "[]" rs c reg] assms by (simp add: verify_evidence_stream_def)

lemma verify_permuted:
  assumes d: "distinct (map position rs)" and p: "mset rs' = mset rs"
  shows "verify_evidence_stream c reg rs' = verify_evidence_stream c reg rs"
proof -
  have "mset (map position rs') = mset (map position rs)" using p by simp
  then have d': "distinct (map position rs')" using d by (metis mset_eq_imp_distinct_iff)
  have s: "set rs' = set rs" using p by (rule mset_eq_setD)
  have e: "rs' = [] \<longleftrightarrow> rs = []" using p by auto
  have "sort_key sequence rs' = sort_key sequence rs" if "card (set (map stream_id rs)) = 1"
    by (rule sort_key_unique [OF p]) (use single_stream_distinct(2) [OF that d] s in simp)
  then show ?thesis unfolding stream_of_distinct [OF d] stream_of_distinct [OF d'] by (simp add: e s)
qed

text \<open>Copies and order of arrival do not matter.\<close>

lemma fork_checked_copies:
  assumes "set rs \<subseteq> S" "set kept \<subseteq> S" "inj_on position S" "\<forall>r \<in> S. digest_opt c r \<noteq> None" "distinct kept"
  shows "\<exists>m. fork_checked c reg kept rs = Inr m \<and> distinct m \<and> set m = set kept \<union> set rs"
  using assms(1,2,5)
proof (induction rs arbitrary: kept)
  case (Cons r rs)
  show ?case
  proof (cases "r \<in> set kept")
    case True
    obtain p where p: "find (\<lambda>p. position p = position r) kept = Some p"
      using True by (cases "find (\<lambda>p. position p = position r) kept") (auto simp: find_None_iff)
    then have "p \<in> set kept" "position p = position r" by (auto simp: find_Some_iff)
    then have "p = r" using assms(3) Cons.prems by (auto dest: inj_onD)
    moreover obtain d where "digest_opt c r = Some d" using assms(4) Cons.prems by auto
    then have "same_record c r r = Inr True" by (simp add: same_record_def digest_of_Inr [symmetric])
    ultimately show ?thesis using Cons.IH [of kept] Cons.prems p True by (auto simp: insert_absorb)
  next
    case False
    have "find (\<lambda>p. position p = position r) kept = None"
      using assms(3) Cons.prems False by (auto simp: find_None_iff dest: inj_onD)
    then show ?thesis using Cons.IH [of "kept @ [r]"] Cons.prems False by auto
  qed
qed auto

lemma verify_same_records:
  assumes "set rs' = set rs" and pos: "inj_on position (set rs)" and dig: "\<forall>r \<in> set rs. digest_opt c r \<noteq> None"
  shows "verify_evidence_stream c reg rs' = verify_evidence_stream c reg rs"
proof -
  obtain m where m: "fork_checked c reg [] rs = Inr m" "distinct m" "set m = set rs"
    using fork_checked_copies [of rs "set rs" "[]" c reg] pos dig by auto
  obtain m' where m': "fork_checked c reg [] rs' = Inr m'" "distinct m'" "set m' = set rs"
    using fork_checked_copies [of rs' "set rs" "[]" c reg] pos dig assms(1) by auto
  have p: "mset m' = mset m" using m(2,3) m'(2,3) by (simp add: set_eq_iff_mset_eq_distinct [symmetric])
  have "sort_key sequence m' = sort_key sequence m" if "card (set (map stream_id m)) = 1"
  proof (rule sort_key_unique [OF p])
    obtain x where "set (map stream_id m) = {x}" using \<open>card (set (map stream_id m)) = 1\<close> by (rule card_1_singletonE)
    then have "\<forall>r \<in> set rs. stream_id r = x" using m(3) by auto
    then show "inj_on sequence (set m')" using pos m'(3) by (auto simp: inj_on_def position_def)
  qed
  moreover have "m' = [] \<longleftrightarrow> m = []" using m(3) m'(3) by (metis set_empty)
  moreover have "set (map stream_id m') = set (map stream_id m)" using m(3) m'(3) by simp
  ultimately show ?thesis using m(1) m'(1) by (simp add: verify_evidence_stream_def)
qed

section \<open>The valid prefix\<close>

lemma fork_checked_Inl:
  "fork_checked c reg kept rs = Inl e \<Longrightarrow> ce_valid_through_sequence e = None"
proof (induction rs arbitrary: kept)
  case (Cons r rs)
  show ?case
  proof (cases "find (\<lambda>p. position p = position r) kept")
    case (Some p)
    with Cons.prems consider "same_record c p r = Inl e" | "fork_checked c reg kept rs = Inl e"
      | "signature_key_id c reg p None None = Inl e" | "signature_key_id c reg r None None = Inl e"
      | "e = chain_error_at StreamForkError r None None"
      by (auto simp: result_simps split: if_splits)
    then show ?thesis
    proof cases
      case 1
      then show ?thesis by (auto simp: same_record_def result_simps split: if_splits dest!: digest_of_Inl)
    qed (use Cons.IH in \<open>auto dest: signature_key_id_Inl\<close>)
  qed (use Cons in simp)
qed simp

lemma valid_prefix:
  assumes "verify_evidence_stream c reg rs = Inl e" and "ce_valid_through_sequence e = Some n"
  shows "\<exists>v. verify_evidence_stream c reg (filter (\<lambda>r. sequence r \<le> n) rs) = Inr v \<and> cr_end_sequence v = n"
proof -
  let ?Q = "\<lambda>r. sequence r \<le> n"
  obtain m where m: "fork_checked c reg [] rs = Inr m" "m \<noteq> []" "card (set (map stream_id m)) = 1"
    and ordered: "verify_ordered c reg (sort_key sequence m) = Inl e"
    using assms fork_checked_Inl [of c reg "[]" rs e]
    by (auto simp: verify_evidence_stream_def result_simps split: if_splits)
  have dist: "distinct (map position m)" using fork_checked_Inr [OF m(1)] by auto
  obtain r qs where ord: "sort_key sequence m = r # qs"
    using m(2) by (cases "sort_key sequence m") (auto dest: arg_cong [where f = length])
  have links: "\<exists>ns k d. primary_signer_namespace (record_type r) = Some ns \<and> one_namespace (Some ns) qs = Inr ()
      \<and> sequence r = 1 \<and> prev_digest r = None \<and> signature_key_id c reg r None None = Inr k
      \<and> member (signature r) ''key_continuity'' = None \<and> digest_of c r = Inr d
      \<and> verify_links c reg r k d qs = Inl e"
    using ordered assms(2) unfolding ord
    by (auto simp: verify_ordered_def Let_def result_simps split: option.splits if_splits
        dest!: signature_key_id_Inl one_namespace_Inl digest_of_Inl)
  then obtain ns k d where start: "primary_signer_namespace (record_type r) = Some ns"
    "one_namespace (Some ns) qs = Inr ()" "sequence r = 1" "prev_digest r = None"
    "signature_key_id c reg r None None = Inr k" "member (signature r) ''key_continuity'' = None"
    "digest_of c r = Inr d" and fail: "verify_links c reg r k d qs = Inl e" by blast
  from verify_links_prefix [OF fail assms(2)] obtain pre post x where
    pre: "qs = pre @ post" "verify_links c reg r k d pre = Inr x" "sequence (last (r # pre)) = n" by blast
  have sorted: "sorted (map sequence (r # pre @ post))"
    using sorted_sort_key [of sequence m] by (simp only: ord pre(1))
  have distinct_seq: "distinct (map sequence (r # pre @ post))"
  proof -
    have "mset (map sequence (sort_key sequence m)) = mset (map sequence m)" by simp
    then show ?thesis
      using single_stream_distinct(1) [OF m(3) dist] unfolding ord pre(1) by (metis mset_eq_imp_distinct_iff)
  qed
  have strict: "sequence p \<le> n" if "p \<in> set (r # pre)" for p
    using sorted pre(3) that by (cases pre rule: rev_cases) (auto simp: sorted_append)
  have "n < sequence p" if "p \<in> set post" for p
  proof -
    have "n \<in> set (map sequence (r # pre))"
      unfolding pre(3) [symmetric] set_map by (intro imageI) simp
    moreover have "sequence p \<in> set (map sequence post)" using that by simp
    moreover have "sorted (map sequence (r # pre) @ map sequence post)"
      and "distinct (map sequence (r # pre) @ map sequence post)"
      using sorted distinct_seq by simp_all
    ultimately have "n \<le> sequence p" "n \<noteq> sequence p"
      unfolding sorted_append distinct_append by blast+
    then show ?thesis by simp
  qed
  then have "filter ?Q (r # pre @ post) = r # pre"
    using strict by (auto simp: filter_id_conv filter_empty_conv not_le)
  then have ord': "sort_key sequence (filter ?Q m) = r # pre"
    by (metis filter_sort ord pre(1))
  have fork: "fork_checked c reg [] (filter ?Q rs) = Inr (filter ?Q m)"
    using fork_checked_filter [OF m(1), of ?Q] by (simp add: position_def)
  have ne: "filter ?Q m \<noteq> []" using ord' by auto
  have "card (set (map stream_id (filter ?Q m))) = 1" by (rule single_stream_filter [OF m(3) ne])
  moreover have "one_namespace (Some ns) pre = Inr ()" using start(2) by (simp add: one_namespace_Inr pre(1))
  ultimately show ?thesis
    using fork ne ord' start pre(2,3) by (cases x) (simp add: verify_evidence_stream_def verify_ordered_def Let_def)
qed

section \<open>Forks\<close>

lemma fork_checked_append:
  "fork_checked c reg kept (xs @ ys) = rbind (fork_checked c reg kept xs) (\<lambda>m. fork_checked c reg m ys)"
proof (induction xs arbitrary: kept)
  case (Cons x xs)
  then show ?case
    by (cases "find (\<lambda>p. position p = position x) kept")
      (auto simp: rbind_def split: sum.split)
qed simp

lemma fork_checked_fatal:
  assumes "fork_checked c reg kept rs = Inl e"
    and "\<forall>r \<in> set (kept @ rs). (\<exists>k. authenticated c reg r k) \<and> digest_opt c r \<noteq> None"
  shows "ce_failure e = StreamForkError \<and> ce_fatal e"
  using assms
proof (induction rs arbitrary: kept)
  case (Cons r rs)
  show ?case
  proof (cases "find (\<lambda>p. position p = position r) kept")
    case None
    with Cons.prems show ?thesis by (intro Cons.IH [of "kept @ [r]"]) auto
  next
    case (Some p)
    then have "p \<in> set kept" by (auto simp: find_Some_iff)
    then obtain k k' d d' where "authenticated c reg p k" "authenticated c reg r k'"
      "digest_opt c p = Some d" "digest_opt c r = Some d'"
      using Cons.prems(2) by fastforce
    with Some Cons show ?thesis
      by (auto simp: same_record_def result_simps
          simp flip: signature_key_id_Inr [where through = None and gap = None] digest_of_Inr
          split: if_splits)
  qed
qed simp

lemma stream_fork:
  assumes all: "\<forall>r \<in> set rs. (\<exists>k. authenticated c reg r k) \<and> digest_opt c r \<noteq> None"
    and two: "r \<in> set rs" "r' \<in> set rs" "position r = position r'" "digest_opt c r \<noteq> digest_opt c r'"
  shows "\<exists>e. verify_evidence_stream c reg rs = Inl e \<and> ce_failure e = StreamForkError
    \<and> \<not> attestation_permitted e"
proof (cases "fork_checked c reg [] rs")
  case (Inl e)
  then show ?thesis
    using fork_checked_fatal [OF Inl] all by (simp add: verify_evidence_stream_def attestation_permitted_def)
next
  case (Inr m)
  note f = fork_checked_Inr [OF Inr]
  have dist: "distinct (map position m)" using f by auto
  obtain p where p: "p \<in> set m" "position p = position r" "digest_opt c p = digest_opt c r"
    using f two(1) by blast
  obtain p' where p': "p' \<in> set m" "position p' = position r'" "digest_opt c p' = digest_opt c r'"
    using f two(2) by blast
  have "p = p'"
    using dist p(1,2) p'(1,2) two(3) unfolding distinct_map by (metis inj_onD)
  then show ?thesis using p p' two(4) by simp
qed

lemma portable_respell:
  assumes "portable (PDict (record_members r))"
  shows "portable (PDict (record_members (respell_record r)))"
proof (rule record_members_value(2))
  show "portable (PDict (unsigned_mapping (respell_record r)))"
    using assms by (simp add: record_members_def)
  have "list_all (\<lambda>c. \<not> is_surrogate c) (respell s)" if "list_all (\<lambda>c. \<not> is_surrogate c) s" for s
    using that by (auto simp: respell_def list_all_iff b64_char_def is_surrogate_def dest!: in_set_butlastD)
  then have "list_all (\<lambda>c. \<not> is_surrogate c) (respell (str_of (Some v)))" if "portable v" for v
    using that by (cases v) (simp_all add: str_of_def)
  then show "portable (PDict (signature (respell_record r)))"
    using assms by (auto simp: record_members_def respell_record_def list_all_iff)
qed

lemma authenticated_respell: "authenticated c reg r k \<Longrightarrow> authenticated c reg (respell_record r) k"
  by (auto simp: authenticated_def verify_respell)

text \<open>The hypotheses under which a respelled record is another record for the fork check.\<close>

lemma respelled_digest:
  assumes c: "crypto_ok c" and a: "authenticated c reg r k" and wf: "wf_value (PDict (record_members r))"
    and d: "digest_opt c r = Some d"
    and nc: "\<forall>b b'. serialize_record r = Inr b \<and> serialize_record (respell_record r) = Inr b'
        \<and> sha256 c b = sha256 c b' \<longrightarrow> b = b'"
  shows "\<exists>d'. digest_opt c (respell_record r) = Some d' \<and> d' \<noteq> d"
proof -
  obtain b where b: "serialize_record r = Inr b" and db: "d = digest_text (sha256 c) b"
    using d by (auto simp: digest_opt_Some)
  then have "portable (PDict (record_members r))"
    by (auto simp: serialize_record_def canonicalize_def result_simps simp flip: serialize_ok_iff)
  then obtain b' where b': "serialize_record (respell_record r) = Inr b'"
    using portable_respell [of r] serialize_ok_iff [of "PDict (record_members (respell_record r))"]
    by (auto simp: serialize_record_def canonicalize_def)
  have "verify_record_signature c r (public_keys_of reg) = Inr k" using a by (simp add: authenticated_def)
  then obtain pf where "decode_base64url (member (signature r) ''sig'') 64 = Some pf"
    by (rule verify_record_signature_Inr) (rule that)
  from respell_bytes [OF wf this b] have "b' \<noteq> b" using b' by simp
  then have "digest_text (sha256 c) b' \<noteq> d"
    using nc b b' digest_text_inj [of "sha256 c" b b'] crypto_okD(2) [OF c] db by metis
  then show ?thesis using b' by (auto simp: digest_opt_Some)
qed

section \<open>Properties\<close>

text \<open>
  C1: what acceptance of an evidence stream establishes: the records run from sequence 1 without a
  gap, the first names no predecessor and each later one names the digest of the complete record
  before it, all are of one stream and of one signer namespace, every signature verifies under a
  registered key of that namespace, and every submitted record is one of them or a copy with the same
  identity and digest.
\<close>

theorem accepted_stream_is_chain:
  assumes "verify_evidence_stream c reg rs = Inr v"
  shows "map sequence (cr_records v) = [1 .. int (length (cr_records v))]
    \<and> linked sequence prev_digest (digest_opt c) (cr_records v) \<and> prev_digest (hd (cr_records v)) = None
    \<and> (\<forall>r \<in> set (cr_records v). r \<in> set rs \<and> stream_id r = cr_stream_id v
         \<and> primary_signer_namespace (record_type r) = primary_signer_namespace (record_type (hd (cr_records v)))
         \<and> (\<exists>k. authenticated c reg r k))
    \<and> (\<forall>r \<in> set rs. \<exists>r' \<in> set (cr_records v). position r' = position r
         \<and> record_id r' = record_id r \<and> digest_opt c r' = digest_opt c r)"
proof -
  note a = accepted_stream [OF assms]
  obtain r qs where rec: "cr_records v = r # qs" using a(2) by (cases "cr_records v") auto
  have "map sequence (cr_records v) = [1 .. int (length (cr_records v))]"
    using linked_sequence [of sequence prev_digest "digest_opt c" r qs] a(1,4) by (simp add: rec)
  then show ?thesis using a(1,3,6-9) by blast
qed

text \<open>
  C2: the head digest of a verified stream commits to its whole history: two accepted streams with
  the same last digest hold, record for record, the same content (up to member order), provided
  SHA-256 does not collide on the bytes of the records compared.
\<close>

theorem stream_head_commits_history:
  assumes "verify_evidence_stream c reg rs = Inr v" "verify_evidence_stream c reg' rs' = Inr v'"
    and "cr_last_digest v = cr_last_digest v'"
    and "\<forall>x \<in> set (cr_records v). \<forall>y \<in> set (cr_records v'). record_bytes_distinct c x y"
  shows "map record_content (cr_records v) = map record_content (cr_records v')"
proof -
  note a = accepted_stream [OF assms(1)] and b = accepted_stream [OF assms(2)]
  show ?thesis
    by (rule chain.head_commits [OF a(1) b(1) a(2) b(2) a(3) b(3) a(5) _ assms(4)])
      (use b(5) assms(3) in simp)
qed

text \<open>
  C20: as long as no two different records claim one position, and every record has a canonical form, the
  verdict on a stream depends only on which records were delivered: it is the same, acceptance and
  error alike, in whatever order and however often each of them arrives.  (When two different
  records do clash, the first clash in order of arrival decides.)
\<close>

theorem arrival_order_irrelevant:
  assumes "set rs' = set rs" and "inj_on position (set rs)" and "\<forall>r \<in> set rs. digest_opt c r \<noteq> None"
  shows "verify_evidence_stream c reg rs' = verify_evidence_stream c reg rs"
  by (rule verify_same_records [OF assms])

text \<open>
  C19: a break that reports a last valid sequence is right about it: the submitted records up to that
  sequence verify on their own and end exactly there, so an attestation window may stop at it.
\<close>

theorem valid_prefix_verifies:
  assumes "verify_evidence_stream c reg rs = Inl e" and "ce_valid_through_sequence e = Some n"
  shows "\<exists>v. verify_evidence_stream c reg (filter (\<lambda>r. sequence r \<le> n) rs) = Inr v \<and> cr_end_sequence v = n"
  by (rule valid_prefix [OF assms])

text \<open>
  C17: in a stream of authenticated records equivocation is fatal: when every submitted record is signed
  by a permitted key and two of them claim one position with different digests, the stream is refused
  as a fork and no attestation is permitted.
\<close>

theorem authenticated_fork_is_fatal:
  assumes "\<forall>r \<in> set rs. (\<exists>k. authenticated c reg r k) \<and> digest_opt c r \<noteq> None"
    and "r \<in> set rs" "r' \<in> set rs" "position r = position r'" "digest_opt c r \<noteq> digest_opt c r'"
  shows "\<exists>e. verify_evidence_stream c reg rs = Inl e \<and> ce_failure e = StreamForkError
    \<and> \<not> attestation_permitted e"
  by (rule stream_fork [OF assms])

text \<open>
  C18: a forged record hides an equivocation.  The first clash at a position decides, and it ends the check
  with the error of its first record that does not authenticate.  So a fork among authenticated
  records, which is fatal as it stands, is no longer reported, and an attestation is permitted, once
  a record that nobody signed arrives right behind the first of them at the same position.
\<close>

theorem forged_record_masks_fork:
  assumes "\<forall>q \<in> set (r # rs). (\<exists>k. authenticated c reg q k) \<and> digest_opt c q \<noteq> None"
    and "r' \<in> set rs" "position r' = position r" "digest_opt c r' \<noteq> digest_opt c r"
    and "position x = position r" "record_id x \<noteq> record_id r" "\<not> (\<exists>k. authenticated c reg x k)"
  shows "(\<exists>e. verify_evidence_stream c reg (r # rs) = Inl e \<and> ce_failure e = StreamForkError \<and> \<not> attestation_permitted e)
    \<and> (\<exists>e. verify_evidence_stream c reg (r # x # rs) = Inl e \<and> ce_failure e \<noteq> StreamForkError \<and> attestation_permitted e)"
proof
  show "\<exists>e. verify_evidence_stream c reg (r # rs) = Inl e \<and> ce_failure e = StreamForkError \<and> \<not> attestation_permitted e"
    by (rule stream_fork [OF assms(1), of r r']) (use assms(2-4) in auto)
  obtain k where "signature_key_id c reg r None None = Inr k" using assms(1) by (auto simp: signature_key_id_Inr)
  moreover obtain e where e: "signature_key_id c reg x None None = Inl e"
    using assms(7) by (cases "signature_key_id c reg x None None") (auto simp: signature_key_id_Inr)
  moreover have "\<not> ce_fatal e" "ce_failure e \<noteq> StreamForkError" using signature_key_id_Inl [OF e] signature_key_id_failure [OF e] by simp_all
  moreover have "same_record c r x = Inr False" using assms(6) by (simp add: same_record_def)
  ultimately show "\<exists>e. verify_evidence_stream c reg (r # x # rs) = Inl e \<and> ce_failure e \<noteq> StreamForkError \<and> attestation_permitted e"
    using assms(5) by (simp add: verify_evidence_stream_def attestation_permitted_def)
qed

text \<open>
  C29: fork detection can be triggered without a key.  If a stream is accepted, appending a copy of
  any of its records whose proof is respelled (the unused low bits of the last base64url symbol)
  makes the verifier refuse the whole stream as a fatal fork, provided SHA-256 does not collide on
  the two spellings: the copy authenticates, but its complete-record digest differs.
\<close>

theorem respelled_proof_forks_stream:
  assumes "crypto_ok c" and "verify_evidence_stream c reg rs = Inr v" and "r \<in> set (cr_records v)"
    and "wf_value (PDict (record_members r))"
    and "\<forall>b b'. serialize_record r = Inr b \<and> serialize_record (respell_record r) = Inr b'
        \<and> sha256 c b = sha256 c b' \<longrightarrow> b = b'"
  shows "\<exists>e. verify_evidence_stream c reg (rs @ [respell_record r]) = Inl e
    \<and> ce_failure e = StreamForkError \<and> \<not> attestation_permitted e"
proof -
  note a = accepted_stream [OF assms(2)]
  obtain m where m: "fork_checked c reg [] rs = Inr m" "distinct (map position m)"
    and ord: "verify_ordered c reg (sort_key sequence m) = Inr v"
    by (rule verify_evidence_stream_Inr [OF assms(2)])
  have rec: "cr_records v = sort_key sequence m"
    using ord by (auto simp: verify_ordered_def Let_def result_simps split: option.splits if_splits)
  then have r: "r \<in> set m" using assms(3) by simp
  obtain k where k: "authenticated c reg r k" using a(6) assms(3) by blast
  have "digest_opt c r \<noteq> None"
  proof (cases "r = last (cr_records v)")
    case False
    then obtain i where "Suc i < length (cr_records v)" "r = cr_records v ! i"
      using assms(3) by (metis One_nat_def Suc_lessI diff_Suc_1 in_set_conv_nth last_conv_nth list.size(3) not_less_zero)
    then show ?thesis using linked_nth [OF a(1)] by simp
  qed (use a(5) in simp)
  then obtain d where d: "digest_opt c r = Some d" by blast
  obtain d' where d': "digest_opt c (respell_record r) = Some d'" "d' \<noteq> d"
    using respelled_digest [OF assms(1) k assms(4) d assms(5)] by blast
  have "find (\<lambda>p. position p = position (respell_record r)) m = Some r"
  proof -
    obtain p where p: "find (\<lambda>p. position p = position (respell_record r)) m = Some p"
      using r by (cases "find (\<lambda>p. position p = position (respell_record r)) m")
        (auto simp: find_None_iff position_def)
    then have "p \<in> set m" "position p = position r" by (auto simp: find_Some_iff position_def)
    then have "p = r" using m(2) r by (auto simp: distinct_map dest: inj_onD)
    with p show ?thesis by simp
  qed
  moreover have "same_record c r (respell_record r) = Inr False"
    using d d' by (simp add: same_record_def digest_of_def digest_opt_def split: sum.splits)
  moreover have "signature_key_id c reg r None None = Inr k"
    "signature_key_id c reg (respell_record r) None None = Inr k"
    using k authenticated_respell [OF k] by (simp_all add: signature_key_id_Inr)
  ultimately have "fork_checked c reg [] (rs @ [respell_record r])
      = Inl (chain_error_at StreamForkError (respell_record r) None None)"
    using m(1) by (simp add: fork_checked_append)
  then show ?thesis by (simp add: verify_evidence_stream_def attestation_permitted_def)
qed

text \<open>
  C28: a continuity assertion created by the predecessor key for a rotation verifies for exactly that
  rotation: the same predecessor, new key, tenant and stream.
\<close>

theorem continuity_roundtrip:
  assumes "crypto_ok c"
    and "create_key_continuity c predecessor_id sk new_id new_key tenant stream = Inr a"
  shows "verify_key_continuity c a p (ed_public c sk) n nk t s = Inr () \<longleftrightarrow>
    p = predecessor_id \<and> n = new_id \<and> ed_raw c nk = ed_raw c new_key \<and> t = tenant \<and> s = stream"
proof -
  let ?raw = "encode_base64url (ed_raw c new_key)"
  let ?payload = "continuity_dict ALGORITHM predecessor_id new_id ?raw tenant stream"
  obtain b where b: "continuity_bytes ?payload = Inr b"
    and a: "a = ?payload @ [(KStr (str ''sig''), PStr (encode_base64url (ed_sign c sk b)))]"
    using assms(2) by (auto simp: create_key_continuity_def continuity_payload_def result_simps split: if_splits)
  note ok = crypto_okD [OF assms(1)]
  have raw: "decode_base64url (Some (PStr ?raw)) 32 = Some (ed_raw c new_key)"
    using decode_encode_base64url [OF ok(7), of new_key 32] ok(6) [of new_key] by fastforce
  have sig: "decode_base64url (Some (PStr (encode_base64url (ed_sign c sk b)))) 64 = Some (ed_sign c sk b)"
    using decode_encode_base64url [OF ok(4), of sk b 64] ok(3) [of sk b] by fastforce
  have m: "member a ''alg'' = Some (PStr ALGORITHM)"
    "member a ''predecessor_key_id'' = Some (PStr predecessor_id)"
    "member a ''new_key_id'' = Some (PStr new_id)" "member a ''new_public_key'' = Some (PStr ?raw)"
    "member a ''tenant_id'' = Some (PStr tenant)" "member a ''stream_id'' = Some (PStr stream)"
    "member a ''sig'' = Some (PStr (encode_base64url (ed_sign c sk b)))"
    by (simp_all add: a continuity_dict_def member_Cons)
  have keys: "fst ` set a = KStr ` str ` set continuity_fields"
    by (auto simp: a continuity_dict_def continuity_fields_def)
  have "ed_verify c (ed_public c sk) (ed_sign c sk b) b" by (rule ok(5))
  then show ?thesis
    by (auto simp: verify_key_continuity_def keys m raw sig of_option_def str_of_def b result_simps)
qed

section \<open>Witnesses\<close>

text \<open>
  A fixed signed record, and stand-in primitives whose hash tells the bytes of that record from
  all others.
\<close>

definition fixed_record :: evidence_record where
  "fixed_record = sample_attestation\<lparr>signature := signature_object (str ''k'')
     (plain_sign 5 (replicate 32 0)) (digest_text (\<lambda>_. replicate 32 0) [])\<rparr>"

definition fixed_bytes :: bytes where
  "fixed_bytes = (case serialize_record fixed_record of Inr b \<Rightarrow> b | Inl _ \<Rightarrow> [])"

definition marking_crypto :: "(nat, nat) crypto" where
  "marking_crypto = plain_crypto\<lparr>sha256 := \<lambda>m. replicate 32 (if m = fixed_bytes then 1 else 0)\<rparr>"

definition fixed_registry :: "nat registry" where
  "fixed_registry = [(str ''k'', \<lparr>rk_namespace = Evidence, rk_public_key = 5\<rparr>)]"

lemma marking_crypto_ok: "crypto_ok marking_crypto"
  using plain_crypto_ok by (auto simp: crypto_ok_def marking_crypto_def byte_string_def list_all_iff)

lemma fixed_record_value:
  "wf_value (PDict (record_members fixed_record))" "portable (PDict (record_members fixed_record))"
proof -
  have "byte_string (plain_sign 5 (replicate 32 0))"
    using crypto_okD(4) [OF plain_crypto_ok] by (simp add: plain_crypto_def)
  moreover have "list_all (\<lambda>c. c < 128) (digest_text (\<lambda>_. replicate 32 0) [])"
    by (rule digest_text_ascii) (simp add: byte_string_def list_all_iff)
  ultimately have "portable (PDict (signature fixed_record))" "wf_value (PDict (signature fixed_record))"
    unfolding fixed_record_def using signature_object_value by simp_all
  then show "wf_value (PDict (record_members fixed_record))" "portable (PDict (record_members fixed_record))"
    using sample_attestation_facts(1,2)
    by (auto intro!: record_members_value simp add: fixed_record_def simp del: wf_value.simps portable.simps)
qed

lemma fixed_record_bytes: "serialize_record fixed_record = Inr fixed_bytes"
  using fixed_record_value(2) serialize_ok_iff [of "PDict (record_members fixed_record)"]
  by (auto simp: fixed_bytes_def serialize_record_def canonicalize_def)

lemma fixed_record_fields:
  "record_type fixed_record = str ''AttestationWindow''" "sequence fixed_record = 1"
  "prev_digest fixed_record = None"
  by (simp add: fixed_record_def sample_attestation_facts(4)) code_simp+

lemma fixed_record_signed:
  "sign_record marking_crypto sample_attestation (str ''k'') 5 None = Inr fixed_record"
proof -
  have "str ''k'' \<noteq> []" by simp
  from sign_record_ok [OF marking_crypto_ok sample_attestation_facts(3) this sample_attestation_facts(1), of 5]
  obtain b where b: "record_signing_bytes sample_attestation = Inr b"
    and s: "sign_record marking_crypto sample_attestation (str ''k'') 5 None
      = Inr (sample_attestation\<lparr>signature := signature_object (str ''k'')
          (ed_sign marking_crypto 5 (sha256 marking_crypto b)) (digest_text (sha256 marking_crypto) b)\<rparr>)"
    by (elim exE conjE)
  have "b \<noteq> fixed_bytes"
  proof
    assume "b = fixed_bytes"
    then have "canonicalize (PDict (unsigned_mapping sample_attestation)) = Inr fixed_bytes"
      using b by (auto simp: record_signing_bytes_def split: sum.splits)
    moreover have "canonicalize (PDict (record_members fixed_record)) = Inr fixed_bytes"
      using fixed_record_bytes by (simp add: serialize_record_def)
    ultimately have "norm_dict (unsigned_mapping sample_attestation) = norm_dict (record_members fixed_record)"
      using canonicalize_inj [OF _ _ sample_attestation_facts(2) fixed_record_value(1)]
      unfolding norm_value_PDict by blast
    then have "map_option norm_value (member (unsigned_mapping sample_attestation) ''signature'')
        = map_option norm_value (member (record_members fixed_record) ''signature'')"
      using member_norm_dict [OF sample_attestation_facts(2)] member_norm_dict [OF fixed_record_value(1)]
      by metis
    then show False by (simp add: member_record_members unsigned_mapping_def member_Cons)
  qed
  then show ?thesis
    unfolding s by (simp add: fixed_record_def marking_crypto_def plain_crypto_def digest_text_def)
qed

lemma fixed_record_authenticated: "authenticated marking_crypto fixed_registry fixed_record (str ''k'')"
proof -
  have "verify_record_signature marking_crypto fixed_record (public_keys_of fixed_registry) = Inr (str ''k'')"
    by (rule sign_then_verify [OF marking_crypto_ok fixed_record_signed])
      (simp add: public_keys_of_def fixed_registry_def marking_crypto_def plain_crypto_def)
  then show ?thesis
    by (simp add: authenticated_def fixed_record_fields fixed_registry_def primary_signer_namespace_def
        PRIMARY_SIGNER_NAMESPACE_def)
qed

lemma fixed_record_digest: "digest_opt marking_crypto fixed_record = Some (digest_text (sha256 marking_crypto) fixed_bytes)"
  using fixed_record_bytes by (auto simp: digest_opt_Some)

lemma fixed_record_no_collision:
  "\<forall>b b'. serialize_record fixed_record = Inr b \<and> serialize_record (respell_record fixed_record) = Inr b'
     \<and> sha256 marking_crypto b = sha256 marking_crypto b' \<longrightarrow> b = b'"
proof (intro allI impI, elim conjE)
  fix b b'
  assume "serialize_record fixed_record = Inr b" and sha: "sha256 marking_crypto b = sha256 marking_crypto b'"
  then have "b = fixed_bytes" using fixed_record_bytes by simp
  with sha show "b = b'" by (simp add: marking_crypto_def split: if_splits)
qed

lemma fixed_stream:
  obtains v where "verify_evidence_stream marking_crypto fixed_registry [fixed_record] = Inr v"
    "cr_records v = [fixed_record]"
proof -
  have "signature_key_id marking_crypto fixed_registry fixed_record None None = Inr (str ''k'')"
    using fixed_record_authenticated by (simp add: signature_key_id_Inr)
  moreover have "digest_of marking_crypto fixed_record = Inr (digest_text (sha256 marking_crypto) fixed_bytes)"
    using fixed_record_digest by (simp add: digest_of_Inr)
  moreover have "member (signature fixed_record) ''key_continuity'' = None"
    by (simp add: fixed_record_def member_signature_object)
  moreover have "primary_signer_namespace (record_type fixed_record) = Some Evidence"
    by (simp add: fixed_record_fields primary_signer_namespace_def PRIMARY_SIGNER_NAMESPACE_def)
  ultimately show thesis
    using that by (simp add: verify_evidence_stream_def verify_ordered_def Let_def fixed_record_fields)
qed

theorem accepted_stream_is_chain_witness:
  "\<exists>v. verify_evidence_stream marking_crypto fixed_registry [fixed_record] = Inr v
     \<and> map sequence (cr_records v) = [1 .. int (length (cr_records v))]"
proof -
  obtain v where v: "verify_evidence_stream marking_crypto fixed_registry [fixed_record] = Inr v"
    by (rule fixed_stream)
  then show ?thesis using accepted_stream_is_chain [OF v] by blast
qed

theorem stream_head_commits_history_witness:
  "\<exists>v v'. verify_evidence_stream marking_crypto fixed_registry [fixed_record, fixed_record] = Inr v'
     \<and> verify_evidence_stream marking_crypto fixed_registry [fixed_record] = Inr v
     \<and> map record_content (cr_records v) = map record_content (cr_records v')"
proof -
  obtain v where v: "verify_evidence_stream marking_crypto fixed_registry [fixed_record] = Inr v"
    and r: "cr_records v = [fixed_record]" by (rule fixed_stream)
  have "fork_checked marking_crypto fixed_registry [] [fixed_record, fixed_record]
      = fork_checked marking_crypto fixed_registry [] [fixed_record]"
    using fixed_record_digest
    by (auto simp: same_record_def digest_of_Inr [symmetric])
  then have v': "verify_evidence_stream marking_crypto fixed_registry [fixed_record, fixed_record] = Inr v"
    using v by (simp add: verify_evidence_stream_def)
  have "record_bytes_distinct marking_crypto fixed_record fixed_record"
    using marking_crypto_ok fixed_record_value(1) by (auto simp: record_bytes_distinct_def)
  with stream_head_commits_history [OF v v' refl] v v' r show ?thesis by auto
qed

definition third_record :: evidence_record where
  "third_record = fixed_record\<lparr>sequence := 3\<rparr>"

lemma third_record_positions: "distinct (map position [fixed_record, third_record])"
  by (simp add: third_record_def position_def fixed_record_fields)

theorem arrival_order_irrelevant_witness:
  "verify_evidence_stream marking_crypto fixed_registry [third_record, fixed_record, third_record]
   = verify_evidence_stream marking_crypto fixed_registry [fixed_record, third_record]"
proof (rule arrival_order_irrelevant)
  show "inj_on position (set [fixed_record, third_record])" using third_record_positions by (auto simp: inj_on_def)
  have "portable (PDict (record_members third_record))" by code_simp
  then show "\<forall>r \<in> set [fixed_record, third_record]. digest_opt marking_crypto r \<noteq> None"
    using fixed_record_digest serialize_ok_iff [of "PDict (record_members third_record)"]
    by (auto simp: digest_opt_def record_digest_def canonical_digest_def canonicalize_def)
qed auto

theorem valid_prefix_verifies_witness:
  "\<exists>e v. verify_evidence_stream marking_crypto fixed_registry [fixed_record, third_record] = Inl e
     \<and> ce_valid_through_sequence e = Some 1
     \<and> verify_evidence_stream marking_crypto fixed_registry [fixed_record] = Inr v \<and> cr_end_sequence v = 1"
proof -
  let ?e = "chain_error_at SequenceGapError third_record (Some 1)
    (Some (gap_body fixed_record third_record ''sequence_break''))"
  have "signature_key_id marking_crypto fixed_registry fixed_record None None = Inr (str ''k'')"
    using fixed_record_authenticated by (simp add: signature_key_id_Inr)
  moreover have "digest_of marking_crypto fixed_record = Inr (digest_text (sha256 marking_crypto) fixed_bytes)"
    using fixed_record_digest by (simp add: digest_of_Inr)
  moreover have "member (signature fixed_record) ''key_continuity'' = None"
    by (simp add: fixed_record_def member_signature_object)
  moreover have "primary_signer_namespace (str ''AttestationWindow'') = Some Evidence"
    by (simp add: primary_signer_namespace_def PRIMARY_SIGNER_NAMESPACE_def)
  moreover have "sequence third_record = 3" "record_type third_record = str ''AttestationWindow''"
    "stream_id third_record = stream_id fixed_record"
    by (simp_all add: third_record_def fixed_record_fields)
  ultimately have e: "verify_evidence_stream marking_crypto fixed_registry [fixed_record, third_record] = Inl ?e"
    unfolding stream_of_distinct [OF third_record_positions]
    by (simp add: verify_ordered_def Let_def fixed_record_fields)
  have "filter (\<lambda>r. sequence r \<le> 1) [fixed_record, third_record] = [fixed_record]"
    by (simp add: third_record_def fixed_record_fields)
  with valid_prefix_verifies [OF e, of 1] e show ?thesis by auto
qed

lemma fixed_respelled_digest:
  "\<exists>d'. digest_opt marking_crypto (respell_record fixed_record) = Some d'
     \<and> d' \<noteq> digest_text (sha256 marking_crypto) fixed_bytes"
  by (rule respelled_digest [OF marking_crypto_ok fixed_record_authenticated fixed_record_value(1)
      fixed_record_digest fixed_record_no_collision])

theorem authenticated_fork_is_fatal_witness:
  "\<exists>e. verify_evidence_stream marking_crypto fixed_registry [fixed_record, respell_record fixed_record] = Inl e
     \<and> ce_failure e = StreamForkError \<and> \<not> attestation_permitted e"
proof (rule authenticated_fork_is_fatal)
  show "\<forall>r \<in> set [fixed_record, respell_record fixed_record].
      (\<exists>k. authenticated marking_crypto fixed_registry r k) \<and> digest_opt marking_crypto r \<noteq> None"
    using fixed_record_authenticated authenticated_respell [OF fixed_record_authenticated]
      fixed_record_digest fixed_respelled_digest by auto
  show "digest_opt marking_crypto fixed_record \<noteq> digest_opt marking_crypto (respell_record fixed_record)"
    using fixed_record_digest fixed_respelled_digest by auto
qed (simp_all add: position_def)

theorem forged_record_masks_fork_witness:
  "\<exists>x e e'. verify_evidence_stream marking_crypto fixed_registry [fixed_record, respell_record fixed_record] = Inl e
     \<and> \<not> attestation_permitted e
     \<and> verify_evidence_stream marking_crypto fixed_registry [fixed_record, x, respell_record fixed_record] = Inl e'
     \<and> attestation_permitted e'"
proof -
  let ?x = "fixed_record\<lparr>record_id := [], signature := []\<rparr>"
  have "\<not> authenticated marking_crypto fixed_registry ?x k" for k
    by (auto simp: authenticated_def member_def elim!: verify_record_signature_Inr)
  moreover have "record_id fixed_record \<noteq> []" by code_simp
  moreover have "(\<exists>k. authenticated marking_crypto fixed_registry q k) \<and> digest_opt marking_crypto q \<noteq> None"
    "digest_opt marking_crypto (respell_record fixed_record) \<noteq> digest_opt marking_crypto fixed_record"
    if "q \<in> set [fixed_record, respell_record fixed_record]" for q
    using that fixed_record_authenticated authenticated_respell [OF fixed_record_authenticated]
      fixed_record_digest fixed_respelled_digest by auto
  ultimately have "(\<exists>e. verify_evidence_stream marking_crypto fixed_registry [fixed_record, respell_record fixed_record] = Inl e
        \<and> ce_failure e = StreamForkError \<and> \<not> attestation_permitted e)
      \<and> (\<exists>e. verify_evidence_stream marking_crypto fixed_registry [fixed_record, ?x, respell_record fixed_record] = Inl e
        \<and> ce_failure e \<noteq> StreamForkError \<and> attestation_permitted e)"
    by (intro forged_record_masks_fork [of _ _ _ _ "respell_record fixed_record"]) (auto simp: position_def)
  then show ?thesis by blast
qed

theorem respelled_proof_forks_stream_witness:
  "\<exists>e v. verify_evidence_stream marking_crypto fixed_registry [fixed_record] = Inr v
     \<and> verify_evidence_stream marking_crypto fixed_registry ([fixed_record] @ [respell_record fixed_record]) = Inl e
     \<and> ce_failure e = StreamForkError"
proof -
  obtain v where v: "verify_evidence_stream marking_crypto fixed_registry [fixed_record] = Inr v"
    and r: "cr_records v = [fixed_record]" by (rule fixed_stream)
  have "fixed_record \<in> set (cr_records v)" by (simp add: r)
  from respelled_proof_forks_stream [OF marking_crypto_ok v this fixed_record_value(1) fixed_record_no_collision]
  show ?thesis using v by blast
qed

theorem continuity_roundtrip_witness:
  "\<exists>a. create_key_continuity plain_crypto (str ''k'') 5 (str ''n'') 6 (str ''t'') (str ''s'') = Inr a
     \<and> verify_key_continuity plain_crypto a (str ''k'') (ed_public plain_crypto 5) (str ''n'') 6 (str ''t'') (str ''s'') = Inr ()"
proof -
  have "portable (PDict (continuity_dict ALGORITHM (str ''k'') (str ''n'')
      (encode_base64url (ed_raw plain_crypto 6)) (str ''t'') (str ''s'')))"
    by code_simp
  then obtain a where a: "create_key_continuity plain_crypto (str ''k'') 5 (str ''n'') 6 (str ''t'') (str ''s'') = Inr a"
    using serialize_ok_iff [of "PDict (continuity_dict ALGORITHM (str ''k'') (str ''n'')
      (encode_base64url (ed_raw plain_crypto 6)) (str ''t'') (str ''s''))"]
    by (auto simp: create_key_continuity_def continuity_payload_def continuity_bytes_def canonicalize_def)
  then show ?thesis using continuity_roundtrip [OF plain_crypto_ok a] by blast
qed

end
