(* ===== verification/Calendar.thy ===== *)
theory Calendar
  imports Instants Canonical
begin

text \<open>
  Dates of ordinals, the inverse of the calendar arithmetic of \<^theory_text>\<open>Instants\<close>, and the
  ISO 8601 text of a UTC instant.  These are \<^verbatim>\<open>datetime\<close> operations that the services use to stamp
  and shift times; a \<^verbatim>\<open>datetime\<close> value is the number of microseconds since the epoch.
\<close>

function find_year :: "nat \<Rightarrow> nat \<Rightarrow> nat" where
  "find_year y n = (if y < 9999 \<and> days_before_year (Suc y) < n then find_year (Suc y) n else y)"
  by pat_completeness auto
termination by (relation "measure (\<lambda>(y, n). 9999 - y)") auto

declare find_year.simps [simp del]

function find_month :: "nat \<Rightarrow> nat \<Rightarrow> nat \<Rightarrow> nat" where
  "find_month y n m = (if m < 12 \<and> days_before_month y (Suc m) < n then find_month y n (Suc m) else m)"
  by pat_completeness auto
termination by (relation "measure (\<lambda>(y, n, m). 12 - m)") auto

declare find_month.simps [simp del]

definition date_of_ordinal :: "nat \<Rightarrow> nat \<times> nat \<times> nat" where
  "date_of_ordinal n =
     (let y = find_year ((n - 1) div 366 + 1) n; r = n - days_before_year y; m = find_month y r 1
      in (y, m, r - days_before_month y m))"

definition max_ordinal :: nat where
  "max_ordinal = 3652059"

lemma find_year_spec:
  assumes "1 \<le> y" "y \<le> 9999" "days_before_year y < n" "n \<le> days_before_year 10000"
  shows "let z = find_year y n in 1 \<le> z \<and> z \<le> 9999 \<and> days_before_year z < n \<and> n \<le> days_before_year (Suc z)"
  using assms
proof (induction y n rule: find_year.induct)
  case (1 y n)
  show ?case
  proof (cases "y < 9999 \<and> days_before_year (Suc y) < n")
    case True
    then show ?thesis using 1 by (simp add: find_year.simps [of y])
  next
    case False
    then have "n \<le> days_before_year (Suc y)"
      using "1.prems" by (cases "y = 9999") auto
    with False "1.prems" show ?thesis by (simp add: find_year.simps [of y] Let_def)
  qed
qed

lemma find_month_spec:
  assumes "1 \<le> m" "m \<le> 12" "days_before_month y m < n" "n \<le> year_length y"
  shows "let z = find_month y n m in 1 \<le> z \<and> z \<le> 12 \<and> days_before_month y z < n
    \<and> n \<le> days_before_month y z + days_in_month y z"
  using assms
proof (induction y n m rule: find_month.induct)
  case (1 y n m)
  show ?case
  proof (cases "m < 12 \<and> days_before_month y (Suc m) < n")
    case True
    then show ?thesis using 1 by (simp add: find_month.simps [of y n m])
  next
    case False
    then have "n \<le> days_before_month y m + days_in_month y m"
      using "1.prems" days_before_month_13 [of y] days_before_month_Suc [of m y]
      by (cases "m = 12") auto
    moreover have "find_month y n m = m"
      by (subst find_month.simps) (simp only: False if_False)
    ultimately show ?thesis using "1.prems" by (simp add: Let_def)
  qed
qed

lemma days_before_year_le: "1 \<le> y \<Longrightarrow> days_before_year y \<le> (y - 1) * 366"
proof (induction y)
  case (Suc y)
  show ?case
  proof (cases "y = 0")
    case True
    then show ?thesis by (simp add: days_before_year_def)
  next
    case False
    then have "days_before_year (Suc y) = days_before_year y + year_length y"
      by (intro days_before_year_Suc) simp
    moreover have "year_length y \<le> 366" by (simp add: year_length_def)
    moreover have "days_before_year y \<le> (y - 1) * 366" using Suc False by simp
    moreover have "(y - 1) * 366 + 366 = y * 366" using False by (cases y) simp_all
    ultimately show ?thesis by simp
  qed
qed simp

text \<open>Every ordinal is the ordinal of a valid date, the one \<open>date_of_ordinal\<close> returns.\<close>

lemma date_of_ordinal_spec:
  assumes "1 \<le> n" "n \<le> max_ordinal" "date_of_ordinal n = (y, m, d)"
  shows "valid_date y m d" "date_ordinal y m d = n"
proof -
  let ?y0 = "(n - 1) div 366 + 1"
  have last: "days_before_year 10000 = 3652059" by (simp add: days_before_year_def)
  have y0: "days_before_year ?y0 \<le> (?y0 - 1) * 366" by (rule days_before_year_le) simp
  also have "\<dots> \<le> n - 1" by simp
  finally have "days_before_year ?y0 < n" using assms(1) by linarith
  moreover have "?y0 \<le> 9999" using assms(2) by (simp add: max_ordinal_def)
  ultimately have year: "1 \<le> find_year ?y0 n" "find_year ?y0 n \<le> 9999"
    "days_before_year (find_year ?y0 n) < n" "n \<le> days_before_year (Suc (find_year ?y0 n))"
    using find_year_spec [of ?y0 n] assms(2) last by (auto simp: Let_def max_ordinal_def)
  have y: "y = find_year ?y0 n" and m: "m = find_month y (n - days_before_year y) 1"
    and d: "d = n - days_before_year y - days_before_month y m"
    using assms(3) by (auto simp: date_of_ordinal_def Let_def)
  have "n - days_before_year y \<le> year_length y"
    using year(4) days_before_year_Suc [OF year(1)] unfolding y by linarith
  moreover have "days_before_month y 1 < n - days_before_year y"
    using year(3) by (simp add: y days_before_month_def)
  ultimately have month: "1 \<le> m" "m \<le> 12" "days_before_month y m < n - days_before_year y"
    "n - days_before_year y \<le> days_before_month y m + days_in_month y m"
    using find_month_spec [of 1 y "n - days_before_year y"] by (simp_all add: m Let_def)
  have "1 \<le> d" "d \<le> days_in_month y m" using month(3,4) unfolding d by linarith+
  then show "valid_date y m d" using year(1,2) month(1,2) unfolding valid_date_def y by blast
  show "date_ordinal y m d = n"
    using year(3) month(3) unfolding date_ordinal_def d y by linarith
qed

lemma date_ordinal_inj:
  assumes "valid_date y m d" "valid_date y' m' d'" "date_ordinal y m d = date_ordinal y' m' d'"
  shows "(y, m, d) = (y', m', d')"
  using date_ordinal_strict_mono [OF assms(1,2)] date_ordinal_strict_mono [OF assms(2,1)] assms(3)
  by (metis linorder_neqE_nat less_irrefl)

lemma date_ordinal_range:
  assumes "valid_date y m d"
  shows "1 \<le> date_ordinal y m d" "date_ordinal y m d \<le> max_ordinal"
proof -
  show "1 \<le> date_ordinal y m d" using assms by (simp add: date_ordinal_def valid_date_def)
  show "date_ordinal y m d \<le> max_ordinal"
    using epoch_seconds_representable [OF assms, of 0 0 0]
    by (auto simp: representable_def epoch_seconds_def max_seconds_def max_ordinal_def)
qed

lemma date_of_date_ordinal:
  assumes "valid_date y m d"
  shows "date_of_ordinal (date_ordinal y m d) = (y, m, d)"
proof -
  obtain y' m' d' where e: "date_of_ordinal (date_ordinal y m d) = (y', m', d')"
    by (cases "date_of_ordinal (date_ordinal y m d)") auto
  note s = date_of_ordinal_spec [OF date_ordinal_range [OF assms] e]
  show ?thesis using date_ordinal_inj [OF s(1) assms s(2)] e by simp
qed

section \<open>ISO 8601 text\<close>

definition padded :: "nat \<Rightarrow> nat \<Rightarrow> pystr" where
  "padded k v = replicate (k - length (dec_nat v)) 48 @ dec_nat v"

definition date_text :: "nat \<Rightarrow> nat \<Rightarrow> nat \<Rightarrow> pystr" where
  "date_text y m d = padded 4 y @ [45] @ padded 2 m @ [45] @ padded 2 d"

definition time_text :: "nat \<Rightarrow> pystr" where
  "time_text s = padded 2 (s div 3600) @ [58] @ padded 2 (s div 60 mod 60) @ [58] @ padded 2 (s mod 60)"

text \<open>
  \<^verbatim>\<open>value.astimezone(UTC).isoformat(timespec="milliseconds").replace("+00:00", "Z")\<close>; the
  argument is microseconds since the epoch.
\<close>

definition utc_milliseconds_text :: "int \<Rightarrow> pystr" where
  "utc_milliseconds_text t =
     (let secs = t div 1000000; days = secs div 86400; (y, m, d) = date_of_ordinal (nat (days + 719163))
      in date_text y m d @ [84] @ time_text (nat (secs mod 86400)) @ [46]
         @ padded 3 (nat (t mod 1000000 div 1000)) @ [90])"

end
