(* ===== verification/Receipts.thy ===== *)
theory Receipts
  imports Chain Calendar
begin

text \<open>
  \<^verbatim>\<open>services/ingestion/receipts.py\<close>: the canonical wire form of a record, the issuer-signed
  ingestion receipt, and the origin verification of a complete record (primary signature under the
  namespace of its type and, for an attestation, the issuer's counter-signature).
\<close>

datatype receipt_error =
    ReceiptError
  | ReceiptSignatureError
  | KeyNamespaceError
  | NonCanonicalWireError
  | RecordRefused record_error
  | SignatureRefused sig_error
  | NotCanonicalizable canon_error
  | UnclassifiedRecordType
  | TimestampOverflow

section \<open>The wire form\<close>

definition canonical_wire :: "pyval \<Rightarrow> receipt_error + bytes" where
  "canonical_wire v = (case canonicalize v of Inl e \<Rightarrow> Inl (NotCanonicalizable e) | Inr b \<Rightarrow> Inr b)"

definition parse_canonical_record_wire ::
    "(bytes \<Rightarrow> pystr option) \<Rightarrow> bytes \<Rightarrow> receipt_error + evidence_record \<times> bytes" where
  "parse_canonical_record_wire other raw =
     (case parse_record other raw of
        Inl e \<Rightarrow> Inl (RecordRefused e)
      | Inr r \<Rightarrow>
          rbind (canonical_wire (PDict (record_members r))) (\<lambda>b.
          if b \<noteq> raw then Inl NonCanonicalWireError
          else case record_signing_bytes r of
                 Inl e \<Rightarrow> Inl (SignatureRefused e)
               | Inr s \<Rightarrow> Inr (r, s)))"

section \<open>Clocks\<close>

text \<open>
  \<^verbatim>\<open>parse_timestamp\<close> on the texts the schema accepts, in microseconds since the epoch.  A leap second
  is read as second 59 plus one second; \<^verbatim>\<open>fromisoformat\<close> keeps six fraction digits and refuses
  non-ASCII digits.
\<close>

definition fraction_microseconds :: "pystr \<Rightarrow> int" where
  "fraction_microseconds f = fraction_nanoseconds (take 6 f) div 1000"

definition parse_timestamp :: "pystr \<Rightarrow> receipt_error + int" where
  "parse_timestamp v =
     (if \<not> timestamp_ok v \<or> list_ex (\<lambda>c. 128 \<le> c) v then Inl ReceiptError
      else case rfc3339_match v of
             None \<Rightarrow> Inl ReceiptError
           | Some t \<Rightarrow>
               let leap = tm_second t = 60;
                   local_time = epoch_seconds (tm_year t) (tm_month t) (tm_day t) (tm_hour t) (tm_minute t)
                             (if leap then 59 else tm_second t) + (if leap then 1 else 0)
               in if \<not> representable local_time then Inl TimestampOverflow
                  else Inr ((local_time - offset_seconds t) * 10 ^ 6 + fraction_microseconds (tm_fraction t)))"

text \<open>A \<^verbatim>\<open>datetime\<close>, with or without a time zone.\<close>

datatype pydatetime = Aware int | Naive int

definition format_ingest_time :: "pydatetime \<Rightarrow> receipt_error + pystr" where
  "format_ingest_time t = (case t of Naive _ \<Rightarrow> Inl ReceiptError | Aware us \<Rightarrow> Inr (utc_milliseconds_text us))"

definition whole_milliseconds :: "int \<Rightarrow> int" where
  "whole_milliseconds us = (if us < 0 then - ((- us) div 1000) else us div 1000)"

definition measure_clock_skew_ms :: "pystr \<Rightarrow> pystr \<Rightarrow> receipt_error + int" where
  "measure_clock_skew_ms src ingest =
     rbind (parse_timestamp ingest) (\<lambda>i. rbind (parse_timestamp src) (\<lambda>s.
     Inr (whole_milliseconds (i - s))))"

section \<open>Ingestion receipts\<close>

record ingestion_receipt =
  ir_record_digest :: pystr
  ir_ingest_time :: pystr
  ir_clock_skew_ms :: int

definition receipt_members :: "ingestion_receipt \<Rightarrow> pydict" where
  "receipt_members p =
     [(KStr (str ''record_digest''), PStr (ir_record_digest p)),
      (KStr (str ''ingest_time''), PStr (ir_ingest_time p)),
      (KStr (str ''clock_skew_ms''), PInt (ir_clock_skew_ms p))]"

definition receipt_of :: "pydict \<Rightarrow> ingestion_receipt" where
  "receipt_of d =
     \<lparr>ir_record_digest = str_of (member d ''record_digest''),
      ir_ingest_time = str_of (member d ''ingest_time''),
      ir_clock_skew_ms = int_of_val (member d ''clock_skew_ms'')\<rparr>"

record signed_receipt =
  sr_payload :: ingestion_receipt
  sr_canonical_bytes :: bytes
  sr_key_id :: pystr
  sr_signature :: bytes

definition received_wire :: "evidence_record \<Rightarrow> bytes option \<Rightarrow> receipt_error + bytes" where
  "received_wire r received =
     rbind (canonical_wire (PDict (record_members r))) (\<lambda>b.
     case received of
       None \<Rightarrow> Inr b
     | Some w \<Rightarrow> if w \<noteq> b then Inl NonCanonicalWireError else Inr w)"

definition create_ingestion_receipt ::
    "('sk, 'pk) crypto \<Rightarrow> evidence_record \<Rightarrow> pydatetime \<Rightarrow> pystr \<Rightarrow> 'sk \<Rightarrow> bytes option
     \<Rightarrow> receipt_error + signed_receipt" where
  "create_ingestion_receipt c r ingest_time issuer_key_id sk received =
     (if issuer_key_id = [] then Inl ReceiptError
      else rbind (received_wire r received) (\<lambda>wire.
           rbind (format_ingest_time ingest_time) (\<lambda>stamp.
           rbind (measure_clock_skew_ms (source_time (record_clocks r)) stamp) (\<lambda>skew.
           let payload = \<lparr>ir_record_digest = digest_text (sha256 c) wire, ir_ingest_time = stamp,
                          ir_clock_skew_ms = skew\<rparr>
           in if \<not> model_ok IngestionReceiptModel (receipt_members payload) then Inl ReceiptError
              else rbind (canonical_wire (PDict (receipt_members payload))) (\<lambda>b.
                   Inr \<lparr>sr_payload = payload, sr_canonical_bytes = b, sr_key_id = issuer_key_id,
                        sr_signature = ed_sign c sk b\<rparr>)))))"

text \<open>
  The payload is read back from the receipt's bytes.  The bytes are accepted only if they are the
  canonical form of what was read, so the strict JSON reader stands for the validator's own: on
  canonical bytes they agree, and on others both lead to a \<^verbatim>\<open>ReceiptSignatureError\<close>.
\<close>

definition verify_ingestion_receipt ::
    "('sk, 'pk) crypto \<Rightarrow> signed_receipt \<Rightarrow> evidence_record \<Rightarrow> 'pk registry \<Rightarrow> bytes option
     \<Rightarrow> receipt_error + ingestion_receipt" where
  "verify_ingestion_receipt c receipt r reg received =
     (case map_of reg (sr_key_id receipt) of
        None \<Rightarrow> Inl ReceiptSignatureError
      | Some rk \<Rightarrow>
          if rk_namespace rk \<noteq> Issuer then Inl KeyNamespaceError
          else case json_loads (\<lambda>_. None) (sr_canonical_bytes receipt) of
            Inr (PDict d) \<Rightarrow>
              if \<not> model_ok IngestionReceiptModel d then Inl ReceiptSignatureError
              else let payload = receipt_of d in
              rbind (canonical_wire (PDict (receipt_members payload))) (\<lambda>b.
              if b \<noteq> sr_canonical_bytes receipt then Inl ReceiptSignatureError
              else if \<not> ed_verify c (rk_public_key rk) (sr_signature receipt) b then Inl ReceiptSignatureError
              else rbind (received_wire r received) (\<lambda>wire.
              if ir_record_digest payload \<noteq> digest_text (sha256 c) wire then Inl ReceiptSignatureError
              else rbind (measure_clock_skew_ms (source_time (record_clocks r)) (ir_ingest_time payload)) (\<lambda>skew.
              if ir_clock_skew_ms payload \<noteq> skew then Inl ReceiptSignatureError
              else Inr payload)))
          | _ \<Rightarrow> Inl ReceiptSignatureError)"

section \<open>Origin verification\<close>

definition sig_result :: "sig_error + 'a \<Rightarrow> receipt_error + 'a" where
  "sig_result m = (case m of Inl e \<Rightarrow> Inl (SignatureRefused e) | Inr x \<Rightarrow> Inr x)"

definition verify_record_origin_signature ::
    "('sk, 'pk) crypto \<Rightarrow> evidence_record \<Rightarrow> 'pk registry \<Rightarrow> bytes option \<Rightarrow> receipt_error + pystr" where
  "verify_record_origin_signature c r reg signing_bytes =
     rbind (sig_result (case signing_bytes of
              None \<Rightarrow> verify_record_signature c r (public_keys_of reg)
            | Some b \<Rightarrow> verify_record_signature_bytes c r b (public_keys_of reg))) (\<lambda>key_id.
     case primary_signer_namespace (record_type r) of
       None \<Rightarrow> Inl UnclassifiedRecordType
     | Some expected \<Rightarrow>
         if map_option rk_namespace (map_of reg key_id) \<noteq> Some expected then Inl KeyNamespaceError
         else Inr key_id)"

definition verify_canonical_evidence_record ::
    "('sk, 'pk) crypto \<Rightarrow> (bytes \<Rightarrow> pystr option) \<Rightarrow> bytes \<Rightarrow> 'pk registry \<Rightarrow> receipt_error + evidence_record"
where
  "verify_canonical_evidence_record c other raw reg =
     rbind (parse_canonical_record_wire other raw) (\<lambda>(r, signing_bytes).
     rbind (verify_record_origin_signature c r reg (Some signing_bytes)) (\<lambda>_.
     if record_type r = str ''AttestationWindow''
     then rbind (sig_result (verify_attestation_counter_signature c r (public_keys_of reg))) (\<lambda>issuer_id.
          if map_option rk_namespace (map_of reg issuer_id) \<noteq> Some Issuer then Inl KeyNamespaceError
          else Inr r)
     else Inr r))"

section \<open>Acceptance\<close>

lemma canonical_wire_Inr [simp]: "canonical_wire v = Inr b \<longleftrightarrow> canonicalize v = Inr b"
  by (auto simp: canonical_wire_def split: sum.splits)

lemma sig_result_Inr [simp]: "sig_result m = Inr x \<longleftrightarrow> m = Inr x"
  by (auto simp: sig_result_def split: sum.splits)

lemma verify_record_signature_bytes_own:
  "record_signing_bytes r = Inr b \<Longrightarrow>
     verify_record_signature_bytes c r b ks = verify_record_signature c r ks"
  by (simp add: verify_record_signature_def)

lemma parse_canonical_record_wire_Inr:
  "parse_canonical_record_wire other raw = Inr (r, s) \<longleftrightarrow>
     parse_record other raw = Inr r \<and> serialize_record r = Inr raw \<and> record_signing_bytes r = Inr s"
  by (auto simp: parse_canonical_record_wire_def serialize_record_def result_simps
      split: sum.splits if_splits)

lemma verify_canonical_evidence_record_Inr:
  "verify_canonical_evidence_record c other raw reg = Inr r \<longleftrightarrow>
     parse_record other raw = Inr r \<and> serialize_record r = Inr raw
     \<and> (\<exists>k. authenticated c reg r k)
     \<and> (record_type r = str ''AttestationWindow'' \<longrightarrow>
         (\<exists>i. verify_attestation_counter_signature c r (public_keys_of reg) = Inr i
            \<and> map_option rk_namespace (map_of reg i) = Some Issuer))"
  (is "?l \<longleftrightarrow> ?r")
proof -
  have origin: "verify_record_origin_signature c q reg (Some s) = Inr k \<longleftrightarrow> authenticated c reg q k"
    if "record_signing_bytes q = Inr s" for q s k
    using that by (cases "primary_signer_namespace (record_type q)")
      (auto simp: verify_record_origin_signature_def authenticated_def result_simps
        verify_record_signature_bytes_own simp del: map_option_eq_Some split: if_splits)
  have sb: "\<exists>s. record_signing_bytes q = Inr s" if "authenticated c reg q k" for q k
    using that by (auto simp: authenticated_def verify_record_signature_eq result_simps)
  show ?thesis
  proof
    assume ?l
    then show ?r
      by (auto simp: verify_canonical_evidence_record_def result_simps parse_canonical_record_wire_Inr
          origin split: if_splits)
  next
    assume r: ?r
    then obtain k s where "authenticated c reg r k" "record_signing_bytes r = Inr s" using sb by blast
    moreover from this r have "parse_canonical_record_wire other raw = Inr (r, s)"
      by (simp add: parse_canonical_record_wire_Inr)
    moreover have "verify_record_origin_signature c r reg (Some s) = Inr k"
      using origin calculation by blast
    ultimately show ?l
      using r by (auto simp: verify_canonical_evidence_record_def sig_result_def)
  qed
qed

section \<open>Receipts round-trip\<close>

lemma member_receipt:
  "member (receipt_members p) ''record_digest'' = Some (PStr (ir_record_digest p))"
  "member (receipt_members p) ''ingest_time'' = Some (PStr (ir_ingest_time p))"
  "member (receipt_members p) ''clock_skew_ms'' = Some (PInt (ir_clock_skew_ms p))"
  by (simp_all add: receipt_members_def member_Cons)

lemma receipt_of_norm:
  assumes "wf_value (PDict (receipt_members p))"
  shows "receipt_of (norm_dict (receipt_members p)) = p"
  by (cases p) (use member_norm_dict [OF assms] in
    \<open>simp add: receipt_of_def member_receipt str_of_def int_of_val_def\<close>)

lemma create_ingestion_receipt_Inr:
  assumes "create_ingestion_receipt c r t key sk received = Inr receipt"
  obtains wire b where "received_wire r received = Inr wire"
    "ir_record_digest (sr_payload receipt) = digest_text (sha256 c) wire"
    "measure_clock_skew_ms (source_time (record_clocks r)) (ir_ingest_time (sr_payload receipt))
       = Inr (ir_clock_skew_ms (sr_payload receipt))"
    "format_ingest_time t = Inr (ir_ingest_time (sr_payload receipt))"
    "model_ok IngestionReceiptModel (receipt_members (sr_payload receipt))"
    "canonicalize (PDict (receipt_members (sr_payload receipt))) = Inr b"
    "sr_canonical_bytes receipt = b" "sr_key_id receipt = key" "sr_signature receipt = ed_sign c sk b"
  using assms that
  by (auto simp: create_ingestion_receipt_def result_simps Let_def split: if_splits)

text \<open>The fields the service writes are ASCII.\<close>

lemma low_append: "list_all (\<lambda>c. c < 128) s \<Longrightarrow> list_all (\<lambda>c. c < 128) t \<Longrightarrow> list_all (\<lambda>c. c < 128) (s @ t)"
  by simp

lemma low_padded: "list_all (\<lambda>c. c < 128) (padded k v)"
  using dec_nat_digits [of v] by (auto simp: padded_def list_all_iff is_digit_def)

lemma low_utc: "list_all (\<lambda>c. c < 128) (utc_milliseconds_text t)"
  by (simp add: utc_milliseconds_text_def date_text_def time_text_def low_padded Let_def split: prod.split)

lemma low_wf: "list_all (\<lambda>c. c < 128) s \<Longrightarrow> wf_str s"
  by (auto simp: wf_str_def list_all_iff)

lemma receipt_roundtrip:
  assumes c: "crypto_ok c" and create: "create_ingestion_receipt c r t key sk received = Inr receipt"
    and reg: "map_of reg key = Some \<lparr>rk_namespace = Issuer, rk_public_key = ed_public c sk\<rparr>"
  shows "verify_ingestion_receipt c receipt r reg received = Inr (sr_payload receipt)"
proof -
  obtain wire b where r: "received_wire r received = Inr wire"
    "ir_record_digest (sr_payload receipt) = digest_text (sha256 c) wire"
    "measure_clock_skew_ms (source_time (record_clocks r)) (ir_ingest_time (sr_payload receipt))
       = Inr (ir_clock_skew_ms (sr_payload receipt))"
    "model_ok IngestionReceiptModel (receipt_members (sr_payload receipt))"
    "canonicalize (PDict (receipt_members (sr_payload receipt))) = Inr b"
    "sr_canonical_bytes receipt = b" "sr_key_id receipt = key" "sr_signature receipt = ed_sign c sk b"
    and stamp: "format_ingest_time t = Inr (ir_ingest_time (sr_payload receipt))"
    by (rule create_ingestion_receipt_Inr [OF create])
  have "wf_str (ir_record_digest (sr_payload receipt))"
    unfolding r(2) by (rule low_wf [OF digest_text_ascii]) (rule crypto_okD(2) [OF c])
  moreover obtain us where "utc_milliseconds_text us = ir_ingest_time (sr_payload receipt)"
    using stamp by (auto simp: format_ingest_time_def split: pydatetime.splits)
  then have "wf_str (ir_ingest_time (sr_payload receipt))" using low_wf [OF low_utc] by metis
  ultimately have wf: "wf_value (PDict (receipt_members (sr_payload receipt)))"
    by (simp add: receipt_members_def key_text_def)
  have "json_loads (\<lambda>_. None) b = Inr (PDict (norm_dict (receipt_members (sr_payload receipt))))"
    using json_loads_canonical [OF r(5) wf] by (simp only: norm_value_PDict)
  moreover have "model_ok IngestionReceiptModel (norm_dict (receipt_members (sr_payload receipt)))"
    using r(4) by (simp add: model_ok_norm [OF wf])
  ultimately show ?thesis
    using r reg crypto_okD(5) [OF c]
    by (simp add: verify_ingestion_receipt_def receipt_of_norm [OF wf] canonical_wire_def Let_def)
qed

lemma whole_milliseconds_bounds:
  "\<bar>whole_milliseconds us * 1000 - us\<bar> < 1000" "whole_milliseconds (- us) = - whole_milliseconds us"
proof -
  have "\<bar>u div 1000 * 1000 - u\<bar> < 1000" for u :: int by presburger
  from this [of us] this [of "- us"] show "\<bar>whole_milliseconds us * 1000 - us\<bar> < 1000"
    unfolding whole_milliseconds_def by (auto simp: abs_if)
  show "whole_milliseconds (- us) = - whole_milliseconds us"
    by (auto simp: whole_milliseconds_def)
qed

lemma verify_ingestion_receipt_Inr:
  assumes "verify_ingestion_receipt c receipt r reg received = Inr p"
  shows "\<exists>rk b wire. map_of reg (sr_key_id receipt) = Some rk \<and> rk_namespace rk = Issuer
    \<and> canonicalize (PDict (receipt_members p)) = Inr b \<and> sr_canonical_bytes receipt = b
    \<and> ed_verify c (rk_public_key rk) (sr_signature receipt) b
    \<and> received_wire r received = Inr wire \<and> ir_record_digest p = digest_text (sha256 c) wire
    \<and> measure_clock_skew_ms (source_time (record_clocks r)) (ir_ingest_time p) = Inr (ir_clock_skew_ms p)"
  using assms
  by (auto simp: verify_ingestion_receipt_def Let_def result_simps
      split: option.splits if_splits sum.splits pyval.splits)

section \<open>Properties\<close>

text \<open>
  C21: a receipt the service creates for a record verifies for that record under the issuer key that
  signed it, and returns the payload that was signed.
\<close>

theorem receipt_verifies:
  assumes "crypto_ok c" and "create_ingestion_receipt c r t key sk received = Inr receipt"
    and "map_of reg key = Some \<lparr>rk_namespace = Issuer, rk_public_key = ed_public c sk\<rparr>"
  shows "verify_ingestion_receipt c receipt r reg received = Inr (sr_payload receipt)"
  by (rule receipt_roundtrip [OF assms])

text \<open>
  C22: an accepted receipt speaks about exactly one record: two records for which the same receipt
  verifies have the same canonical bytes if SHA-256 does not collide on them, its proof is by a key
  of the issuer namespace, and the skew it states is the whole-millisecond difference of the clocks,
  truncated toward zero.
\<close>

theorem receipt_binds_record:
  assumes "crypto_ok c"
    and "verify_ingestion_receipt c receipt r reg received = Inr p"
    and "verify_ingestion_receipt c receipt r' reg received' = Inr p'"
    and "\<forall>b b'. serialize_record r = Inr b \<and> serialize_record r' = Inr b' \<and> sha256 c b = sha256 c b'
      \<longrightarrow> b = b'"
  shows "serialize_record r = serialize_record r'
    \<and> map_option rk_namespace (map_of reg (sr_key_id receipt)) = Some Issuer
    \<and> (\<exists>s i. parse_timestamp (source_time (record_clocks r)) = Inr s
         \<and> parse_timestamp (ir_ingest_time p) = Inr i
         \<and> \<bar>ir_clock_skew_ms p * 1000 - (i - s)\<bar> < 1000)"
proof -
  obtain rk b w where a: "map_of reg (sr_key_id receipt) = Some rk" "rk_namespace rk = Issuer"
    "canonicalize (PDict (receipt_members p)) = Inr b" "sr_canonical_bytes receipt = b"
    "received_wire r received = Inr w" "ir_record_digest p = digest_text (sha256 c) w"
    "measure_clock_skew_ms (source_time (record_clocks r)) (ir_ingest_time p) = Inr (ir_clock_skew_ms p)"
    using verify_ingestion_receipt_Inr [OF assms(2)] by blast
  obtain w' where b: "received_wire r' received' = Inr w'" "ir_record_digest p' = digest_text (sha256 c) w'"
    using verify_ingestion_receipt_Inr [OF assms(3)] by blast
  have "p' = p"
    using assms(2,3) by (auto simp: verify_ingestion_receipt_def Let_def result_simps
        split: option.splits if_splits sum.splits pyval.splits)
  then have "digest_text (sha256 c) w = digest_text (sha256 c) w'" using a(6) b(2) by simp
  then have "sha256 c w = sha256 c w'"
    by (intro digest_text_inj [where sha = "sha256 c"] crypto_okD(2) [OF assms(1)])
  moreover have wire: "serialize_record q = Inr v" if "received_wire q rec = Inr v" for q rec v
    using that by (auto simp: received_wire_def serialize_record_def result_simps
        split: option.splits if_splits)
  ultimately have "w = w'" using assms(4) a(5) b(1) by blast
  then have "serialize_record r = serialize_record r'" using wire a(5) b(1) by metis
  moreover obtain s i where "parse_timestamp (source_time (record_clocks r)) = Inr s"
    "parse_timestamp (ir_ingest_time p) = Inr i" "ir_clock_skew_ms p = whole_milliseconds (i - s)"
    using a(7) by (auto simp: measure_clock_skew_ms_def result_simps)
  ultimately show ?thesis using a(1,2) whole_milliseconds_bounds(1) [of "i - s"] by auto
qed

text \<open>
  C3: a received record is accepted exactly when its bytes are the canonical form of a valid record,
  its primary signature verifies under a registered key of the namespace of its type, and, for an
  attestation, the counter-signature verifies under an issuer key.
\<close>

theorem canonical_evidence_accepted_iff:
  "verify_canonical_evidence_record c other raw reg = Inr r \<longleftrightarrow>
     parse_record other raw = Inr r \<and> serialize_record r = Inr raw
     \<and> (\<exists>k. authenticated c reg r k)
     \<and> (record_type r \<noteq> str ''AttestationWindow'' \<or>
         (\<exists>i. verify_attestation_counter_signature c r (public_keys_of reg) = Inr i
            \<and> map_option rk_namespace (map_of reg i) = Some Issuer))"
  by (auto simp: verify_canonical_evidence_record_Inr)

section \<open>Witnesses\<close>

text \<open>
  The canonical bytes of a valid, authenticated record are received as that record, provided
  sorting the members of its dictionaries does not change it.
\<close>

lemma received_canonical:
  assumes valid: "validate_record (record_members r) = Inr r" and wf: "wf_value (PDict (record_members r))"
    and port: "portable (PDict (record_members r))"
    and norm: "record_of (norm_dict (record_members r)) = r"
    and auth: "authenticated c reg r k"
    and counter: "record_type r = str ''AttestationWindow'' \<longrightarrow>
         (\<exists>i. verify_attestation_counter_signature c r (public_keys_of reg) = Inr i
            \<and> map_option rk_namespace (map_of reg i) = Some Issuer)"
  obtains raw where "serialize_record r = Inr raw"
    and "canonicalize (PDict (norm_dict (record_members r))) = Inr raw"
    and "validate_record (norm_dict (record_members r)) = Inr r"
    and "\<And>other. parse_record other raw = Inr r"
    and "\<And>other. verify_canonical_evidence_record c other raw reg = Inr r"
proof -
  let ?d = "record_members r"
  obtain e where e: "canonicalize (PDict ?d) = Inr e"
    using port serialize_ok_iff [of "PDict ?d"] by (auto simp: canonicalize_def)
  have es: "canonicalize (PDict (norm_dict ?d)) = Inr e"
    using e serialize_norm_value [of "PDict ?d"] by (simp only: canonicalize_def norm_value_PDict)
  obtain r' where r': "validate_record (norm_dict ?d) = Inr r'"
    using validate_record_norm [OF valid wf] by blast
  then have v: "validate_record (norm_dict ?d) = Inr r" by (metis validate_record_Inr norm)
  have load: "json_loads other e = Inr (PDict (norm_dict ?d))" for other
    using json_loads_canonical [OF e wf] by (simp only: norm_value_PDict)
  have parse: "parse_record other e = Inr r" for other using load v by (simp add: parse_record_def)
  moreover have "verify_canonical_evidence_record c other e reg = Inr r" for other
    using parse e auth counter by (auto simp: verify_canonical_evidence_record_Inr serialize_record_def)
  ultimately show thesis using that e es v by (simp add: serialize_record_def)
qed

text \<open>Primitives that compute, and a revocation signed with them.\<close>

definition const_crypto :: "(nat, nat) crypto" where
  "const_crypto = plain_crypto\<lparr>sha256 := \<lambda>_. replicate 32 0\<rparr>"

definition zero_digest :: pystr where "zero_digest = digest_text (\<lambda>_. replicate 32 0) []"

definition withdrawal :: "string \<Rightarrow> evidence_record" where
 "withdrawal effective_at = \<lparr>record_id = str ''01890a5d-ac96-774b-bcce-b302099a8058'', record_type = str ''RevocationRecord'',
   schema_version = str ''1.0.0'', tenant_id = str ''t'', boundary_ref = str ''b'', stream_id = str ''r'', sequence = 1,
   prev_digest = None, source = [], record_clocks = \<lparr>source_time = str ''2026-01-01T00:00:00.000Z'', authoritative_time = None\<rparr>,
   body = [(KStr (str ''attestation_ref''), PStr (str ''01890a5d-ac96-774b-bcce-b302099a8057'')),
     (KStr (str ''effective_at''), PStr (str effective_at)), (KStr (str ''issuer''), PNone),
     (KStr (str ''reason''), PStr (str ''d'')), (KStr (str ''relying_party_notification_status''), PStr (str ''pending'')),
     (KStr (str ''superseding_ref''), PNone)],
   signature = signature_object (str ''i'') (plain_sign 6 (replicate 32 0)) zero_digest\<rparr>"

abbreviation withdrawn :: evidence_record where
  "withdrawn \<equiv> withdrawal ''2026-03-01T00:00:00.000Z''"

definition fixed_issuer :: "nat registry" where
  "fixed_issuer = [(str ''i'', \<lparr>rk_namespace = Issuer, rk_public_key = 6\<rparr>)]"

lemma withdrawn_valid: "validate_record (record_members withdrawn) = Inr withdrawn" by code_simp
lemma withdrawn_wf: "wf_value (PDict (record_members withdrawn))" by code_simp
lemma withdrawn_portable: "portable (PDict (record_members withdrawn))" by code_simp
lemma withdrawn_norm: "record_of (norm_dict (record_members withdrawn)) = withdrawn" by code_simp
lemma withdrawn_signed:
  "verify_record_signature const_crypto withdrawn (public_keys_of fixed_issuer) = Inr (str ''i'')" by code_simp

lemma withdrawal_fields:
  "record_type (withdrawal t) = str ''RevocationRecord''" "schema_version (withdrawal t) = str ''1.0.0''"
  by (simp_all add: withdrawal_def)

lemma withdrawal_authenticated:
  "verify_record_signature const_crypto (withdrawal t) (public_keys_of fixed_issuer) = Inr (str ''i'')
     \<Longrightarrow> authenticated const_crypto fixed_issuer (withdrawal t) (str ''i'')"
  by (simp add: authenticated_def withdrawal_fields fixed_issuer_def primary_signer_namespace_def
      PRIMARY_SIGNER_NAMESPACE_def)

lemma withdrawn_received:
  obtains raw where "serialize_record withdrawn = Inr raw" "\<And>other. parse_record other raw = Inr withdrawn"
    "\<And>other. verify_canonical_evidence_record const_crypto other raw fixed_issuer = Inr withdrawn"
  by (rule received_canonical [OF withdrawn_valid withdrawn_wf withdrawn_portable withdrawn_norm
        withdrawal_authenticated [OF withdrawn_signed]]) (simp_all add: withdrawal_fields)

theorem canonical_evidence_accepted_iff_witness:
  "\<exists>raw. verify_canonical_evidence_record const_crypto (\<lambda>_. None) raw fixed_issuer = Inr withdrawn"
proof -
  obtain raw where "serialize_record withdrawn = Inr raw" "parse_record (\<lambda>_. None) raw = Inr withdrawn"
    using withdrawn_received by metis
  then have "verify_canonical_evidence_record const_crypto (\<lambda>_. None) raw fixed_issuer = Inr withdrawn"
    unfolding canonical_evidence_accepted_iff
    using withdrawal_authenticated [OF withdrawn_signed] by (auto simp: withdrawal_fields)
  then show ?thesis by blast
qed

lemma digest_text_ok: "length (sha b) = 32 \<Longrightarrow> byte_string (sha b) \<Longrightarrow> digest_ok (digest_text sha b)"
  using hexdigest_chars [of "sha b"] by (auto simp: digest_ok_def hexdigest_length list_all_iff)

lemma fixed_source_time: "source_time (record_clocks fixed_record) = str ''2026-01-01T00:00:00.000Z''"
  unfolding fixed_record_def by code_simp

lemma fixed_receipt:
  obtains receipt where
    "create_ingestion_receipt marking_crypto fixed_record (Aware 1767225600500000) (str ''i'') 6 None = Inr receipt"
    "ir_clock_skew_ms (sr_payload receipt) = 500"
proof -
  let ?t = "str ''2026-01-01T00:00:00.500Z''"
  let ?p = "\<lparr>ir_record_digest = digest_text (sha256 marking_crypto) fixed_bytes, ir_ingest_time = ?t, ir_clock_skew_ms = 500\<rparr>"
  note ok = crypto_okD [OF marking_crypto_ok]
  have stamp: "format_ingest_time (Aware 1767225600500000) = Inr ?t" by code_simp
  have skew: "measure_clock_skew_ms (source_time (record_clocks fixed_record)) ?t = Inr 500"
    unfolding fixed_source_time by code_simp
  have time: "timestamp_ok ?t" by code_simp
  have dig: "digest_ok (digest_text (sha256 marking_crypto) fixed_bytes)"
    by (rule digest_text_ok) (simp_all add: ok)
  have low: "list_all (\<lambda>c. \<not> is_surrogate c) (digest_text (sha256 marking_crypto) fixed_bytes)"
    using digest_text_ascii [where sha = "sha256 marking_crypto" and b = fixed_bytes, OF ok(2)]
    by (auto simp: list_all_iff is_surrogate_def)
  have model: "model_ok IngestionReceiptModel (receipt_members ?p)"
    using time dig low
    by (simp add: model_ok_def IngestionReceiptModel_def closed_model_def member_receipt max_safe_integer_def)
      (simp add: receipt_members_def max_safe_integer_def)
  have "portable (PDict (receipt_members ?p))"
    using low by (simp add: receipt_members_def key_text_def max_safe_integer_def)
  then obtain b where "canonicalize (PDict (receipt_members ?p)) = Inr b"
    using serialize_ok_iff [of "PDict (receipt_members ?p)"] by (auto simp: canonicalize_def)
  then have "create_ingestion_receipt marking_crypto fixed_record (Aware 1767225600500000) (str ''i'') 6 None
     = Inr \<lparr>sr_payload = ?p, sr_canonical_bytes = b, sr_key_id = str ''i'', sr_signature = ed_sign marking_crypto 6 b\<rparr>"
    using stamp skew model fixed_record_bytes
    by (simp add: create_ingestion_receipt_def received_wire_def serialize_record_def canonical_wire_def Let_def)
  then show thesis by (rule that) simp
qed

lemma fixed_issuer_key:
  "map_of fixed_issuer (str ''i'') = Some \<lparr>rk_namespace = Issuer, rk_public_key = ed_public marking_crypto 6\<rparr>"
  by (simp add: fixed_issuer_def marking_crypto_def plain_crypto_def)

theorem receipt_verifies_witness:
  "\<exists>receipt. verify_ingestion_receipt marking_crypto receipt fixed_record fixed_issuer None
     = Inr (sr_payload receipt) \<and> ir_clock_skew_ms (sr_payload receipt) = 500"
proof -
  obtain receipt where r: "create_ingestion_receipt marking_crypto fixed_record (Aware 1767225600500000) (str ''i'') 6 None = Inr receipt"
    "ir_clock_skew_ms (sr_payload receipt) = 500" by (rule fixed_receipt)
  show ?thesis using receipt_verifies [OF marking_crypto_ok r(1) fixed_issuer_key] r(2) by blast
qed

theorem receipt_binds_record_witness:
  "\<exists>receipt :: signed_receipt. map_option rk_namespace (map_of fixed_issuer (sr_key_id receipt)) = Some Issuer
     \<and> sr_key_id receipt = str ''i''"
proof -
  obtain receipt where r: "create_ingestion_receipt marking_crypto fixed_record (Aware 1767225600500000) (str ''i'') 6 None = Inr receipt"
    by (rule fixed_receipt)
  have v: "verify_ingestion_receipt marking_crypto receipt fixed_record fixed_issuer None = Inr (sr_payload receipt)"
    by (rule receipt_roundtrip [OF marking_crypto_ok r fixed_issuer_key])
  have "sr_key_id receipt = str ''i''" by (rule create_ingestion_receipt_Inr [OF r])
  have nc: "\<forall>b b'. serialize_record fixed_record = Inr b \<and> serialize_record fixed_record = Inr b'
      \<and> sha256 marking_crypto b = sha256 marking_crypto b' \<longrightarrow> b = b'" by auto
  have "map_option rk_namespace (map_of fixed_issuer (sr_key_id receipt)) = Some Issuer"
    using receipt_binds_record [OF marking_crypto_ok v v nc] by (elim conjE)
  with \<open>sr_key_id receipt = str ''i''\<close> show ?thesis by blast
qed

end
