(* ===== verification/Bundles.thy ===== *)
theory Bundles
  imports Receipts
begin

text \<open>
  \<^verbatim>\<open>sdk_python/evidence/bundle.py\<close>: the attestation bundle, a canonical JSON array of complete
  signed records in ascending byte order.  \<open>parse_bundle\<close> and \<open>assemble_bundle\<close> are the
  public functions.
\<close>

definition REQUIRED_SINGLETON :: pystr where
  "REQUIRED_SINGLETON = str ''AttestationWindow''"

definition OPTIONAL_SINGLETON :: pystr where
  "OPTIONAL_SINGLETON = str ''AssuranceBoundary''"

datatype bundle_error =
    BundleShapeError
  | NonCanonicalBundleError
  | BundleOrderError
  | BundleCardinalityError
  | BrokenStreamLinkError
  | BundleVersion version_error
  | BundleRecord receipt_error
  | BundleCanon canon_error

record stream_link =
  sl_stream_id :: pystr
  sl_from_sequence :: int
  sl_to_sequence :: int
  sl_checked :: bool

record evidence_bundle =
  bd_records :: "evidence_record list"
  bd_by_type :: "(pystr \<times> evidence_record list) list"
  bd_canonical_bytes :: bytes
  bd_stream_links :: "stream_link list"

section \<open>The container\<close>

definition decode_array :: "(bytes \<Rightarrow> pystr option) \<Rightarrow> bytes \<Rightarrow> bundle_error + pyval list" where
  "decode_array other raw =
     (case json_loads other raw of Inr (PList xs) \<Rightarrow> Inr xs | _ \<Rightarrow> Inl BundleShapeError)"

definition bundle_canon :: "pyval \<Rightarrow> bundle_error + bytes" where
  "bundle_canon v = (case canonicalize v of Inl e \<Rightarrow> Inl (BundleCanon e) | Inr b \<Rightarrow> Inr b)"

definition require_canonical :: "bytes \<Rightarrow> pyval list \<Rightarrow> bundle_error + bytes" where
  "require_canonical raw decoded =
     rbind (bundle_canon (PList decoded)) (\<lambda>b.
     if b \<noteq> raw then Inl NonCanonicalBundleError else Inr b)"

fun require_ascending :: "bytes list \<Rightarrow> bundle_error + unit" where
  "require_ascending (a # b # bs) =
     (if b < a then Inl BundleOrderError else require_ascending (b # bs))"
| "require_ascending _ = Inr ()"

definition require_cardinality :: "(pystr \<times> evidence_record list) list \<Rightarrow> bundle_error + unit" where
  "require_cardinality by_type =
     (if length (dget by_type REQUIRED_SINGLETON) \<noteq> 1 then Inl BundleCardinalityError
      else if 1 < length (dget by_type OPTIONAL_SINGLETON) then Inl BundleCardinalityError
      else Inr ())"

definition index_by_record_type :: "evidence_record list \<Rightarrow> (pystr \<times> evidence_record list) list" where
  "index_by_record_type records = group_by record_type records"

section \<open>Stream links\<close>

definition link :: "pystr \<Rightarrow> evidence_record \<Rightarrow> evidence_record \<Rightarrow> bool \<Rightarrow> stream_link" where
  "link s previous current checked =
     \<lparr>sl_stream_id = s, sl_from_sequence = sequence previous, sl_to_sequence = sequence current,
      sl_checked = checked\<rparr>"

fun group_links ::
    "('sk, 'pk) crypto \<Rightarrow> pystr \<Rightarrow> evidence_record list \<Rightarrow> bundle_error + stream_link list" where
  "group_links c s (previous # current # rs) =
     (if sequence current = sequence previous then Inl BundleCardinalityError
      else if sequence current \<noteq> sequence previous + 1
      then rbind (group_links c s (current # rs)) (\<lambda>ls. Inr (link s previous current False # ls))
      else case record_digest (sha256 c) previous of
             Inl e \<Rightarrow> Inl (BundleCanon e)
           | Inr d \<Rightarrow>
               if prev_digest current \<noteq> Some d then Inl BrokenStreamLinkError
               else rbind (group_links c s (current # rs)) (\<lambda>ls. Inr (link s previous current True # ls)))"
| "group_links c s _ = Inr []"

definition stream_links :: "('sk, 'pk) crypto \<Rightarrow> evidence_record list \<Rightarrow> bundle_error + stream_link list" where
  "stream_links c records =
     rbind (rmap (\<lambda>(s, group). group_links c s (sort_key sequence group))
              (sort_key fst (group_by stream_id records)))
       (\<lambda>ls. Inr (concat ls))"

section \<open>Parsing and assembling\<close>

definition verify_element ::
    "('sk, 'pk) crypto \<Rightarrow> (bytes \<Rightarrow> pystr option) \<Rightarrow> 'pk registry \<Rightarrow> pydict \<Rightarrow> bytes
     \<Rightarrow> bundle_error + evidence_record" where
  "verify_element c other reg element element_canonical =
     (case validate_record element of
        Inl _ \<Rightarrow> Inl BundleShapeError
      | Inr candidate \<Rightarrow>
          (case require_published_schema_version (PStr (schema_version candidate)) of
             Inl e \<Rightarrow> Inl (BundleVersion e)
           | Inr _ \<Rightarrow>
               (case verify_canonical_evidence_record c other element_canonical reg of
                  Inl e \<Rightarrow> Inl (BundleRecord e)
                | Inr _ \<Rightarrow> Inr candidate)))"

definition bundle_record ::
    "('sk, 'pk) crypto \<Rightarrow> (bytes \<Rightarrow> pystr option) \<Rightarrow> 'pk registry \<Rightarrow> pyval \<times> bytes
     \<Rightarrow> bundle_error + evidence_record" where
  "bundle_record c other reg eb =
     (case eb of (PDict d, b) \<Rightarrow> verify_element c other reg d b | _ \<Rightarrow> Inl BundleShapeError)"

definition parse_bundle ::
    "('sk, 'pk) crypto \<Rightarrow> (bytes \<Rightarrow> pystr option) \<Rightarrow> 'pk registry \<Rightarrow> bytes \<Rightarrow> bundle_error + evidence_bundle" where
  "parse_bundle c other reg raw =
     rbind (decode_array other raw) (\<lambda>decoded.
     rbind (require_canonical raw decoded) (\<lambda>canonical.
     rbind (rmap bundle_canon decoded) (\<lambda>element_bytes.
     rbind (require_ascending element_bytes) (\<lambda>_.
     rbind (rmap (bundle_record c other reg) (zip decoded element_bytes)) (\<lambda>records.
     let by_type = index_by_record_type records in
     rbind (require_cardinality by_type) (\<lambda>_.
     let attestation = hd (dget by_type REQUIRED_SINGLETON) in
     case require_published_methodology_version
            (PStr (str_of (member (body attestation) ''methodology_version''))) of
       Inl e \<Rightarrow> Inl (BundleVersion e)
     | Inr _ \<Rightarrow>
         rbind (stream_links c records) (\<lambda>links.
         Inr \<lparr>bd_records = records, bd_by_type = by_type, bd_canonical_bytes = canonical,
              bd_stream_links = links\<rparr>)))))))"

definition bundle_attestation :: "evidence_bundle \<Rightarrow> evidence_record" where
  "bundle_attestation b = hd (dget (bd_by_type b) REQUIRED_SINGLETON)"

definition bundle_boundary :: "evidence_bundle \<Rightarrow> evidence_record option" where
  "bundle_boundary b =
     (case dget (bd_by_type b) OPTIONAL_SINGLETON of [] \<Rightarrow> None | r # _ \<Rightarrow> Some r)"

definition of_type :: "evidence_bundle \<Rightarrow> pystr \<Rightarrow> evidence_record list" where
  "of_type b t = dget (bd_by_type b) t"

definition unchecked_links :: "evidence_bundle \<Rightarrow> stream_link list" where
  "unchecked_links b = filter (\<lambda>l. \<not> sl_checked l) (bd_stream_links b)"

definition assemble_bundle :: "evidence_record list \<Rightarrow> canon_error + bytes" where
  "assemble_bundle records =
     rbind (rmap serialize_record records) (\<lambda>elements.
     Inr ([91] @ join_comma (sort elements) @ [93]))"

section \<open>Links\<close>

text \<open>Neighbours of a stream that a link may join, and the links between the neighbours of a list.\<close>

definition link_ok :: "('sk, 'pk) crypto \<Rightarrow> evidence_record \<Rightarrow> evidence_record \<Rightarrow> bool" where
  "link_ok c p q \<longleftrightarrow> sequence q \<noteq> sequence p
     \<and> (sequence q = sequence p + 1 \<longrightarrow> prev_digest q = digest_opt c p \<and> digest_opt c p \<noteq> None)"

definition links_of :: "pystr \<Rightarrow> evidence_record list \<Rightarrow> stream_link list" where
  "links_of s g = map (\<lambda>(p, q). link s p q (sequence q = sequence p + 1)) (zip g (tl g))"

lemma group_links_iff: "group_links c s g = Inr ls \<longleftrightarrow> successively (link_ok c) g \<and> ls = links_of s g"
proof (induction c s g arbitrary: ls rule: group_links.induct)
  case (1 c s p q rs)
  have step: "links_of s (p # q # rs) = link s p q (sequence q = sequence p + 1) # links_of s (q # rs)"
    by (simp add: links_of_def)
  consider "sequence q = sequence p" | "sequence q \<noteq> sequence p" "sequence q \<noteq> sequence p + 1"
    | "sequence q = sequence p + 1" by blast
  then show ?case
  proof cases
    case 3
    then show ?thesis using "1.IH"(2)
      by (cases "record_digest (sha256 c) p") (auto simp: step result_simps link_ok_def digest_opt_def)
  qed (use "1.IH"(1) in \<open>auto simp: step result_simps link_ok_def\<close>)
qed (auto simp: links_of_def)

section \<open>Assembling\<close>

lemma utf8_append: "utf8 (s @ t) = utf8 s @ utf8 t"
  by (simp add: utf8_def)

lemma utf8_join_comma: "utf8 (join_comma ps) = join_comma (map utf8 ps)"
  by (induction ps rule: join_comma.induct) (simp_all add: utf8_append, simp_all add: utf8_def utf8_char_def)

lemma canonicalize_PList:
  "canonicalize (PList xs) = rbind (rmap canonicalize xs) (\<lambda>bs. Inr ([91] @ join_comma bs @ [93]))"
proof -
  have "rmap canonicalize xs = rbind (rmap serialize xs) (\<lambda>ts. Inr (map utf8 ts))"
    by (induction xs) (auto simp: canonicalize_def rbind_def split: sum.split)
  moreover have "utf8 ([91] @ s @ [93]) = [91] @ utf8 s @ [93]" for s
    by (simp add: utf8_append utf8_def utf8_char_def)
  ultimately show ?thesis
    by (simp add: canonicalize_def utf8_join_comma rbind_def split: sum.split)
qed

lemma require_ascending_sorted: "require_ascending bs = Inr () \<longleftrightarrow> sorted bs"
proof (induction bs rule: require_ascending.induct)
  case (1 a b bs)
  then show ?case by (auto simp: sorted2 not_less)
qed simp_all

lemma rmap_sort_key:
  assumes "rmap f xs = Inr ys"
  shows "\<exists>xs'. mset xs' = mset xs \<and> rmap f xs' = Inr (sort ys)"
proof -
  let ?zs = "zip xs ys" and ?s = "sort_key snd (zip xs ys)"
  have all2: "list_all2 (\<lambda>x y. f x = Inr y) xs ys" using assms by (simp add: rmap_eq_Inr_iff)
  then have len: "length xs = length ys" by (rule list_all2_lengthD)
  have "\<forall>p \<in> set ?zs. f (fst p) = Inr (snd p)"
    using all2 by (auto simp: list_all2_iff)
  then have "list_all2 (\<lambda>x y. f x = Inr y) (map fst ?s) (map snd ?s)"
    by (simp add: list.rel_map list_all2_same)
  moreover have "map snd ?s = sort ys" using len by (simp add: map_sort_key_eq_sort_map)
  moreover have "mset (map fst ?s) = mset xs"
  proof -
    have "mset (map fst ?s) = image_mset fst (mset ?zs)" by simp
    also have "\<dots> = mset (map fst ?zs)" by (simp only: mset_map)
    finally show ?thesis using len by simp
  qed
  ultimately show ?thesis unfolding rmap_eq_Inr_iff by (metis (no_types, lifting))
qed

lemma rmap_permuted:
  assumes "rmap f xs = Inr ys" "mset xs' = mset xs"
  shows "\<exists>ys'. rmap f xs' = Inr ys' \<and> mset ys' = mset ys"
proof -
  have "\<forall>x \<in> set xs'. \<exists>y. f x = Inr y"
    using assms rmap_ok_iff [of f xs] mset_eq_setD [OF assms(2)] by auto
  then obtain ys' where ys': "rmap f xs' = Inr ys'" using rmap_ok_iff [of f xs'] by auto
  have vals: "zs = map (\<lambda>x. case f x of Inr y \<Rightarrow> y | Inl _ \<Rightarrow> undefined) qs" if "rmap f qs = Inr zs" for qs zs
    using that by (induction qs arbitrary: zs) (auto simp: result_simps)
  have "mset ys' = mset ys" using vals [OF ys'] vals [OF assms(1)] assms(2) by (metis mset_map)
  with ys' show ?thesis by blast
qed

lemma assemble_bundle_permuted:
  assumes "assemble_bundle rs = Inr b" "mset rs' = mset rs"
  shows "assemble_bundle rs' = Inr b"
proof -
  obtain es where es: "rmap serialize_record rs = Inr es" "b = [91] @ join_comma (sort es) @ [93]"
    using assms(1) by (auto simp: assemble_bundle_def result_simps)
  obtain es' where es': "rmap serialize_record rs' = Inr es'" "mset es' = mset es"
    using rmap_permuted [OF es(1) assms(2)] by blast
  then have "sort es' = sort es" by (intro properties_for_sort) simp_all
  then show ?thesis using es es'(1) by (simp add: assemble_bundle_def)
qed

lemma assemble_bundle_canonical:
  assumes a: "assemble_bundle rs = Inr b" and wf: "\<forall>r \<in> set rs. wf_value (PDict (record_members r))"
  shows "\<exists>decoded es. decode_array other b = Inr decoded \<and> require_canonical b decoded = Inr b
    \<and> rmap bundle_canon decoded = Inr es \<and> require_ascending es = Inr ()"
proof -
  obtain es where es: "rmap serialize_record rs = Inr es" "b = [91] @ join_comma (sort es) @ [93]"
    using a by (auto simp: assemble_bundle_def result_simps)
  obtain rs' where rs': "mset rs' = mset rs" "rmap serialize_record rs' = Inr (sort es)"
    using rmap_sort_key [OF es(1)] by blast
  let ?vs = "map (\<lambda>r. PDict (record_members r)) rs'"
  have map: "rmap f (map g xs) = rmap (\<lambda>x. f (g x)) xs" for f :: "pyval \<Rightarrow> 'e + bytes" and g :: "evidence_record \<Rightarrow> pyval" and xs
    by (induction xs) auto
  have canon: "rmap canonicalize ?vs = Inr (sort es)"
    using rs'(2) by (simp add: map serialize_record_def [abs_def])
  then have b: "canonicalize (PList ?vs) = Inr b" by (simp add: canonicalize_PList es(2))
  have "wf_value (PList ?vs)"
    using wf mset_eq_setD [OF rs'(1)] by (auto simp: list_all_iff simp del: wf_value.simps(3))
  from json_loads_canonical [OF b this, of other]
  have load: "json_loads other b = Inr (PList (map norm_value ?vs))" by simp
  have "canonicalize (norm_value v) = canonicalize v" for v
    by (simp add: canonicalize_def serialize_norm_value)
  then have n: "rmap canonicalize (map norm_value vs) = rmap canonicalize vs" for vs
    by (induction vs) auto
  have dec: "decode_array other b = Inr (map norm_value ?vs)" by (simp add: decode_array_def load)
  have req: "require_canonical b (map norm_value ?vs) = Inr b"
    using b by (simp add: require_canonical_def bundle_canon_def canonicalize_PList n del: map_map)
  have conv: "rmap canonicalize vs = Inr ts \<Longrightarrow> rmap bundle_canon vs = Inr ts" for vs ts
    by (induction vs arbitrary: ts) (auto simp: result_simps bundle_canon_def)
  have "rmap canonicalize (map norm_value ?vs) = Inr (sort es)" using n canon by metis
  then have "rmap bundle_canon (map norm_value ?vs) = Inr (sort es)" by (rule conv)
  moreover have "require_ascending (sort es) = Inr ()" by (simp add: require_ascending_sorted)
  ultimately show ?thesis using dec req by blast
qed

section \<open>Accepted bundles\<close>

lemma decode_array_Inr: "decode_array other raw = Inr d \<longleftrightarrow> json_loads other raw = Inr (PList d)"
  by (auto simp: decode_array_def split: sum.splits pyval.splits)

lemma require_canonical_Inr:
  "require_canonical raw d = Inr r \<longleftrightarrow> canonicalize (PList d) = Inr raw \<and> r = raw"
  by (cases "canonicalize (PList d)") (auto simp: require_canonical_def bundle_canon_def)

lemma require_cardinality_Inr:
  "require_cardinality (index_by_record_type rs) = Inr u \<longleftrightarrow>
     length (filter (\<lambda>r. record_type r = REQUIRED_SINGLETON) rs) = 1
     \<and> length (filter (\<lambda>r. record_type r = OPTIONAL_SINGLETON) rs) \<le> 1"
  by (auto simp: require_cardinality_def index_by_record_type_def)

lemma methodology_case:
  "(case require_published_methodology_version (PStr t) of Inl e \<Rightarrow> Inl (f e) | Inr _ \<Rightarrow> k) = Inr x \<longleftrightarrow>
     t = str ''1.0.0'' \<and> k = Inr x"
proof (cases "require_published_methodology_version (PStr t)")
  case (Inl e)
  then have "t \<noteq> str ''1.0.0''" by (metis Inl_Inr_False methodology_version_ok_iff)
  with Inl show ?thesis by simp
next
  case (Inr s)
  then have "t = str ''1.0.0''" by (simp add: methodology_version_ok_iff)
  with Inr show ?thesis by simp
qed

lemma parse_bundle_Inr:
  assumes "parse_bundle c other reg raw = Inr b"
  obtains decoded es where "json_loads other raw = Inr (PList decoded)"
    "canonicalize (PList decoded) = Inr raw" "rmap bundle_canon decoded = Inr es" "sorted es"
    "rmap (bundle_record c other reg) (zip decoded es) = Inr (bd_records b)"
    "bd_by_type b = group_by record_type (bd_records b)"
    "length (filter (\<lambda>r. record_type r = REQUIRED_SINGLETON) (bd_records b)) = 1"
    "length (filter (\<lambda>r. record_type r = OPTIONAL_SINGLETON) (bd_records b)) \<le> 1"
    "str_of (member (body (bundle_attestation b)) ''methodology_version'') = str ''1.0.0''"
    "stream_links c (bd_records b) = Inr (bd_stream_links b)" "bd_canonical_bytes b = raw"
proof -
  have rec: "(Inr x :: bundle_error + evidence_bundle) = Inr b \<longleftrightarrow> b = x" for x by auto
  obtain decoded canonical es u records u2 links where a: "decode_array other raw = Inr decoded"
    "require_canonical raw decoded = Inr canonical" "rmap bundle_canon decoded = Inr es"
    "require_ascending es = Inr u" "rmap (bundle_record c other reg) (zip decoded es) = Inr records"
    "require_cardinality (index_by_record_type records) = Inr u2"
    "str_of (member (body (hd (dget (index_by_record_type records) REQUIRED_SINGLETON))) ''methodology_version'')
       = str ''1.0.0''"
    "stream_links c records = Inr links"
    "b = \<lparr>bd_records = records, bd_by_type = index_by_record_type records, bd_canonical_bytes = canonical,
          bd_stream_links = links\<rparr>"
    using assms unfolding parse_bundle_def Let_def rbind_eq_Inr methodology_case rec by blast
  show thesis
    by (rule that [OF a(1) [unfolded decode_array_Inr] _ a(3)])
      (use a(2,6) [unfolded require_canonical_Inr require_cardinality_Inr] a(4,5,7,8) in
        \<open>simp_all add: a(9) bundle_attestation_def index_by_record_type_def require_ascending_sorted\<close>)
qed

text \<open>An element is accepted when it is a valid record with its own canonical bytes and origin.\<close>

lemma bundle_record_Inr:
  assumes "bundle_record c other reg (v, es) = Inr r"
  shows "\<exists>d. v = PDict d \<and> validate_record d = Inr r \<and> schema_version r = str ''1.0.0''
    \<and> (\<exists>r'. verify_canonical_evidence_record c other es reg = Inr r')"
  using assms
  by (auto simp: bundle_record_def verify_element_def schema_version_ok_iff split: pyval.splits sum.splits)

text \<open>The records of a stream as the links see them, and the streams in their order.\<close>

definition held_of :: "evidence_record list \<Rightarrow> pystr \<Rightarrow> evidence_record list" where
  "held_of rs s = sort_key sequence (filter (\<lambda>r. stream_id r = s) rs)"

lemma sorted_groups:
  fixes f :: "'a \<Rightarrow> 'k::linorder"
  shows "sort_key fst (group_by f xs) = map (\<lambda>k. (k, filter (\<lambda>x. f x = k) xs)) (sort (remdups (map f xs)))"
proof -
  let ?G = "sort_key fst (group_by f xs)"
  have "mset (map fst ?G) = mset (map fst (group_by f xs))" by simp
  then have "distinct (map fst ?G)" using distinct_group_by mset_eq_imp_distinct_iff by metis
  then have keys: "map fst ?G = sort (remdups (map f xs))"
    by (intro sorted_distinct_set_unique) (simp_all add: keys_group_by)
  have "map (\<lambda>k. (k, filter (\<lambda>x. f x = k) xs)) (map fst ?G) = ?G"
    by (simp only: map_map, rule map_idI) (auto dest: group_by_mem)
  then show ?thesis unfolding keys by (rule sym)
qed

lemma stream_links_iff:
  "stream_links c rs = Inr links \<longleftrightarrow>
     (\<forall>s \<in> stream_id ` set rs. successively (link_ok c) (held_of rs s))
     \<and> links = concat (map (\<lambda>s. links_of s (held_of rs s)) (sort (remdups (map stream_id rs))))"
proof -
  have all: "rmap (\<lambda>(s, g). group_links c s (sort_key sequence g)) (map (\<lambda>s. (s, filter (\<lambda>r. stream_id r = s) rs)) ss) = Inr lss
      \<longleftrightarrow> (\<forall>s \<in> set ss. successively (link_ok c) (held_of rs s)) \<and> lss = map (\<lambda>s. links_of s (held_of rs s)) ss" for ss lss
    by (induction ss arbitrary: lss) (auto simp: result_simps group_links_iff held_of_def)
  show ?thesis unfolding stream_links_def sorted_groups by (auto simp: rbind_eq_Inr all)
qed

section \<open>Properties\<close>

text \<open>
  C4: what an accepted bundle is: canonical bytes of an array whose elements ascend, each element a
  valid record of a published schema version whose own canonical bytes verify under its origin, with
  exactly one attestation (of the published methodology) and at most one boundary.
\<close>

theorem accepted_bundle:
  assumes "parse_bundle c other reg raw = Inr b"
  shows "(\<exists>elements. canonicalize (PList elements) = Inr raw \<and> length elements = length (bd_records b)
      \<and> (\<forall>i < length elements. \<exists>d e r'. elements ! i = PDict d \<and> validate_record d = Inr (bd_records b ! i)
           \<and> canonicalize (PDict d) = Inr e \<and> verify_canonical_evidence_record c other e reg = Inr r'
           \<and> schema_version (bd_records b ! i) = str ''1.0.0''
           \<and> (\<forall>j e'. i < j \<and> j < length elements \<and> canonicalize (elements ! j) = Inr e' \<longrightarrow> e \<le> e')))
    \<and> of_type b REQUIRED_SINGLETON = [bundle_attestation b]
    \<and> length (of_type b OPTIONAL_SINGLETON) \<le> 1
    \<and> str_of (member (body (bundle_attestation b)) ''methodology_version'') = str ''1.0.0''"
proof -
  obtain xs es where p: "canonicalize (PList xs) = Inr raw" "rmap bundle_canon xs = Inr es" "sorted es"
    "rmap (bundle_record c other reg) (zip xs es) = Inr (bd_records b)"
    "bd_by_type b = group_by record_type (bd_records b)"
    "length (filter (\<lambda>r. record_type r = REQUIRED_SINGLETON) (bd_records b)) = 1"
    "length (filter (\<lambda>r. record_type r = OPTIONAL_SINGLETON) (bd_records b)) \<le> 1"
    "str_of (member (body (bundle_attestation b)) ''methodology_version'') = str ''1.0.0''"
    by (rule parse_bundle_Inr [OF assms])
  have len: "length es = length xs" "length (bd_records b) = length xs"
    using rmap_length [OF p(2)] rmap_length [OF p(4)] by simp_all
  have canon: "canonicalize (xs ! i) = Inr (es ! i)" if "i < length xs" for i
    using list_all2_nthD [OF p(2) [unfolded rmap_eq_Inr_iff] that]
    by (auto simp: bundle_canon_def split: sum.splits)
  have rec: "bundle_record c other reg (xs ! i, es ! i) = Inr (bd_records b ! i)" if "i < length xs" for i
    using list_all2_nthD [OF p(4) [unfolded rmap_eq_Inr_iff], of i] that len by simp
  have "\<exists>d e r'. xs ! i = PDict d \<and> validate_record d = Inr (bd_records b ! i)
      \<and> canonicalize (PDict d) = Inr e \<and> verify_canonical_evidence_record c other e reg = Inr r'
      \<and> schema_version (bd_records b ! i) = str ''1.0.0''
      \<and> (\<forall>j e'. i < j \<and> j < length xs \<and> canonicalize (xs ! j) = Inr e' \<longrightarrow> e \<le> e')"
    if i: "i < length xs" for i
  proof -
    obtain d r' where d: "xs ! i = PDict d" "validate_record d = Inr (bd_records b ! i)"
      "schema_version (bd_records b ! i) = str ''1.0.0''"
      "verify_canonical_evidence_record c other (es ! i) reg = Inr r'"
      using bundle_record_Inr [OF rec [OF i]] by blast
    have "e' = es ! j" if "j < length xs" "canonicalize (xs ! j) = Inr e'" for j e'
      using canon [OF that(1)] that(2) by simp
    moreover have "es ! i \<le> es ! j" if "i < j" "j < length xs" for j
      using sorted_nth_mono [OF p(3), of i j] that len by simp
    ultimately have "\<forall>j e'. i < j \<and> j < length xs \<and> canonicalize (xs ! j) = Inr e' \<longrightarrow> es ! i \<le> e'"
      by blast
    with d canon [OF i] show ?thesis by (intro exI [of _ d] exI [of _ "es ! i"] exI [of _ r']) simp
  qed
  moreover have "of_type b REQUIRED_SINGLETON = [bundle_attestation b]"
    using p(5,6) by (auto simp: of_type_def bundle_attestation_def length_Suc_conv)
  moreover have "length (of_type b OPTIONAL_SINGLETON) \<le> 1" using p(5,7) by (simp add: of_type_def)
  ultimately show ?thesis using p(1,8) len by (intro conjI exI [of _ xs]) simp_all
qed

text \<open>
  C25: exactly which links a bundle reports.  The links are computed if and only if in every stream, sorted by
  sequence, no two records share a position and each record at the sequence right behind another
  names the digest of that complete record; and they then are, stream by stream in order, one link
  between any two neighbours and no other, checked if their sequences are consecutive and reported
  as unchecked across an omission.
\<close>

theorem bundle_links_checked_iff_consecutive:
  "stream_links c rs = Inr links \<longleftrightarrow>
     (\<forall>s \<in> stream_id ` set rs. successively (\<lambda>p q. sequence q \<noteq> sequence p
        \<and> (sequence q = sequence p + 1 \<longrightarrow> prev_digest q = digest_opt c p \<and> digest_opt c p \<noteq> None)) (held_of rs s))
     \<and> links = concat (map (\<lambda>s. map (\<lambda>(p, q). link s p q (sequence q = sequence p + 1))
          (zip (held_of rs s) (tl (held_of rs s)))) (sort (remdups (map stream_id rs))))"
  by (simp only: stream_links_iff links_of_def link_ok_def [abs_def])

text \<open>
  C26: assembling is deterministic: the same set of records gives the same bytes in whatever order
  they are held, and those bytes pass the parser's shape, canonical-form and order checks.
\<close>

theorem assemble_bundle_deterministic:
  assumes "assemble_bundle rs = Inr b" and "mset rs' = mset rs"
    and "\<forall>r \<in> set rs. wf_value (PDict (record_members r))"
  shows "assemble_bundle rs' = Inr b
    \<and> (\<exists>decoded es. decode_array other b = Inr decoded \<and> require_canonical b decoded = Inr b
         \<and> rmap bundle_canon decoded = Inr es \<and> require_ascending es = Inr ())"
  using assemble_bundle_permuted [OF assms(1,2)] assemble_bundle_canonical [OF assms(1,3)] by blast

section \<open>Witnesses\<close>

text \<open>An attestation with both proofs, its dictionaries in canonical order.\<close>

definition sample_time :: pyval where "sample_time = PStr (str ''2026-01-01T00:00:00.000Z'')"

definition later_time :: pyval where "later_time = PStr (str ''2026-02-01T00:00:00.000Z'')"

definition window_body :: pydict where
  "window_body = [(KStr (str ''assertions''), PList []), (KStr (str ''boundary_ref''), PStr (str ''b'')),
    (KStr (str ''counts''), PDict []), (KStr (str ''coverage_level''), PStr (str ''l'')),
    (KStr (str ''coverage_ratio''), PNone), (KStr (str ''denominator_class''), PStr (str ''C1'')),
    (KStr (str ''exclusions''), PList []), (KStr (str ''gaps''), PList []), (KStr (str ''issued_at''), sample_time),
    (KStr (str ''issuer''), PNone), (KStr (str ''liability_ref''), PStr (str ''l'')),
    (KStr (str ''methodology_version''), PStr (str ''1.0.0'')), (KStr (str ''population_record_refs''), PList []),
    (KStr (str ''relying_parties''), PList []), (KStr (str ''validity_from''), sample_time), (KStr (str ''validity_until''), later_time),
    (KStr (str ''verification_status''), PStr (str ''self_computed'')), (KStr (str ''verifier_version''), PStr (str ''v'')),
    (KStr (str ''window_end''), later_time), (KStr (str ''window_start''), sample_time)]"

definition window_record :: evidence_record where
 "window_record = \<lparr>record_id = str ''01890a5d-ac96-774b-bcce-b302099a8057'', record_type = str ''AttestationWindow'',
   schema_version = str ''1.0.0'', tenant_id = str ''t'', boundary_ref = str ''b'', stream_id = str ''s'', sequence = 1,
   prev_digest = None, source = [], record_clocks = \<lparr>source_time = str ''2026-01-01T00:00:00.000Z'', authoritative_time = None\<rparr>,
   body = window_body, signature = [(KStr (str ''alg''), PStr ALGORITHM),
     (KStr (str ''issuer''), PDict (signature_object (str ''i'') (plain_sign 6 (replicate 32 0)) zero_digest)),
     (KStr (str ''key_id''), PStr (str ''k'')), (KStr (str ''sig''), PStr (encode_base64url (plain_sign 5 (replicate 32 0)))),
     (KStr (str ''signed_digest''), PStr zero_digest)]\<rparr>"

definition window_registry :: "nat registry" where
  "window_registry = [(str ''k'', \<lparr>rk_namespace = Evidence, rk_public_key = 5\<rparr>),
     (str ''i'', \<lparr>rk_namespace = Issuer, rk_public_key = 6\<rparr>)]"

lemma window_record_valid: "validate_record (record_members window_record) = Inr window_record"
  by code_simp

lemma window_record_wf: "wf_value (PDict (record_members window_record))"
  by code_simp

lemma window_record_portable: "portable (PDict (record_members window_record))"
  by code_simp

lemma window_record_signed:
  "verify_record_signature const_crypto window_record (public_keys_of window_registry) = Inr (str ''k'')"
  by code_simp

lemma window_record_counter_signed:
  "verify_attestation_counter_signature const_crypto window_record (public_keys_of window_registry)
     = Inr (str ''i'')"
  by code_simp

lemma window_record_body_norm: "norm_dict (body window_record) = body window_record"
  by code_simp

lemma window_record_signature_norm: "norm_dict (signature window_record) = signature window_record"
  by code_simp

lemma window_record_norm: "record_of (norm_dict (record_members window_record)) = window_record"
  by code_simp

lemmas window_record_facts = window_record_valid window_record_wf window_record_portable
  window_record_body_norm window_record_signature_norm window_record_signed window_record_counter_signed

lemma window_bundle:
  obtains raw b where "assemble_bundle [window_record] = Inr raw"
    "parse_bundle const_crypto (\<lambda>_. None) window_registry raw = Inr b" "bd_records b = [window_record]"
proof -
  let ?d = "record_members window_record"
  have auth: "authenticated const_crypto window_registry window_record (str ''k'')"
    using window_record_facts(6) unfolding authenticated_def
    by (simp add: window_record_def window_registry_def primary_signer_namespace_def
        PRIMARY_SIGNER_NAMESPACE_def)
  have issuer: "map_option rk_namespace (map_of window_registry (str ''i'')) = Some Issuer"
    by (simp add: window_registry_def)
  obtain e where e': "serialize_record window_record = Inr e"
    and es: "canonicalize (PDict (norm_dict ?d)) = Inr e"
    and valid: "validate_record (norm_dict ?d) = Inr window_record"
    and v: "verify_canonical_evidence_record const_crypto (\<lambda>_. None) e window_registry = Inr window_record"
    by (rule received_canonical [OF window_record_valid window_record_wf window_record_portable
          window_record_norm auth]) (use window_record_counter_signed issuer in blast)+
  have e: "canonicalize (PDict ?d) = Inr e" using e' by (simp add: serialize_record_def)
  let ?raw = "[91] @ e @ [93]"
  have a: "assemble_bundle [window_record] = Inr ?raw" using e by (simp add: assemble_bundle_def serialize_record_def)
  have wf: "\<forall>r \<in> set [window_record]. wf_value (PDict (record_members r))"
    using window_record_facts(2) by (simp del: wf_value.simps)
  have "canonicalize (PList [PDict ?d]) = Inr ?raw" using e by (simp add: canonicalize_PList)
  from json_loads_canonical [OF this, of "\<lambda>_. None"] window_record_facts(2)
  have dec: "decode_array (\<lambda>_. None) ?raw = Inr [PDict (norm_dict ?d)]"
    by (simp add: decode_array_Inr norm_value_PDict del: norm_value.simps(2) wf_value.simps(3))
  have req: "require_canonical ?raw [PDict (norm_dict ?d)] = Inr ?raw"
    using es by (simp add: require_canonical_Inr canonicalize_PList)
  have elem: "bundle_record const_crypto (\<lambda>_. None) window_registry (PDict (norm_dict ?d), e) = Inr window_record"
    using valid v by (simp add: bundle_record_def verify_element_def schema_version_ok_iff [THEN iffD2] window_record_def)
  have type: "record_type window_record = REQUIRED_SINGLETON"
    by (simp add: window_record_def REQUIRED_SINGLETON_def)
  have card: "require_cardinality (index_by_record_type [window_record]) = Inr ()"
    by (simp add: require_cardinality_Inr type REQUIRED_SINGLETON_def OPTIONAL_SINGLETON_def)
  have "str_of (member (body window_record) ''methodology_version'') = str ''1.0.0''" by code_simp
  then have meth: "require_published_methodology_version (PStr (str_of (member (body window_record)
      ''methodology_version''))) = Inr (str ''1.0.0'')"
    by (simp add: methodology_version_ok_iff)
  have links: "stream_links const_crypto [window_record] = Inr []"
    by (simp add: stream_links_def group_by_def)
  have "\<exists>b. parse_bundle const_crypto (\<lambda>_. None) window_registry ?raw = Inr b \<and> bd_records b = [window_record]"
    using dec req es elem card meth links type
    by (simp add: parse_bundle_def Let_def bundle_canon_def index_by_record_type_def)
  then show thesis using that a by blast
qed

theorem accepted_bundle_witness:
  "\<exists>raw b. parse_bundle const_crypto (\<lambda>_. None) window_registry raw = Inr b
     \<and> of_type b REQUIRED_SINGLETON = [bundle_attestation b] \<and> bd_records b = [window_record]"
proof -
  obtain raw b where p: "parse_bundle const_crypto (\<lambda>_. None) window_registry raw = Inr b"
    "bd_records b = [window_record]" by (rule window_bundle)
  show ?thesis using accepted_bundle [OF p(1)] p by blast
qed

text \<open>Three records of one stream, held out of order, the middle position omitted.\<close>

definition later_record :: "int \<Rightarrow> evidence_record" where
  "later_record n = window_record\<lparr>sequence := n, prev_digest := Some zero_digest\<rparr>"

theorem bundle_links_checked_iff_consecutive_witness:
  "link (str ''s'') (later_record 2) (later_record 4) False
     \<in> set [link (str ''s'') window_record (later_record 2) True, link (str ''s'') (later_record 2) (later_record 4) False]
   \<and> digest_opt const_crypto window_record \<noteq> None"
proof -
  let ?rs = "[later_record 2, window_record, later_record 4]"
  let ?g = "[window_record, later_record 2, later_record 4]"
  have links: "stream_links const_crypto ?rs
     = Inr [link (str ''s'') window_record (later_record 2) True, link (str ''s'') (later_record 2) (later_record 4) False]"
    by code_simp
  have g: "held_of ?rs (str ''s'') = ?g" "str ''s'' \<in> stream_id ` set ?rs"
    "sequence (later_record 2) = sequence window_record + 1" by code_simp+
  from links [unfolded bundle_links_checked_iff_consecutive] g have "digest_opt const_crypto window_record \<noteq> None"
    by auto
  then show ?thesis by simp
qed

theorem assemble_bundle_deterministic_witness:
  "\<exists>raw. assemble_bundle [window_record] = Inr raw \<and> (\<exists>decoded. decode_array (\<lambda>_. None) raw = Inr decoded)"
proof -
  obtain raw where a: "assemble_bundle [window_record] = Inr raw" by (rule window_bundle)
  have wf: "\<forall>r \<in> set [window_record]. wf_value (PDict (record_members r))"
    using window_record_facts(2) by (simp del: wf_value.simps)
  show ?thesis using assemble_bundle_deterministic [OF a refl wf, of "\<lambda>_. None"] by blast
qed

end
