(* ===== verification/Revocations.thy ===== *)
theory Revocations
  imports Receipts
begin

text \<open>
  \<^verbatim>\<open>sdk_python/evidence/revocation.py\<close>: asking the issuer endpoint about an attestation
  (\<open>check_revocation\<close>) and classifying an authenticated answer
  (\<open>classify_revocation\<close>).  The transport is a parameter: \<open>None\<close> is an exception it
  raises.  The text of an outcome's \<^verbatim>\<open>detail\<close> is left out.
\<close>

section \<open>Outcomes\<close>

definition NOT_FOUND :: int where "NOT_FOUND = 404"

definition OK :: int where "OK = 200"

datatype revocation_status = RS_VALID | RS_REVOKED | RS_SUPERSEDED | RS_UNCHECKED

record revocation_response =
  status_code :: int
  resp_body :: "bytes option"

record revocation_outcome =
  ro_status :: revocation_status
  ro_evaluated_at :: instant
  ro_record :: "evidence_record option"
  ro_superseding_ref :: "pystr option"
  ro_effective_at :: "instant option"
  ro_pending_status :: "revocation_status option"

definition is_pending :: "revocation_outcome \<Rightarrow> bool" where
  "is_pending o' \<longleftrightarrow> ro_pending_status o' \<noteq> None"

section \<open>The request\<close>

text \<open>\<^verbatim>\<open>urllib.parse.quote(s, safe='')\<close>: unreserved characters stand, other UTF-8 bytes are escaped.\<close>

definition unreserved :: "nat \<Rightarrow> bool" where
  "unreserved c \<longleftrightarrow> 48 \<le> c \<and> c \<le> 57 \<or> 65 \<le> c \<and> c \<le> 90 \<or> 97 \<le> c \<and> c \<le> 122
     \<or> c = 95 \<or> c = 46 \<or> c = 45 \<or> c = 126"

definition upper_hex :: "nat \<Rightarrow> nat" where
  "upper_hex d = (if d < 10 then 48 + d else 55 + d)"

definition url_quote :: "pystr \<Rightarrow> pystr" where
  "url_quote s = concat (map (\<lambda>b. if unreserved b then [b] else [37, upper_hex (b div 16), upper_hex (b mod 16)])
     (utf8 s))"

definition rstrip_slash :: "pystr \<Rightarrow> pystr" where
  "rstrip_slash s = rev (dropWhile (\<lambda>c. c = 47) (rev s))"

definition revocation_url :: "pystr \<Rightarrow> evidence_record \<Rightarrow> pystr" where
  "revocation_url endpoint a = rstrip_slash endpoint @ str ''/revocations/'' @ url_quote (record_id a)"

section \<open>The answer\<close>

definition unchecked_outcome :: "instant \<Rightarrow> revocation_outcome" where
  "unchecked_outcome i = \<lparr>ro_status = RS_UNCHECKED, ro_evaluated_at = i, ro_record = None,
     ro_superseding_ref = None, ro_effective_at = None, ro_pending_status = None\<rparr>"

text \<open>\<^verbatim>\<open>_authenticate\<close>; every refusal is an exception that the caller catches alike.\<close>

definition authenticate ::
    "('sk, 'pk) crypto \<Rightarrow> (bytes \<Rightarrow> pystr option) \<Rightarrow> revocation_response \<Rightarrow> evidence_record \<Rightarrow> 'pk registry
     \<Rightarrow> evidence_record option" where
  "authenticate c other response a reg =
     (case resp_body response of
        None \<Rightarrow> None
      | Some raw \<Rightarrow>
          (case verify_canonical_evidence_record c other raw reg of
             Inl _ \<Rightarrow> None
           | Inr r \<Rightarrow>
               if record_type r \<noteq> str ''RevocationRecord'' then None
               else (case require_published_schema_version (PStr (schema_version r)) of
                       Inl _ \<Rightarrow> None
                     | Inr _ \<Rightarrow>
                         if member (body r) ''attestation_ref'' \<noteq> Some (PStr (record_id a)) then None
                         else Some r)))"

text \<open>\<open>Inl\<close> is an exception that escapes: only \<^verbatim>\<open>TimestampError\<close> is caught.\<close>

definition classify_revocation :: "evidence_record \<Rightarrow> instant \<Rightarrow> ts_error + revocation_outcome" where
  "classify_revocation r evaluated_at =
     (case parse_instant (str_of (member (body r) ''effective_at'')) of
        Inl DatetimeOverflow \<Rightarrow> Inl DatetimeOverflow
      | Inl _ \<Rightarrow> Inr (unchecked_outcome evaluated_at)
      | Inr effective_at \<Rightarrow>
          let superseding_ref = opt_str_of (member (body r) ''superseding_ref'');
              in_effect_status = (if superseding_ref \<noteq> None then RS_SUPERSEDED else RS_REVOKED)
          in if instant_gt effective_at evaluated_at then
               Inr \<lparr>ro_status = RS_VALID, ro_evaluated_at = evaluated_at, ro_record = Some r,
                    ro_superseding_ref = superseding_ref, ro_effective_at = Some effective_at,
                    ro_pending_status = Some in_effect_status\<rparr>
             else
               Inr \<lparr>ro_status = in_effect_status, ro_evaluated_at = evaluated_at, ro_record = Some r,
                    ro_superseding_ref = superseding_ref, ro_effective_at = Some effective_at,
                    ro_pending_status = None\<rparr>)"

definition check_revocation ::
    "('sk, 'pk) crypto \<Rightarrow> (bytes \<Rightarrow> pystr option) \<Rightarrow> evidence_record \<Rightarrow> pystr
     \<Rightarrow> (pystr \<Rightarrow> revocation_response option) \<Rightarrow> 'pk registry \<Rightarrow> instant + pystr
     \<Rightarrow> ts_error + revocation_outcome" where
  "check_revocation c other a endpoint transport reg evaluated_at =
     rbind (case evaluated_at of Inl i \<Rightarrow> Inr i | Inr text' \<Rightarrow> parse_instant text') (\<lambda>i.
     case transport (revocation_url endpoint a) of
       None \<Rightarrow> Inr (unchecked_outcome i)
     | Some response \<Rightarrow>
         if status_code response = NOT_FOUND then Inr ((unchecked_outcome i)\<lparr>ro_status := RS_VALID\<rparr>)
         else if status_code response \<noteq> OK then Inr (unchecked_outcome i)
         else (case authenticate c other response a reg of
                 None \<Rightarrow> Inr (unchecked_outcome i)
               | Some r \<Rightarrow> classify_revocation r i))"

section \<open>What a verdict means\<close>

lemma authenticate_Some:
  "authenticate c other response a reg = Some r \<longleftrightarrow>
     (\<exists>raw. resp_body response = Some raw \<and> verify_canonical_evidence_record c other raw reg = Inr r)
     \<and> record_type r = str ''RevocationRecord'' \<and> schema_version r = str ''1.0.0''
     \<and> member (body r) ''attestation_ref'' = Some (PStr (record_id a))"
proof -
  have "(\<exists>s. require_published_schema_version (PStr v) = Inr s) \<longleftrightarrow> v = str ''1.0.0''" for v
    by (simp add: schema_version_ok_iff)
  then show ?thesis
    by (auto simp: authenticate_def Inr_iff_not_Inl split: option.splits sum.splits)
qed

text \<open>A revocation record is authenticated only by a key of the issuer namespace.\<close>

lemma authenticated_revocation:
  assumes "verify_canonical_evidence_record c other raw reg = Inr r"
    and "record_type r = str ''RevocationRecord''"
  shows "\<exists>k. verify_record_signature c r (public_keys_of reg) = Inr k
    \<and> map_option rk_namespace (map_of reg k) = Some Issuer"
  using assms by (auto simp: verify_canonical_evidence_record_Inr authenticated_def
      primary_signer_namespace_def PRIMARY_SIGNER_NAMESPACE_def)

text \<open>What the endpoint established, independently of the instant it is judged at.\<close>

definition published ::
    "('sk, 'pk) crypto \<Rightarrow> (bytes \<Rightarrow> pystr option) \<Rightarrow> evidence_record \<Rightarrow> pystr
     \<Rightarrow> (pystr \<Rightarrow> revocation_response option) \<Rightarrow> 'pk registry \<Rightarrow> evidence_record option" where
  "published c other a endpoint transport reg =
     (case transport (revocation_url endpoint a) of
        None \<Rightarrow> None
      | Some response \<Rightarrow> if status_code response = OK then authenticate c other response a reg else None)"

lemma check_revocation_published:
  "check_revocation c other a endpoint transport reg (Inl i) =
     (case published c other a endpoint transport reg of
        Some r \<Rightarrow> classify_revocation r i
      | None \<Rightarrow> Inr ((unchecked_outcome i)\<lparr>ro_status :=
          if \<exists>response. transport (revocation_url endpoint a) = Some response \<and> status_code response = NOT_FOUND
          then RS_VALID else RS_UNCHECKED\<rparr>))"
  by (auto simp: check_revocation_def published_def unchecked_outcome_def NOT_FOUND_def OK_def split: option.splits)

text \<open>The text of the member \<open>effective_at\<close> and the state a revocation in effect has.\<close>

definition effective_at_of :: "evidence_record \<Rightarrow> pystr" where
  "effective_at_of r = str_of (member (body r) ''effective_at'')"

definition in_effect_of :: "evidence_record \<Rightarrow> revocation_status" where
  "in_effect_of r = (if opt_str_of (member (body r) ''superseding_ref'') = None then RS_REVOKED else RS_SUPERSEDED)"

lemma classify_revocation_eq:
  "classify_revocation r i =
     (case parse_instant (effective_at_of r) of
        Inl e \<Rightarrow> if e = DatetimeOverflow then Inl e else Inr (unchecked_outcome i)
      | Inr e \<Rightarrow>
          Inr \<lparr>ro_status = if epoch_nanoseconds i < epoch_nanoseconds e then RS_VALID else in_effect_of r,
               ro_evaluated_at = i, ro_record = Some r,
               ro_superseding_ref = opt_str_of (member (body r) ''superseding_ref''),
               ro_effective_at = Some e,
               ro_pending_status = if epoch_nanoseconds i < epoch_nanoseconds e then Some (in_effect_of r) else None\<rparr>)"
  by (auto simp: classify_revocation_def effective_at_of_def in_effect_of_def instant_gt_def Let_def
      split: sum.splits ts_error.splits)

lemma in_effect_cases: "in_effect_of r \<in> {RS_REVOKED, RS_SUPERSEDED}"
  by (simp add: in_effect_of_def)

lemma published_Some:
  "published c other a endpoint transport reg = Some r \<longleftrightarrow>
     (\<exists>raw. transport (revocation_url endpoint a) = Some \<lparr>status_code = 200, resp_body = Some raw\<rparr>
        \<and> verify_canonical_evidence_record c other raw reg = Inr r)
     \<and> record_type r = str ''RevocationRecord'' \<and> schema_version r = str ''1.0.0''
     \<and> member (body r) ''attestation_ref'' = Some (PStr (record_id a))"
  by (auto simp: published_def authenticate_Some OK_def split: option.splits if_splits)
    (metis revocation_response.surjective unit.exhaust)

section \<open>Properties\<close>

text \<open>
  C8: a verdict is grounded.  Unless the endpoint established nothing (\<open>RS_UNCHECKED\<close>), it either
  answered 404, and the attestation is valid with nothing pending, or it answered 200 with the
  canonical bytes of a revocation record that names this attestation and is signed by an issuer key;
  then the verdict is valid with the record's state pending while its effective instant is strictly
  later than the evaluation instant, and the record's state from that instant on.
\<close>

theorem revocation_verdict_grounded:
  assumes "check_revocation c other a endpoint transport reg (Inl i) = Inr v"
  shows "ro_evaluated_at v = i \<and>
    (ro_status v = RS_UNCHECKED
     \<or> ro_status v = RS_VALID \<and> ro_pending_status v = None \<and> ro_record v = None
       \<and> map_option status_code (transport (revocation_url endpoint a)) = Some 404
     \<or> (\<exists>raw r e k. transport (revocation_url endpoint a) = Some \<lparr>status_code = 200, resp_body = Some raw\<rparr>
         \<and> parse_record other raw = Inr r \<and> serialize_record r = Inr raw \<and> ro_record v = Some r
         \<and> record_type r = str ''RevocationRecord''
         \<and> member (body r) ''attestation_ref'' = Some (PStr (record_id a))
         \<and> verify_record_signature c r (public_keys_of reg) = Inr k
         \<and> map_option rk_namespace (map_of reg k) = Some Issuer
         \<and> parse_instant (effective_at_of r) = Inr e
         \<and> (if epoch_nanoseconds i < epoch_nanoseconds e
            then ro_status v = RS_VALID \<and> ro_pending_status v = Some (in_effect_of r)
            else ro_status v = in_effect_of r \<and> ro_pending_status v = None)))"
proof (cases "published c other a endpoint transport reg")
  case None
  then show ?thesis using assms
    by (auto simp: check_revocation_published unchecked_outcome_def NOT_FOUND_def split: if_splits)
next
  case (Some r)
  then obtain raw where raw: "transport (revocation_url endpoint a) = Some \<lparr>status_code = 200, resp_body = Some raw\<rparr>"
    "verify_canonical_evidence_record c other raw reg = Inr r" "record_type r = str ''RevocationRecord''"
    "member (body r) ''attestation_ref'' = Some (PStr (record_id a))"
    by (auto simp: published_Some)
  obtain k where k: "verify_record_signature c r (public_keys_of reg) = Inr k"
    "map_option rk_namespace (map_of reg k) = Some Issuer"
    using authenticated_revocation [OF raw(2,3)] by blast
  have p: "parse_record other raw = Inr r" "serialize_record r = Inr raw"
    using raw(2) by (simp_all add: verify_canonical_evidence_record_Inr)
  have cl: "classify_revocation r i = Inr v" using assms Some by (simp add: check_revocation_published)
  show ?thesis
  proof (cases "parse_instant (effective_at_of r)")
    case (Inl e)
    then show ?thesis using cl by (auto simp: classify_revocation_eq unchecked_outcome_def split: if_splits)
  next
    case (Inr e)
    then have v: "ro_evaluated_at v = i" "ro_record v = Some r"
      "if epoch_nanoseconds i < epoch_nanoseconds e
       then ro_status v = RS_VALID \<and> ro_pending_status v = Some (in_effect_of r)
       else ro_status v = in_effect_of r \<and> ro_pending_status v = None"
      using cl by (auto simp: classify_revocation_eq split: if_splits)
    show ?thesis using raw k p Inr v by blast
  qed
qed

text \<open>
  a revocation does not lapse: with the same answer of the endpoint, an attestation that is
  revoked or superseded at one instant has the same state at every later one.
\<close>

theorem revocation_does_not_lapse:
  assumes "check_revocation c other a endpoint transport reg (Inl i) = Inr v"
    and "ro_status v = RS_REVOKED \<or> ro_status v = RS_SUPERSEDED"
    and "epoch_nanoseconds i \<le> epoch_nanoseconds j"
  shows "\<exists>w. check_revocation c other a endpoint transport reg (Inl j) = Inr w
    \<and> ro_status w = ro_status v \<and> ro_record w = ro_record v \<and> ro_evaluated_at w = j"
  using assms
  by (auto simp: check_revocation_published classify_revocation_eq unchecked_outcome_def
      split: option.splits sum.splits if_splits)

lemma check_revocation_raises:
  "check_revocation c other a endpoint transport reg (Inl i) = Inl e \<longleftrightarrow>
     e = DatetimeOverflow
     \<and> (\<exists>raw r. transport (revocation_url endpoint a) = Some \<lparr>status_code = 200, resp_body = Some raw\<rparr>
          \<and> verify_canonical_evidence_record c other raw reg = Inr r
          \<and> record_type r = str ''RevocationRecord'' \<and> schema_version r = str ''1.0.0''
          \<and> member (body r) ''attestation_ref'' = Some (PStr (record_id a))
          \<and> parse_instant (effective_at_of r) = Inl DatetimeOverflow)"
proof (cases "published c other a endpoint transport reg")
  case None
  moreover have "\<not> (\<exists>r. published c other a endpoint transport reg = Some r)" using None by simp
  ultimately show ?thesis unfolding published_Some by (auto simp: check_revocation_published)
next
  case (Some r)
  have "\<exists>raw. transport (revocation_url endpoint a) = Some \<lparr>status_code = 200, resp_body = Some raw\<rparr>
      \<and> verify_canonical_evidence_record c other raw reg = Inr r"
    "record_type r = str ''RevocationRecord''" "schema_version r = str ''1.0.0''"
    "member (body r) ''attestation_ref'' = Some (PStr (record_id a))"
    using Some by (auto simp: published_Some)
  then show ?thesis using Some
    by (auto simp: check_revocation_published classify_revocation_eq split: sum.splits if_splits)
qed

text \<open>
  C27: the check raises in exactly two cases: with the error of the reader, when the evaluation time is
  given as a text that is no instant; and, whatever the evaluation instant, on an authenticated
  revocation whose effective instant, shifted to UTC, leaves the years 1 to 9999.  The handler
  around the classification catches \<^verbatim>\<open>TimestampError\<close> only, so the second answer is not read as
  unchecked.
\<close>

theorem check_revocation_escapes_iff:
  "check_revocation c other a endpoint transport reg t = Inl e \<longleftrightarrow>
     (\<exists>x. t = Inr x \<and> parse_instant x = Inl e)
     \<or> e = DatetimeOverflow \<and> (\<forall>x. t = Inr x \<longrightarrow> (\<exists>i. parse_instant x = Inr i))
       \<and> (\<exists>raw r. transport (revocation_url endpoint a) = Some \<lparr>status_code = 200, resp_body = Some raw\<rparr>
            \<and> verify_canonical_evidence_record c other raw reg = Inr r
            \<and> record_type r = str ''RevocationRecord'' \<and> schema_version r = str ''1.0.0''
            \<and> member (body r) ''attestation_ref'' = Some (PStr (record_id a))
            \<and> parse_instant (effective_at_of r) = Inl DatetimeOverflow)"
proof (cases "\<exists>i. (case t of Inl i \<Rightarrow> Inr i | Inr x \<Rightarrow> parse_instant x) = Inr i")
  case True
  then obtain i where i: "(case t of Inl i \<Rightarrow> Inr i | Inr x \<Rightarrow> parse_instant x) = Inr i" by blast
  then have "check_revocation c other a endpoint transport reg t = check_revocation c other a endpoint transport reg (Inl i)"
    by (simp add: check_revocation_def)
  with i show ?thesis using check_revocation_raises [of c other a endpoint transport reg i e] by (cases t) auto
next
  case False
  then obtain x err where "t = Inr x" "parse_instant x = Inl err" by (cases t; cases "parse_instant (projr t)") auto
  then show ?thesis by (auto simp: check_revocation_def)
qed

section \<open>Witnesses\<close>

text \<open>An endpoint that answers every request with the bytes of a revocation.\<close>

definition answering :: "bytes \<Rightarrow> pystr \<Rightarrow> revocation_response option" where
  "answering raw url = Some \<lparr>status_code = 200, resp_body = Some raw\<rparr>"

definition subject :: evidence_record where
  "subject = withdrawn\<lparr>record_id := str ''01890a5d-ac96-774b-bcce-b302099a8057'',
     record_type := str ''AttestationWindow''\<rparr>"

definition march :: instant where
  "march = \<lparr>epoch_nanoseconds = 1772323200 * 10 ^ 9, inst_text = str ''2026-03-01T00:00:00.000Z''\<rparr>"

lemma withdrawn_effective: "parse_instant (effective_at_of withdrawn) = Inr march"
  by code_simp

lemma withdrawn_classified:
  "published const_crypto other subject e (answering raw) fixed_issuer = Some withdrawn"
  if "verify_canonical_evidence_record const_crypto other raw fixed_issuer = Inr withdrawn"
proof -
  have "member (body withdrawn) ''attestation_ref'' = Some (PStr (record_id subject))" by code_simp
  then show ?thesis using that by (auto simp: published_Some answering_def withdrawal_fields)
qed

lemma withdrawn_verdict:
  obtains raw v where
    "check_revocation const_crypto (\<lambda>_. None) subject (str ''e'') (answering raw) fixed_issuer (Inl march) = Inr v"
    "ro_status v = RS_REVOKED" "ro_record v = Some withdrawn"
proof -
  obtain raw where raw: "verify_canonical_evidence_record const_crypto (\<lambda>_. None) raw fixed_issuer = Inr withdrawn"
    using withdrawn_received by metis
  have "in_effect_of withdrawn = RS_REVOKED" by code_simp
  then show thesis
    using that [of raw] withdrawn_classified [OF raw] withdrawn_effective
    by (simp add: check_revocation_published classify_revocation_eq)
qed

theorem revocation_verdict_grounded_witness:
  "\<exists>raw v. check_revocation const_crypto (\<lambda>_. None) subject (str ''e'') (answering raw) fixed_issuer (Inl march) = Inr v
     \<and> ro_status v = RS_REVOKED \<and> ro_evaluated_at v = march"
proof -
  obtain raw v where v:
    "check_revocation const_crypto (\<lambda>_. None) subject (str ''e'') (answering raw) fixed_issuer (Inl march) = Inr v"
    "ro_status v = RS_REVOKED" by (rule withdrawn_verdict)
  have "ro_evaluated_at v = march" using revocation_verdict_grounded [OF v(1)] by blast
  with v show ?thesis by blast
qed

theorem revocation_does_not_lapse_witness:
  "\<exists>raw w. check_revocation const_crypto (\<lambda>_. None) subject (str ''e'') (answering raw) fixed_issuer
       (Inl (march\<lparr>epoch_nanoseconds := 1772323200 * 10 ^ 9 + 1\<rparr>)) = Inr w \<and> ro_status w = RS_REVOKED"
proof -
  obtain raw v where v:
    "check_revocation const_crypto (\<lambda>_. None) subject (str ''e'') (answering raw) fixed_issuer (Inl march) = Inr v"
    "ro_status v = RS_REVOKED" by (rule withdrawn_verdict)
  have "epoch_nanoseconds march \<le> epoch_nanoseconds (march\<lparr>epoch_nanoseconds := 1772323200 * 10 ^ 9 + 1\<rparr>)"
    by (simp add: march_def)
  from revocation_does_not_lapse [OF v(1) _ this] v(2) show ?thesis by fastforce
qed

text \<open>A revocation that takes effect before the year 1.\<close>

abbreviation too_early :: evidence_record where
  "too_early \<equiv> withdrawal ''0001-01-01T00:00:00.000+01:00''"

theorem check_revocation_escapes_iff_witness:
  "\<exists>raw. check_revocation const_crypto (\<lambda>_. None) subject (str ''e'') (answering raw) fixed_issuer (Inl march) = Inl DatetimeOverflow"
proof -
  have valid: "validate_record (record_members too_early) = Inr too_early" "wf_value (PDict (record_members too_early))"
    "portable (PDict (record_members too_early))" "record_of (norm_dict (record_members too_early)) = too_early"
    "verify_record_signature const_crypto too_early (public_keys_of fixed_issuer) = Inr (str ''i'')"
    by code_simp+
  obtain raw where raw: "verify_canonical_evidence_record const_crypto (\<lambda>_. None) raw fixed_issuer = Inr too_early"
    by (rule received_canonical [OF valid(1-4) withdrawal_authenticated [OF valid(5)]])
      (simp add: withdrawal_fields, rule that)
  have "parse_instant (effective_at_of too_early) = Inl DatetimeOverflow"
    "member (body too_early) ''attestation_ref'' = Some (PStr (record_id subject))" by code_simp+
  with raw have "check_revocation const_crypto (\<lambda>_. None) subject (str ''e'') (answering raw) fixed_issuer (Inl march)
      = Inl DatetimeOverflow"
    unfolding check_revocation_escapes_iff by (auto simp: answering_def withdrawal_fields)
  then show ?thesis by blast
qed

end
