(* ===== verification/Py_Text.thy ===== *)
theory Py_Text
  imports Receipts
begin

text \<open>
  Python's text conversions that the services rely on: \<^verbatim>\<open>int(text)\<close>, \<^verbatim>\<open>str.isdigit\<close> on the characters
  that matter, and \<^verbatim>\<open>datetime.fromisoformat\<close> on the timestamps the schema accepts.
\<close>

section \<open>Integers\<close>

definition py_space :: "nat \<Rightarrow> bool" where
  "py_space c \<longleftrightarrow> 9 \<le> c \<and> c \<le> 13 \<or> 28 \<le> c \<and> c \<le> 32 \<or> c \<in> {0x85, 0xA0, 0x1680} \<or> 0x2000 \<le> c \<and> c \<le> 0x200A
     \<or> c \<in> {0x2028, 0x2029, 0x202F, 0x205F, 0x3000}"

definition py_strip :: "pystr \<Rightarrow> pystr" where
  "py_strip s = rev (dropWhile py_space (rev (dropWhile py_space s)))"

text \<open>
  \<open>int(text)\<close>: surrounding white space, a sign, decimal digits of any script with single underscores
  between them, at most 4300 digits.  \<open>None\<close> is its \<^verbatim>\<open>ValueError\<close>.
\<close>

definition max_str_digits :: nat where
  "max_str_digits = 4300"

definition unsigned_int :: "pystr \<Rightarrow> nat option" where
  "unsigned_int s =
     (let groups = split_on 95 s; digits = concat groups
      in if list_ex (\<lambda>g. g = []) groups \<or> max_str_digits < length digits then None
         else decimal_number 0 digits)"

definition python_int :: "pystr \<Rightarrow> int option" where
  "python_int s =
     (case py_strip s of
        [] \<Rightarrow> None
      | c # r \<Rightarrow> if c = 45 then map_option (\<lambda>n. - int n) (unsigned_int r)
                 else map_option int (unsigned_int (if c = 43 then r else c # r)))"

lemma decimal_number_digits:
  "list_all is_digit s \<Longrightarrow> decimal_number acc s = Some (digits_value acc s)"
proof (induction s arbitrary: acc)
  case (Cons c cs)
  then have "decimal_value c = Some (c - 48)"
    using decimal_value_ascii [of "c - 48"] by (auto simp: is_digit_def)
  then show ?case using Cons by simp
qed simp

lemma python_int_digits:
  assumes "list_all is_digit s" "s \<noteq> []" "length s \<le> max_str_digits"
  shows "python_int s = Some (int (digits_value 0 s))"
proof -
  have digit: "\<not> py_space c \<and> c \<noteq> 95 \<and> c \<noteq> 43 \<and> c \<noteq> 45" if "c \<in> set s" for c
    using assms(1) that by (auto simp: list_all_iff is_digit_def py_space_def)
  have drop: "dropWhile py_space xs = xs" if "set xs \<subseteq> set s" for xs
    using digit that by (cases xs) auto
  have strip: "py_strip s = s" by (simp add: py_strip_def drop)
  have "split_on 95 s = [s]" using digit by (intro split_on_free) auto
  then have "unsigned_int s = Some (digits_value 0 s)"
    using assms by (simp add: unsigned_int_def Let_def decimal_number_digits)
  then show ?thesis using digit assms(2) strip by (cases s) (auto simp: python_int_def)
qed

text \<open>The decimal text of a number reads back as that number.\<close>

lemma python_int_dec_nat:
  "length (dec_nat n) \<le> max_str_digits \<Longrightarrow> python_int (dec_nat n) = Some (int n)"
  by (subst python_int_digits) (simp_all add: dec_nat_digits dec_nat_neq_Nil digits_value_dec_nat)

section \<open>Choices\<close>

text \<open>\<open>max(xs, key=key)\<close> and \<open>min(xs, key=key)\<close> return the first extremal element; an empty argument raises.\<close>

fun max_from :: "('a \<Rightarrow> 'k :: linorder) \<Rightarrow> 'a \<Rightarrow> 'a list \<Rightarrow> 'a" where
  "max_from key m [] = m"
| "max_from key m (x # xs) = max_from key (if key m < key x then x else m) xs"

definition py_max :: "('a \<Rightarrow> 'k :: linorder) \<Rightarrow> 'a list \<Rightarrow> 'a option" where
  "py_max key xs = (case xs of [] \<Rightarrow> None | x # r \<Rightarrow> Some (max_from key x r))"

lemma max_from_mem: "max_from key m xs \<in> insert m (set xs)"
proof (induction xs arbitrary: m)
  case (Cons y ys)
  show ?case using Cons [of "if key m < key y then y else m"] by (auto split: if_splits)
qed simp

lemma max_from_le: "x \<in> insert m (set xs) \<Longrightarrow> key x \<le> key (max_from key m xs)"
proof (induction xs arbitrary: m x)
  case (Cons y ys)
  let ?m = "if key m < key y then y else m"
  have le: "key z \<le> key (max_from key ?m ys)" if "z \<in> insert ?m (set ys)" for z
    using Cons.IH [OF that] .
  have "key m \<le> key ?m" "key y \<le> key ?m" by auto
  then show ?case using Cons.prems le [of x] le [of ?m] by (auto intro: order_trans)
qed simp

lemma py_max_Some:
  assumes "py_max key xs = Some m"
  shows "m \<in> set xs" "x \<in> set xs \<Longrightarrow> key x \<le> key m"
proof -
  obtain y ys where xs: "xs = y # ys" "m = max_from key y ys"
    using assms by (auto simp: py_max_def split: list.splits)
  show "m \<in> set xs" using max_from_mem [of key y ys] xs by simp
  show "key x \<le> key m" if "x \<in> set xs" using max_from_le [of x y ys key] xs that by simp
qed

lemma py_max_None [simp]: "py_max key xs = None \<longleftrightarrow> xs = []"
  by (simp add: py_max_def split: list.split)

section \<open>Times\<close>

text \<open>
  A \<^verbatim>\<open>datetime\<close>: its own clock in microseconds since 1970, and the offset of that clock from UTC in
  seconds, if it has one.
\<close>

record pytime =
  pt_local :: int
  pt_offset :: "int option"

definition pt_instant :: "pytime \<Rightarrow> int" where
  "pt_instant t = pt_local t - (case pt_offset t of None \<Rightarrow> 0 | Some s \<Rightarrow> s * 10 ^ 6)"

text \<open>
  \<^verbatim>\<open>datetime.fromisoformat(value.replace("Z", "+00:00"))\<close> on a text that passed the schema's
  timestamp check.  A leap second and non-ASCII digits are a \<^verbatim>\<open>ValueError\<close>.
\<close>

definition iso_time :: "pystr \<Rightarrow> pytime option" where
  "iso_time v =
     (if \<not> timestamp_ok v \<or> list_ex (\<lambda>c. 128 \<le> c) v then None
      else case rfc3339_match v of
             None \<Rightarrow> None
           | Some t \<Rightarrow>
               if tm_second t = 60 then None
               else Some \<lparr>pt_local = epoch_seconds (tm_year t) (tm_month t) (tm_day t) (tm_hour t)
                            (tm_minute t) (tm_second t) * 10 ^ 6 + fraction_microseconds (tm_fraction t),
                          pt_offset = Some (offset_seconds t)\<rparr>)"

lemma fraction_microseconds_bounds: "0 \<le> fraction_microseconds f" "fraction_microseconds f < 10 ^ 6"
proof -
  have "length (take 6 f) \<le> 9" by simp
  from fraction_nanoseconds_bounds [OF this]
  show "0 \<le> fraction_microseconds f" "fraction_microseconds f < 10 ^ 6"
    by (simp_all add: fraction_microseconds_def)
qed

text \<open>Where both parsers accept a text they agree on the instant.\<close>

lemma iso_time_instant:
  assumes "iso_time v = Some t" and "parse_timestamp v = Inr us"
  shows "pt_instant t = us"
  using assms
  by (auto simp: iso_time_def parse_timestamp_def pt_instant_def Let_def algebra_simps
      split: if_splits option.splits)

lemma iso_time_range:
  assumes "iso_time v = Some t"
  shows "representable (pt_local t div 10 ^ 6)" "pt_offset t \<noteq> None"
proof -
  obtain m where m: "rfc3339_match v = Some m" "timestamp_ok v" "tm_second m \<noteq> 60"
    and t: "t = \<lparr>pt_local = epoch_seconds (tm_year m) (tm_month m) (tm_day m) (tm_hour m)
                   (tm_minute m) (tm_second m) * 10 ^ 6 + fraction_microseconds (tm_fraction m),
                 pt_offset = Some (offset_seconds m)\<rparr>"
    using assms by (auto simp: iso_time_def split: if_splits option.splits)
  have "representable (epoch_seconds (tm_year m) (tm_month m) (tm_day m) (tm_hour m) (tm_minute m) (tm_second m))"
    using m by (intro epoch_seconds_representable) (auto simp: timestamp_ok_def)
  moreover have "(e * 10 ^ 6 + fraction_microseconds f) div 10 ^ 6 = e" for e f
    using fraction_microseconds_bounds [of f] by (simp add: div_add1_eq)
  ultimately show "representable (pt_local t div 10 ^ 6)" unfolding t by (simp only: pytime.simps)
  show "pt_offset t \<noteq> None" unfolding t by simp
qed

end
