(* ===== verification/Trust.thy ===== *)
theory Trust
  imports Receipts
begin

text \<open>
  \<^verbatim>\<open>services/admin/trust.py\<close> and the key registry it reads: the relation \<^verbatim>\<open>keys\<close> is the list of
  its rows.  Loading raw key material as an Ed25519 key is a parameter.
\<close>

record key_row =
  kr_key_id :: pystr
  kr_tenant_id :: pystr
  kr_namespace :: key_namespace
  kr_collector_id :: "pystr option"
  kr_public_key :: bytes
  kr_valid_from :: int
  kr_valid_until :: "int option"
  kr_compromised_from :: "int option"

datatype trust_error = UnknownKey | BadSignatureObject | BadKeyMaterial

definition key_text_of :: "pyval option \<Rightarrow> pystr option" where
  "key_text_of v = (case v of Some (PStr s) \<Rightarrow> if s = [] then None else Some s | _ \<Rightarrow> None)"

text \<open>A query by the primary key \<^verbatim>\<open>key_id\<close> with further conditions returns at most one row.\<close>

definition find_key :: "key_row list \<Rightarrow> (key_row \<Rightarrow> bool) \<Rightarrow> pystr \<Rightarrow> key_row option" where
  "find_key keys P key_id = find (\<lambda>k. P k \<and> kr_key_id k = key_id) keys"

definition registered_evidence_keyring ::
    "(bytes \<Rightarrow> 'pk option) \<Rightarrow> key_row list \<Rightarrow> pystr \<Rightarrow> pydict \<Rightarrow> trust_error + 'pk keyring" where
  "registered_evidence_keyring load keys tenant sg =
     (case key_text_of (member sg ''key_id'') of
        None \<Rightarrow> Inl BadSignatureObject
      | Some key_id \<Rightarrow>
          (case find_key keys (\<lambda>k. kr_tenant_id k = tenant \<and> kr_namespace k = Evidence) key_id of
             None \<Rightarrow> Inl UnknownKey
           | Some row \<Rightarrow>
               (case load (kr_public_key row) of
                  None \<Rightarrow> Inl BadKeyMaterial
                | Some pk \<Rightarrow> Inr [(key_id, pk)])))"

definition registered_receipt_keyring ::
    "(bytes \<Rightarrow> 'pk option) \<Rightarrow> key_row list \<Rightarrow> pystr \<Rightarrow> pystr \<Rightarrow> trust_error + 'pk registry" where
  "registered_receipt_keyring load keys tenant key_id =
     (case find_key keys (\<lambda>k. kr_tenant_id k = tenant) key_id of
        None \<Rightarrow> Inl UnknownKey
      | Some row \<Rightarrow>
          (case load (kr_public_key row) of
             None \<Rightarrow> Inl BadKeyMaterial
           | Some pk \<Rightarrow> Inr [(key_id, \<lparr>rk_namespace = kr_namespace row, rk_public_key = pk\<rparr>)]))"

lemma find_key_Some:
  "find_key keys P key_id = Some row \<Longrightarrow> row \<in> set keys \<and> P row \<and> kr_key_id row = key_id"
  by (auto simp: find_key_def find_Some_iff)

lemma registered_evidence_keyring_Inr:
  assumes "registered_evidence_keyring load keys tenant sg = Inr ring"
  shows "\<exists>row pk. row \<in> set keys \<and> kr_tenant_id row = tenant \<and> kr_namespace row = Evidence
    \<and> load (kr_public_key row) = Some pk \<and> ring = [(kr_key_id row, pk)]
    \<and> member sg ''key_id'' = Some (PStr (kr_key_id row))"
  using assms
  by (auto simp: registered_evidence_keyring_def key_text_of_def dest!: find_key_Some
      split: option.splits pyval.splits if_splits)

lemma registered_receipt_keyring_Inr:
  assumes "registered_receipt_keyring load keys tenant key_id = Inr reg"
  shows "\<exists>row pk. row \<in> set keys \<and> kr_tenant_id row = tenant \<and> kr_key_id row = key_id
    \<and> load (kr_public_key row) = Some pk \<and> reg = [(key_id, \<lparr>rk_namespace = kr_namespace row, rk_public_key = pk\<rparr>)]"
  using assms by (auto simp: registered_receipt_keyring_def dest!: find_key_Some split: option.splits)

section \<open>A registry and a receipt for examples\<close>

definition example_keys :: "key_row list" where
  "example_keys =
     [\<lparr>kr_key_id = str ''k'', kr_tenant_id = str ''t'', kr_namespace = Evidence, kr_collector_id = Some (str ''c''),
       kr_public_key = [5], kr_valid_from = 0, kr_valid_until = None, kr_compromised_from = None\<rparr>,
      \<lparr>kr_key_id = str ''i'', kr_tenant_id = str ''t'', kr_namespace = Issuer, kr_collector_id = None,
       kr_public_key = [6], kr_valid_from = 0, kr_valid_until = None, kr_compromised_from = None\<rparr>]"

definition example_load :: "bytes \<Rightarrow> nat option" where
  "example_load b = (case b of [n] \<Rightarrow> Some n | _ \<Rightarrow> None)"

lemma example_keyrings:
  "member sg ''key_id'' = Some (PStr (str ''k'')) \<Longrightarrow>
     registered_evidence_keyring example_load example_keys (str ''t'') sg = Inr [(str ''k'', 5)]"
  "registered_receipt_keyring example_load example_keys (str ''t'') (str ''i'') = Inr fixed_issuer"
  by (simp_all add: registered_evidence_keyring_def registered_receipt_keyring_def find_key_def example_keys_def
      example_load_def key_text_of_def fixed_issuer_def)

lemma const_crypto_ok: "crypto_ok const_crypto"
  using plain_crypto_ok by (auto simp: crypto_ok_def const_crypto_def byte_string_def list_all_iff)

definition example_payload :: ingestion_receipt where
  "example_payload = \<lparr>ir_record_digest = zero_digest, ir_ingest_time = str ''2026-01-01T00:00:00.500Z'',
     ir_clock_skew_ms = 500\<rparr>"

definition example_receipt :: signed_receipt where
  "example_receipt = \<lparr>sr_payload = example_payload,
     sr_canonical_bytes = (case canonical_wire (PDict (receipt_members example_payload)) of Inr b \<Rightarrow> b | Inl _ \<Rightarrow> []),
     sr_key_id = str ''i'',
     sr_signature = plain_sign 6 (case canonical_wire (PDict (receipt_members example_payload)) of Inr b \<Rightarrow> b | Inl _ \<Rightarrow> [])\<rparr>"

lemma example_payload_facts:
  "model_ok IngestionReceiptModel (receipt_members example_payload)"
  "\<exists>b. canonical_wire (PDict (receipt_members example_payload)) = Inr b"
  "measure_clock_skew_ms (str ''2026-01-01T00:00:00.000Z'') (str ''2026-01-01T00:00:00.500Z'') = Inr 500"
  "format_ingest_time (Aware 1767225600500000) = Inr (str ''2026-01-01T00:00:00.500Z'')"
proof -
  show "model_ok IngestionReceiptModel (receipt_members example_payload)" by code_simp
  have "portable (PDict (receipt_members example_payload))" by code_simp
  then show "\<exists>b. canonical_wire (PDict (receipt_members example_payload)) = Inr b"
    using serialize_ok_iff [of "PDict (receipt_members example_payload)"]
    by (auto simp: canonical_wire_def canonicalize_def)
qed code_simp+

text \<open>The example receipt is one for every record of that source time.\<close>

lemma example_receipt_verifies:
  assumes "portable (PDict (record_members r))"
    and "source_time (record_clocks r) = str ''2026-01-01T00:00:00.000Z''"
  shows "verify_ingestion_receipt const_crypto example_receipt r fixed_issuer None = Inr example_payload"
proof -
  obtain w where w: "serialize_record r = Inr w"
    using assms(1) serialize_ok_iff [of "PDict (record_members r)"]
    by (auto simp: serialize_record_def canonicalize_def)
  obtain b where b: "canonical_wire (PDict (receipt_members example_payload)) = Inr b"
    using example_payload_facts(2) by blast
  have digest: "digest_text (sha256 const_crypto) x = zero_digest" for x
    by (simp add: digest_text_def zero_digest_def const_crypto_def)
  have payload: "\<lparr>ir_record_digest = zero_digest, ir_ingest_time = str ''2026-01-01T00:00:00.500Z'',
      ir_clock_skew_ms = 500\<rparr> = example_payload" by (simp add: example_payload_def)
  have "create_ingestion_receipt const_crypto r (Aware 1767225600500000) (str ''i'') 6 None = Inr example_receipt"
    using w b example_payload_facts assms(2)
    by (simp add: create_ingestion_receipt_def received_wire_def serialize_record_def Let_def digest payload)
      (simp add: canonical_wire_def example_receipt_def const_crypto_def plain_crypto_def
        split: sum.splits)
  moreover have "map_of fixed_issuer (str ''i'') = Some \<lparr>rk_namespace = Issuer, rk_public_key = ed_public const_crypto 6\<rparr>"
    by (simp add: fixed_issuer_def const_crypto_def plain_crypto_def)
  ultimately show ?thesis
    using receipt_roundtrip [OF const_crypto_ok] by (auto simp: example_receipt_def)
qed

end
