(* ===== verification/Qualifications.thy ===== *)
theory Qualifications
  imports Py_Text Trust
begin

text \<open>
  \<^verbatim>\<open>services/admin/qualification.py\<close>: denominator classes and coverage levels, the class in force
  for a window (\<open>class_in_force\<close>), the claim check (\<open>assert_class_claimable\<close>), ISO 8601
  durations, and recording a signed qualification.  The relation \<^verbatim>\<open>qualification_records\<close> is the
  list of its rows with the constraints and the upgrade trigger of migration 0012
  (\<open>insert_qualification\<close>).  Instants are microseconds since the epoch.
\<close>

section \<open>Ranked choices\<close>

text \<open>
  Both enumerations are ordered by the position of a member in its declaration.  What the code
  picks, the last of the members sorted by position, depends only on which members there are.
\<close>

locale ranked =
  fixes rank :: "'a \<Rightarrow> nat"
  assumes rank_inj: "rank a = rank b \<Longrightarrow> a = b"
begin

lemma last_sorted:
  assumes "xs \<noteq> []"
  shows "last (sort_key rank xs) \<in> set xs" "x \<in> set xs \<Longrightarrow> rank x \<le> rank (last (sort_key rank xs))"
proof -
  let ?s = "sort_key rank xs"
  have ne: "?s \<noteq> []" using assms by (metis set_empty set_sort)
  then show "last ?s \<in> set xs" using last_in_set [of ?s] by simp
  show "rank x \<le> rank (last ?s)" if "x \<in> set xs"
  proof -
    from that obtain i where "i < length ?s" "?s ! i = x" by (metis in_set_conv_nth set_sort)
    then show ?thesis
      using sorted_nth_mono [of "map rank ?s" i "length ?s - 1"] ne by (simp add: last_conv_nth)
  qed
qed

lemma last_sorted_unique:
  assumes "m \<in> set xs" "\<And>x. x \<in> set xs \<Longrightarrow> rank x \<le> rank m"
  shows "last (sort_key rank xs) = m"
proof -
  have "xs \<noteq> []" using assms(1) by auto
  from last_sorted [OF this] assms show ?thesis by (intro rank_inj le_antisym) blast+
qed

lemma last_sorted_mono:
  "xs \<noteq> [] \<Longrightarrow> set xs \<subseteq> set ys \<Longrightarrow> rank (last (sort_key rank xs)) \<le> rank (last (sort_key rank ys))"
  using last_sorted(1) [of xs] last_sorted(2) [of ys] by fastforce

end

section \<open>Levels and classes\<close>

datatype coverage_level = OBSERVED | INTERCEPTED | ENFORCED | RECONCILED

fun level_index :: "coverage_level \<Rightarrow> nat" where
  "level_index OBSERVED = 0"
| "level_index INTERCEPTED = 1"
| "level_index ENFORCED = 2"
| "level_index RECONCILED = 3"

datatype denominator_class = C1 | C2 | C3 | C4 | C5

text \<open>The position in the strength order; lower is stronger.\<close>

fun class_rank :: "denominator_class \<Rightarrow> nat" where
  "class_rank C1 = 0"
| "class_rank C2 = 1"
| "class_rank C3 = 2"
| "class_rank C4 = 3"
| "class_rank C5 = 4"

interpretation level: ranked level_index
proof
  fix a b assume "level_index a = level_index b" then show "a = b" by (cases a; cases b) auto
qed

interpretation cls: ranked class_rank
proof
  fix a b assume "class_rank a = class_rank b" then show "a = b" by (cases a; cases b) auto
qed

instantiation coverage_level :: linorder
begin

definition less_eq_coverage_level :: "coverage_level \<Rightarrow> coverage_level \<Rightarrow> bool" where
  "less_eq_coverage_level a b \<longleftrightarrow> level_index a \<le> level_index b"

definition less_coverage_level :: "coverage_level \<Rightarrow> coverage_level \<Rightarrow> bool" where
  "less_coverage_level a b \<longleftrightarrow> level_index a < level_index b"

instance
  by standard (auto simp: less_eq_coverage_level_def less_coverage_level_def level.rank_inj)

end

instantiation denominator_class :: linorder
begin

definition less_eq_denominator_class :: "denominator_class \<Rightarrow> denominator_class \<Rightarrow> bool" where
  "less_eq_denominator_class a b \<longleftrightarrow> class_rank a \<le> class_rank b"

definition less_denominator_class :: "denominator_class \<Rightarrow> denominator_class \<Rightarrow> bool" where
  "less_denominator_class a b \<longleftrightarrow> class_rank a < class_rank b"

instance
  by standard (auto simp: less_eq_denominator_class_def less_denominator_class_def cls.rank_inj)

end

definition is_stronger_than :: "denominator_class \<Rightarrow> denominator_class \<Rightarrow> bool" where
  "is_stronger_than a b \<longleftrightarrow> class_rank a < class_rank b"

lemma is_stronger_than_less: "is_stronger_than a b \<longleftrightarrow> a < b"
  by (simp add: is_stronger_than_def less_denominator_class_def)

fun admissible_level :: "denominator_class \<Rightarrow> coverage_level" where
  "admissible_level C1 = RECONCILED"
| "admissible_level C2 = RECONCILED"
| "admissible_level C3 = ENFORCED"
| "admissible_level C4 = OBSERVED"
| "admissible_level C5 = OBSERVED"

definition emits_ratio :: "denominator_class \<Rightarrow> bool" where
  "emits_ratio k \<longleftrightarrow> k \<in> {C1, C2, C3}"

lemma admissible_level_antimono: "a \<le> b \<Longrightarrow> admissible_level b \<le> admissible_level a"
  by (cases a; cases b) (simp_all add: less_eq_denominator_class_def less_eq_coverage_level_def)

text \<open>\<open>None\<close> is the \<^verbatim>\<open>ValueError\<close> of an empty argument.\<close>

definition weakest :: "denominator_class list \<Rightarrow> denominator_class option" where
  "weakest classes = (let ordered = sort_key class_rank classes in if ordered = [] then None else Some (last ordered))"

lemma weakest_Some_iff: "weakest ks = Some k \<longleftrightarrow> k \<in> set ks \<and> (\<forall>x \<in> set ks. x \<le> k)"
proof -
  have "sort_key class_rank ks = [] \<longleftrightarrow> ks = []" by (metis set_empty set_sort)
  then show ?thesis
    using cls.last_sorted [of ks] cls.last_sorted_unique [of k ks]
    by (auto simp: weakest_def Let_def less_eq_denominator_class_def)
qed

lemma weakest_ok: "ks \<noteq> [] \<Longrightarrow> \<exists>k. weakest ks = Some k"
  by (simp add: weakest_def Let_def) (metis set_empty set_sort)

section \<open>Qualifications\<close>

record qualification_columns =
  q_action_family :: pystr
  q_destination_system :: pystr
  q_assigned_class :: denominator_class
  q_enumeration_capable :: bool
  q_confirmation_capable :: bool
  q_identity_isolation_attribute :: "pystr option"
  q_identity_vendor_settable :: bool
  q_authoritative_time_available :: bool
  q_settlement_lag_s :: int
  q_source_retention_days :: int
  q_deletion_traceless_possible :: bool

record qualification = qualification_columns +
  q_ref :: pystr
  q_tenant_id :: pystr
  q_qualified_at :: int
  q_recorded_at :: int
  q_revalidate_after :: int

definition supports_window_coverage_claim :: "qualification \<Rightarrow> bool" where
  "supports_window_coverage_claim q \<longleftrightarrow> q_enumeration_capable q \<and> emits_ratio (q_assigned_class q)"

datatype qualification_error =
    QualificationError
  | QualificationPostdatesWindow
  | ClassNotQualified
  | UnqualifiedWindow
  | PlainValueError
  | TrustRefused trust_error
  | QSignature sig_error
  | QReceipt receipt_error
  | QNotCanonical canon_error
  | StoreRefused

section \<open>The class in force\<close>

text \<open>
  \<^verbatim>\<open>_without_backdated_upgrades\<close>.  Strict strength makes the exclusion of the candidate itself
  (\<open>other is not candidate\<close>) superfluous.
\<close>

definition backdated_behind :: "'a qualification_scheme \<Rightarrow> 'a qualification_scheme \<Rightarrow> bool" where
  "backdated_behind candidate oth \<longleftrightarrow>
     is_stronger_than (q_assigned_class candidate) (q_assigned_class oth)
     \<and> q_qualified_at candidate \<le> q_qualified_at oth \<and> q_recorded_at oth < q_recorded_at candidate"

definition without_backdated_upgrades :: "qualification list \<Rightarrow> qualification list" where
  "without_backdated_upgrades history =
     filter (\<lambda>candidate. \<not> list_ex (backdated_behind candidate) history) history"

definition governing_qualification :: "qualification list \<Rightarrow> int \<Rightarrow> qualification_error + qualification" where
  "governing_qualification history window_start =
     (case py_max q_qualified_at
             (filter (\<lambda>item. q_qualified_at item < window_start) (without_backdated_upgrades history)) of
        None \<Rightarrow> Inl UnqualifiedWindow
      | Some q \<Rightarrow> Inr q)"

definition class_in_force :: "qualification list \<Rightarrow> int \<Rightarrow> int \<Rightarrow> qualification_error + denominator_class" where
  "class_in_force history window_start window_end =
     (if window_end \<le> window_start then Inl QualificationError
      else let eligible = without_backdated_upgrades history in
           rbind (governing_qualification eligible window_start) (\<lambda>baseline.
           let mid_window = map q_assigned_class
                 (filter (\<lambda>item. window_start \<le> q_qualified_at item \<and> q_qualified_at item < window_end) eligible)
           in case weakest (q_assigned_class baseline # mid_window) of
                None \<Rightarrow> Inl PlainValueError
              | Some k \<Rightarrow> Inr k))"

definition assert_class_claimable ::
    "qualification list \<Rightarrow> denominator_class \<Rightarrow> int \<Rightarrow> int \<Rightarrow> qualification_error + unit" where
  "assert_class_claimable history claimed window_start window_end =
     rbind (class_in_force history window_start window_end) (\<lambda>in_force.
     if \<not> is_stronger_than claimed in_force then Inr ()
     else let supporting = filter (\<lambda>item. \<not> is_stronger_than claimed (q_assigned_class item))
                             (without_backdated_upgrades history)
          in if supporting \<noteq> [] \<and> list_all (\<lambda>item. window_start \<le> q_qualified_at item) supporting
             then Inl QualificationPostdatesWindow
             else Inl ClassNotQualified)"

lemma backdated_behind_mem:
  "x \<in> set (without_backdated_upgrades h) \<longleftrightarrow> x \<in> set h \<and> (\<forall>o' \<in> set h. \<not> backdated_behind x o')"
  by (auto simp: without_backdated_upgrades_def list_ex_iff)

text \<open>Filtering twice, as \<^verbatim>\<open>class_in_force\<close> does through \<^verbatim>\<open>governing_qualification\<close>, is filtering once.\<close>

lemma without_backdated_idem:
  "without_backdated_upgrades (without_backdated_upgrades h) = without_backdated_upgrades h"
  unfolding without_backdated_upgrades_def filter_filter
  by (rule filter_cong) (auto simp: list_ex_iff)

lemma governing_qualification_Inr:
  assumes "governing_qualification h s = Inr b"
  shows "b \<in> set (without_backdated_upgrades h)" "q_qualified_at b < s"
    "x \<in> set (without_backdated_upgrades h) \<Longrightarrow> q_qualified_at x < s \<Longrightarrow> q_qualified_at x \<le> q_qualified_at b"
  using assms py_max_Some [of q_qualified_at "filter (\<lambda>item. q_qualified_at item < s) (without_backdated_upgrades h)" b]
  by (auto simp: governing_qualification_def split: option.splits)

definition mid_window_classes :: "qualification list \<Rightarrow> int \<Rightarrow> int \<Rightarrow> denominator_class set" where
  "mid_window_classes h s e = {q_assigned_class x | x. x \<in> set (without_backdated_upgrades h)
     \<and> s \<le> q_qualified_at x \<and> q_qualified_at x < e}"

lemma class_in_force_Inr:
  "class_in_force h s e = Inr k \<longleftrightarrow>
     s < e \<and> (\<exists>b. governing_qualification h s = Inr b
       \<and> k \<in> insert (q_assigned_class b) (mid_window_classes h s e)
       \<and> (\<forall>x \<in> insert (q_assigned_class b) (mid_window_classes h s e). x \<le> k))"
proof -
  have gov: "governing_qualification (without_backdated_upgrades h) s = governing_qualification h s"
    by (simp add: governing_qualification_def without_backdated_idem)
  let ?mid = "map q_assigned_class (filter (\<lambda>item. s \<le> q_qualified_at item \<and> q_qualified_at item < e)
      (without_backdated_upgrades h))"
  have set: "insert k (set ?mid) = insert k (mid_window_classes h s e)" for k
    by (auto simp: mid_window_classes_def)
  have pick: "(case weakest (q_assigned_class b # ?mid) of None \<Rightarrow> Inl PlainValueError | Some k \<Rightarrow> Inr k) = Inr k
      \<longleftrightarrow> k \<in> insert (q_assigned_class b) (mid_window_classes h s e)
        \<and> (\<forall>x \<in> insert (q_assigned_class b) (mid_window_classes h s e). x \<le> k)" for b
    unfolding set [symmetric] list.set(2) [symmetric] weakest_Some_iff [symmetric] by (auto split: option.split)
  show ?thesis
    unfolding class_in_force_def Let_def gov by (simp only: if_distrib [of "\<lambda>x. x = Inr k"] rbind_eq_Inr pick) auto
qed

lemma class_in_force_ok:
  "s < e \<Longrightarrow> governing_qualification h s = Inr b \<Longrightarrow> \<exists>k. class_in_force h s e = Inr k"
  using weakest_ok by (fastforce simp: class_in_force_def Let_def governing_qualification_def
      without_backdated_idem split: option.splits)

text \<open>A record observed last leaves the verdict on every other record as it was.\<close>

lemma without_backdated_insert:
  assumes "\<forall>x \<in> set (xs @ ys). q_recorded_at x \<le> q_recorded_at n"
  shows "without_backdated_upgrades (xs @ n # ys) =
    filter (\<lambda>x. \<not> list_ex (backdated_behind x) (xs @ ys)) xs
    @ (if list_ex (backdated_behind n) (xs @ ys) then [] else [n])
    @ filter (\<lambda>x. \<not> list_ex (backdated_behind x) (xs @ ys)) ys"
    and "without_backdated_upgrades (xs @ ys) =
    filter (\<lambda>x. \<not> list_ex (backdated_behind x) (xs @ ys)) xs
    @ filter (\<lambda>x. \<not> list_ex (backdated_behind x) (xs @ ys)) ys"
proof -
  have "\<not> backdated_behind x n" if "x \<in> insert n (set (xs @ ys))" for x
    using assms that by (fastforce simp: backdated_behind_def)
  then have same: "list_ex (backdated_behind x) (xs @ n # ys) = list_ex (backdated_behind x) (xs @ ys)"
    if "x \<in> insert n (set (xs @ ys))" for x using that by (auto simp: list_ex_iff)
  have eq: "filter (\<lambda>x. \<not> list_ex (backdated_behind x) (xs @ n # ys)) zs
      = filter (\<lambda>x. \<not> list_ex (backdated_behind x) (xs @ ys)) zs" if "set zs \<subseteq> insert n (set (xs @ ys))" for zs
    using that same by (intro filter_cong refl) blast
  have "without_backdated_upgrades (xs @ n # ys)
      = filter (\<lambda>x. \<not> list_ex (backdated_behind x) (xs @ n # ys)) xs
      @ filter (\<lambda>x. \<not> list_ex (backdated_behind x) (xs @ n # ys)) [n]
      @ filter (\<lambda>x. \<not> list_ex (backdated_behind x) (xs @ n # ys)) ys"
    unfolding without_backdated_upgrades_def filter_append [symmetric] by (rule arg_cong2 [of _ _ _ _ filter]) simp_all
  then show "without_backdated_upgrades (xs @ n # ys) =
    filter (\<lambda>x. \<not> list_ex (backdated_behind x) (xs @ ys)) xs
    @ (if list_ex (backdated_behind n) (xs @ ys) then [] else [n])
    @ filter (\<lambda>x. \<not> list_ex (backdated_behind x) (xs @ ys)) ys"
    using eq [of "[n]"] eq [of xs, OF subset_trans [OF _ subset_insertI]] eq [of ys, OF subset_trans [OF _ subset_insertI]]
    by (simp del: list_ex_append)
qed (simp add: without_backdated_upgrades_def)

lemma backdated_insert_inert:
  assumes "\<forall>x \<in> set (xs @ ys). q_recorded_at x \<le> q_recorded_at n"
    and "list_ex (backdated_behind n) (xs @ ys)"
  shows "without_backdated_upgrades (xs @ n # ys) = without_backdated_upgrades (xs @ ys)"
  unfolding without_backdated_insert [OF assms(1)] using assms(2) by simp

lemma governing_insert_later:
  assumes "\<forall>x \<in> set (xs @ ys). q_recorded_at x \<le> q_recorded_at n" and "s \<le> q_qualified_at n"
  shows "governing_qualification (xs @ n # ys) s = governing_qualification (xs @ ys) s"
  unfolding governing_qualification_def without_backdated_insert [OF assms(1)] using assms(2) by simp

lemma mid_window_insert:
  assumes "\<forall>x \<in> set (xs @ ys). q_recorded_at x \<le> q_recorded_at n"
  shows "mid_window_classes (xs @ ys) s e \<subseteq> mid_window_classes (xs @ n # ys) s e"
  unfolding mid_window_classes_def without_backdated_insert [OF assms] by auto

section \<open>Properties of the class in force\<close>

text \<open>
  C5: no retroactive upgrade.  A qualification observed after all others and qualified during or
  after a window never gives that window a stronger class; a window that had a class keeps one; and
  if it assigns a class stronger than an already observed record qualified no earlier, it changes
  nothing for any window.
\<close>

theorem no_retroactive_upgrade:
  assumes "\<forall>x \<in> set (xs @ ys). q_recorded_at x \<le> q_recorded_at n"
  shows "(s \<le> q_qualified_at n \<longrightarrow>
      (\<forall>k'. class_in_force (xs @ n # ys) s e = Inr k' \<longrightarrow> (\<exists>k. class_in_force (xs @ ys) s e = Inr k \<and> k \<le> k'))
      \<and> (\<forall>k. class_in_force (xs @ ys) s e = Inr k \<longrightarrow> (\<exists>k'. class_in_force (xs @ n # ys) s e = Inr k' \<and> k \<le> k')))
    \<and> ((\<exists>o' \<in> set (xs @ ys). q_assigned_class n < q_assigned_class o' \<and> q_qualified_at n \<le> q_qualified_at o'
          \<and> q_recorded_at o' < q_recorded_at n) \<longrightarrow>
        class_in_force (xs @ n # ys) s e = class_in_force (xs @ ys) s e)"
proof (intro conjI impI allI)
  assume late: "s \<le> q_qualified_at n"
  note gov = governing_insert_later [OF assms late] and mid = mid_window_insert [OF assms, of s e]
  show "\<exists>k. class_in_force (xs @ ys) s e = Inr k \<and> k \<le> k'" if "class_in_force (xs @ n # ys) s e = Inr k'" for k'
  proof -
    from that obtain b where b: "s < e" "governing_qualification (xs @ ys) s = Inr b"
      "\<forall>x \<in> insert (q_assigned_class b) (mid_window_classes (xs @ n # ys) s e). x \<le> k'"
      by (auto simp: class_in_force_Inr gov)
    then obtain k where k: "class_in_force (xs @ ys) s e = Inr k" using class_in_force_ok by blast
    then have "k \<in> insert (q_assigned_class b) (mid_window_classes (xs @ ys) s e)"
      using b(2) by (auto simp: class_in_force_Inr)
    with b(3) mid k show ?thesis by blast
  qed
  show "\<exists>k'. class_in_force (xs @ n # ys) s e = Inr k' \<and> k \<le> k'" if "class_in_force (xs @ ys) s e = Inr k" for k
  proof -
    from that obtain b where b: "s < e" "governing_qualification (xs @ n # ys) s = Inr b"
      "k \<in> insert (q_assigned_class b) (mid_window_classes (xs @ ys) s e)"
      by (auto simp: class_in_force_Inr gov)
    then obtain k' where k': "class_in_force (xs @ n # ys) s e = Inr k'" using class_in_force_ok by blast
    then have "\<forall>x \<in> insert (q_assigned_class b) (mid_window_classes (xs @ n # ys) s e). x \<le> k'"
      using b(2) by (simp add: class_in_force_Inr)
    with b(3) mid k' show ?thesis by blast
  qed
next
  assume "\<exists>o' \<in> set (xs @ ys). q_assigned_class n < q_assigned_class o' \<and> q_qualified_at n \<le> q_qualified_at o'
          \<and> q_recorded_at o' < q_recorded_at n"
  then have "list_ex (backdated_behind n) (xs @ ys)"
    by (auto simp: list_ex_iff backdated_behind_def is_stronger_than_less)
  then show "class_in_force (xs @ n # ys) s e = class_in_force (xs @ ys) s e"
    by (simp add: class_in_force_def backdated_insert_inert [OF assms])
qed

lemma class_in_force_le:
  "(\<exists>k. class_in_force h s e = Inr k \<and> k \<le> c) \<longleftrightarrow>
     s < e \<and> (\<exists>b. governing_qualification h s = Inr b
       \<and> (\<forall>x \<in> insert (q_assigned_class b) (mid_window_classes h s e). x \<le> c))"
  (is "?l \<longleftrightarrow> ?r")
proof
  show ?r if ?l using that unfolding class_in_force_Inr by (meson order_trans)
  show ?l if ?r
  proof -
    from that obtain k where "class_in_force h s e = Inr k" using class_in_force_ok by blast
    with that show ?thesis by (auto simp: class_in_force_Inr)
  qed
qed

text \<open>Which refusal is given.\<close>

lemma backdated_eligible:
  "set (without_backdated_upgrades h) = {x \<in> set h. \<not> (\<exists>y \<in> set h. q_assigned_class x < q_assigned_class y
     \<and> q_qualified_at x \<le> q_qualified_at y \<and> q_recorded_at y < q_recorded_at x)}"
  by (auto simp: backdated_behind_mem backdated_behind_def is_stronger_than_less)

lemma governing_qualification_Inl:
  "governing_qualification h s = Inl err \<longleftrightarrow>
     err = UnqualifiedWindow \<and> (\<forall>x \<in> set (without_backdated_upgrades h). s \<le> q_qualified_at x)"
proof (cases "py_max q_qualified_at (filter (\<lambda>item. q_qualified_at item < s) (without_backdated_upgrades h))")
  case None
  then have "\<forall>x \<in> set (without_backdated_upgrades h). s \<le> q_qualified_at x"
    unfolding py_max_None filter_empty_conv not_less .
  with None show ?thesis by (auto simp: governing_qualification_def simp del: py_max_None)
next
  case (Some b)
  then have "b \<in> set (without_backdated_upgrades h) \<and> q_qualified_at b < s" using py_max_Some by fastforce
  with Some show ?thesis by (auto simp: governing_qualification_def not_le)
qed

lemma class_in_force_Inl:
  "class_in_force h s e = Inl err \<longleftrightarrow>
     (if e \<le> s then err = QualificationError else governing_qualification h s = Inl err)"
proof (cases "governing_qualification h s")
  case (Inr b)
  then show ?thesis using class_in_force_ok [of s e h b] by (cases "e \<le> s") (auto simp: class_in_force_def)
qed (auto simp: class_in_force_def Let_def governing_qualification_def without_backdated_idem)

lemma assert_class_claimable_eq:
  "assert_class_claimable h claimed s e =
     (if e \<le> s then Inl QualificationError
      else case governing_qualification h s of
        Inl _ \<Rightarrow> Inl UnqualifiedWindow
      | Inr b \<Rightarrow>
          if q_assigned_class b \<le> claimed \<and> (\<forall>x \<in> set (without_backdated_upgrades h).
               s \<le> q_qualified_at x \<and> q_qualified_at x < e \<longrightarrow> q_assigned_class x \<le> claimed)
          then Inr ()
          else if (\<exists>x \<in> set (without_backdated_upgrades h). q_assigned_class x \<le> claimed)
            \<and> (\<forall>x \<in> set (without_backdated_upgrades h). q_assigned_class x \<le> claimed \<longrightarrow> s \<le> q_qualified_at x)
          then Inl QualificationPostdatesWindow
          else Inl ClassNotQualified)"
proof (cases "class_in_force h s e")
  case (Inl err)
  moreover have "assert_class_claimable h claimed s e = Inl err" using Inl by (simp add: assert_class_claimable_def)
  ultimately show ?thesis
    using governing_qualification_Inl [of h s err] unfolding class_in_force_Inl by (cases "e \<le> s") simp_all
next
  case (Inr k)
  then obtain b where b: "s < e" "governing_qualification h s = Inr b" by (auto simp: class_in_force_Inr)
  have "k \<le> claimed \<longleftrightarrow> q_assigned_class b \<le> claimed \<and> (\<forall>x \<in> set (without_backdated_upgrades h).
      s \<le> q_qualified_at x \<and> q_qualified_at x < e \<longrightarrow> q_assigned_class x \<le> claimed)"
    using class_in_force_le [of h s e claimed] b Inr by (auto simp: mid_window_classes_def)
  note accepted = this
  have supporting: "filter (\<lambda>item. \<not> is_stronger_than claimed (q_assigned_class item)) (without_backdated_upgrades h) \<noteq> []
      \<and> list_all (\<lambda>item. s \<le> q_qualified_at item)
          (filter (\<lambda>item. \<not> is_stronger_than claimed (q_assigned_class item)) (without_backdated_upgrades h))
      \<longleftrightarrow> (\<exists>x \<in> set (without_backdated_upgrades h). q_assigned_class x \<le> claimed)
        \<and> (\<forall>x \<in> set (without_backdated_upgrades h). q_assigned_class x \<le> claimed \<longrightarrow> s \<le> q_qualified_at x)"
    by (simp add: is_stronger_than_less list_all_iff filter_empty_conv not_less) blast
  have "\<not> e \<le> s" using b(1) by simp
  moreover have "assert_class_claimable h claimed s e = (if \<not> is_stronger_than claimed k then Inr ()
      else if (\<exists>x \<in> set (without_backdated_upgrades h). q_assigned_class x \<le> claimed)
        \<and> (\<forall>x \<in> set (without_backdated_upgrades h). q_assigned_class x \<le> claimed \<longrightarrow> s \<le> q_qualified_at x)
      then Inl QualificationPostdatesWindow else Inl ClassNotQualified)"
    unfolding assert_class_claimable_def Inr Let_def supporting [symmetric] by simp
  ultimately show ?thesis
    by (simp only: b(2) sum.case if_False is_stronger_than_less not_less accepted)
qed

text \<open>
  C13: exactly which claims are accepted, and which refusal is given.  Eligible are the records behind which
  no stronger class was dated back.  An empty window is a \<^verbatim>\<open>QualificationError\<close>; a window before which
  no eligible record was qualified is unqualified; a class may be claimed if and only if the last
  eligible record qualified strictly before the window assigns that class or a stronger one and no
  eligible record qualified inside it assigns a weaker one; and of the other claims those are
  refused as retroactive that some eligible record supports but none qualified before the window,
  and the rest as not qualified.
\<close>

theorem claim_verdict:
  "assert_class_claimable h claimed s e =
     (if e \<le> s then Inl QualificationError
      else case governing_qualification h s of
        Inl _ \<Rightarrow> Inl UnqualifiedWindow
      | Inr b \<Rightarrow>
          if q_assigned_class b \<le> claimed \<and> (\<forall>x \<in> set (without_backdated_upgrades h).
               s \<le> q_qualified_at x \<and> q_qualified_at x < e \<longrightarrow> q_assigned_class x \<le> claimed)
          then Inr ()
          else if (\<exists>x \<in> set (without_backdated_upgrades h). q_assigned_class x \<le> claimed)
            \<and> (\<forall>x \<in> set (without_backdated_upgrades h). q_assigned_class x \<le> claimed \<longrightarrow> s \<le> q_qualified_at x)
          then Inl QualificationPostdatesWindow
          else Inl ClassNotQualified)
   \<and> ((\<exists>err. governing_qualification h s = Inl err) \<longleftrightarrow> (\<forall>x \<in> set (without_backdated_upgrades h). s \<le> q_qualified_at x))
   \<and> (\<forall>b. governing_qualification h s = Inr b \<longrightarrow> b \<in> set (without_backdated_upgrades h) \<and> q_qualified_at b < s
        \<and> (\<forall>x \<in> set (without_backdated_upgrades h). q_qualified_at x < s \<longrightarrow> q_qualified_at x \<le> q_qualified_at b))
   \<and> set (without_backdated_upgrades h) = {x \<in> set h. \<not> (\<exists>y \<in> set h. q_assigned_class x < q_assigned_class y
        \<and> q_qualified_at x \<le> q_qualified_at y \<and> q_recorded_at y < q_recorded_at x)}"
proof (intro conjI allI impI)
  show "assert_class_claimable h claimed s e =
     (if e \<le> s then Inl QualificationError
      else case governing_qualification h s of
        Inl _ \<Rightarrow> Inl UnqualifiedWindow
      | Inr b \<Rightarrow>
          if q_assigned_class b \<le> claimed \<and> (\<forall>x \<in> set (without_backdated_upgrades h).
               s \<le> q_qualified_at x \<and> q_qualified_at x < e \<longrightarrow> q_assigned_class x \<le> claimed)
          then Inr ()
          else if (\<exists>x \<in> set (without_backdated_upgrades h). q_assigned_class x \<le> claimed)
            \<and> (\<forall>x \<in> set (without_backdated_upgrades h). q_assigned_class x \<le> claimed \<longrightarrow> s \<le> q_qualified_at x)
          then Inl QualificationPostdatesWindow
          else Inl ClassNotQualified)"
    by (rule assert_class_claimable_eq)
qed (auto simp: governing_qualification_Inl backdated_eligible dest: governing_qualification_Inr)

section \<open>Examples and witnesses\<close>

definition sample_qualification :: "denominator_class \<Rightarrow> int \<Rightarrow> int \<Rightarrow> qualification" where
  "sample_qualification k qualified recorded =
     \<lparr>q_action_family = str ''f'', q_destination_system = str ''d'', q_assigned_class = k,
      q_enumeration_capable = True, q_confirmation_capable = True,
      q_identity_isolation_attribute = Some (str ''a''), q_identity_vendor_settable = False,
      q_authoritative_time_available = True, q_settlement_lag_s = 0, q_source_retention_days = 90,
      q_deletion_traceless_possible = False, q_ref = str ''q'', q_tenant_id = str ''t'',
      q_qualified_at = qualified, q_recorded_at = recorded, q_revalidate_after = qualified + 1\<rparr>"

text \<open>
  The guard is not always conservative.  A class C3 qualified before a window and observed after a
  later C5 is taken for a backdated upgrade and dropped; the window then keeps the C1 of an earlier
  record, which the C3 would have weakened.
\<close>

lemma backdated_downgrade_ignored:
  "class_in_force [sample_qualification C1 1 1, sample_qualification C3 3 12] 5 6 = Inr C3"
  "class_in_force [sample_qualification C1 1 1, sample_qualification C3 3 12, sample_qualification C5 9 10] 5 6 = Inr C1"
  by code_simp+

theorem no_retroactive_upgrade_witness:
  "\<exists>k'. class_in_force [sample_qualification C4 1 1, sample_qualification C1 5 6] 3 9 = Inr k' \<and> C4 \<le> k'"
proof -
  have "class_in_force [sample_qualification C4 1 1] 3 9 = Inr C4" by code_simp
  moreover have "3 \<le> q_qualified_at (sample_qualification C1 5 6)"
    "\<forall>x \<in> set ([sample_qualification C4 1 1] @ []). q_recorded_at x \<le> q_recorded_at (sample_qualification C1 5 6)"
    by (simp_all add: sample_qualification_def)
  ultimately show ?thesis
    using no_retroactive_upgrade [of "[sample_qualification C4 1 1]" "[]" "sample_qualification C1 5 6" 3 9] by simp
qed

theorem claim_verdict_witness:
  "assert_class_claimable [sample_qualification C2 1 1, sample_qualification C4 5 6] C3 3 9 = Inl ClassNotQualified
   \<and> q_qualified_at (sample_qualification C2 1 1) < 3"
proof -
  let ?h = "[sample_qualification C2 1 1, sample_qualification C4 5 6]"
  have facts: "governing_qualification ?h 3 = Inr (sample_qualification C2 1 1)"
    "set (without_backdated_upgrades ?h) = set ?h" by code_simp+
  note v = claim_verdict [of ?h C3 3 9]
  from v facts(1) have "q_qualified_at (sample_qualification C2 1 1) < 3" by blast
  moreover have "assert_class_claimable ?h C3 3 9 = Inl ClassNotQualified"
    using v [THEN conjunct1]
    by (simp only: facts) (simp add: sample_qualification_def less_eq_denominator_class_def)
  ultimately show ?thesis by blast
qed

end
