(* ===== verification/Durations.thy ===== *)
theory Durations
  imports Qualifications
begin

text \<open>
  \<^verbatim>\<open>_day_duration\<close> and \<^verbatim>\<open>add_iso8601_duration\<close> of \<^verbatim>\<open>services/admin/qualification.py\<close>: reading a
  duration and adding it to a time, calendar months first and fixed-length parts after.
\<close>

section \<open>Whole days\<close>

definition day_duration :: "pyval option \<Rightarrow> qualification_error + int" where
  "day_duration v =
     (case v of
        Some (PStr s) \<Rightarrow>
          if s \<noteq> [] \<and> hd s = 80 \<and> last s = 68 then
            (case python_int (butlast (tl s)) of
               None \<Rightarrow> Inl QualificationError
             | Some days \<Rightarrow> if days \<le> 0 then Inl QualificationError else Inr days)
          else Inl QualificationError
      | _ \<Rightarrow> Inl QualificationError)"

section \<open>The grammar\<close>

record duration =
  du_years :: "pystr option"
  du_months :: "pystr option"
  du_weeks :: "pystr option"
  du_days :: "pystr option"
  du_hours :: "pystr option"
  du_minutes :: "pystr option"
  du_seconds :: "(pystr \<times> pystr) option"

text \<open>
  One optional group \<open>([0-9]+)X\<close>.  The letter cannot occur among the digits, so there is no
  backtracking.
\<close>

definition scan_component :: "nat \<Rightarrow> pystr \<Rightarrow> pystr option \<times> pystr" where
  "scan_component letter s =
     (let d = takeWhile is_digit s; r = dropWhile is_digit s
      in if d \<noteq> [] \<and> r \<noteq> [] \<and> hd r = letter then (Some d, tl r) else (None, s))"

text \<open>Seconds may have a fraction after a point or a comma.\<close>

definition scan_seconds :: "pystr \<Rightarrow> (pystr \<times> pystr) option \<times> pystr" where
  "scan_seconds s =
     (let d = takeWhile is_digit s; r = dropWhile is_digit s
      in if d = [] \<or> r = [] then (None, s)
         else if hd r = 83 then (Some (d, []), tl r)
         else if hd r = 46 \<or> hd r = 44 then
           (let f = takeWhile is_digit (tl r); r' = dropWhile is_digit (tl r)
            in if f \<noteq> [] \<and> r' \<noteq> [] \<and> hd r' = 83 then (Some (d, f), tl r') else (None, s))
         else (None, s))"

definition duration_match :: "pystr \<Rightarrow> duration option" where
  "duration_match v =
     (case v of [] \<Rightarrow> None | c # s \<Rightarrow>
      if c \<noteq> 80 then None
      else
        let (y, s1) = scan_component 89 s; (m, s2) = scan_component 77 s1;
            (w, s3) = scan_component 87 s2; (d, s4) = scan_component 68 s3
        in if s4 = [] then Some \<lparr>du_years = y, du_months = m, du_weeks = w, du_days = d,
                               du_hours = None, du_minutes = None, du_seconds = None\<rparr>
           else if hd s4 \<noteq> 84 then None
           else let (h, s5) = scan_component 72 (tl s4); (mi, s6) = scan_component 77 s5;
                    (sec, s7) = scan_seconds s6
                in if s7 = [] then Some \<lparr>du_years = y, du_months = m, du_weeks = w, du_days = d,
                                       du_hours = h, du_minutes = mi, du_seconds = sec\<rparr>
                   else None)"

section \<open>Amounts\<close>

text \<open>\<open>int(components[name] or "0")\<close>: more than 4300 digits are a \<^verbatim>\<open>ValueError\<close>.\<close>

definition whole_number :: "pystr option \<Rightarrow> qualification_error + nat" where
  "whole_number d =
     (case d of None \<Rightarrow> Inr 0
      | Some s \<Rightarrow> if max_str_digits < length s then Inl PlainValueError else Inr (digits_value 0 s))"

text \<open>
  \<open>int(seconds * Decimal(1_000_000))\<close>: the seconds are exact, the product is rounded half-even to the
  28 significant digits of the default decimal context, and \<^verbatim>\<open>int\<close> truncates.
\<close>

definition decimal_precision :: nat where
  "decimal_precision = 28"

fun digit_count :: "nat \<Rightarrow> nat" where
  "digit_count n = (if n < 10 then 1 else Suc (digit_count (n div 10)))"

declare digit_count.simps [simp del]

definition round_half_even :: "nat \<Rightarrow> nat \<Rightarrow> nat" where
  "round_half_even n unit' =
     (let q = n div unit'; r = n mod unit'
      in if unit' < 2 * r \<or> 2 * r = unit' \<and> odd q then q + 1 else q)"

definition context_round :: "nat \<Rightarrow> nat" where
  "context_round n =
     (if digit_count n \<le> decimal_precision then n
      else let unit' = 10 ^ (digit_count n - decimal_precision) in round_half_even n unit' * unit')"

definition second_coefficient :: "(pystr \<times> pystr) option \<Rightarrow> nat" where
  "second_coefficient sec = (case sec of None \<Rightarrow> 0 | Some (d, f) \<Rightarrow> digits_value 0 (d @ f))"

definition second_microseconds :: "(pystr \<times> pystr) option \<Rightarrow> nat" where
  "second_microseconds sec =
     (case sec of None \<Rightarrow> 0
      | Some (d, f) \<Rightarrow> context_round (digits_value 0 (d @ f) * 1000000) div 10 ^ length f)"

section \<open>Adding a duration\<close>

definition microseconds_per_day :: int where
  "microseconds_per_day = 86400000000"

text \<open>
  The date moved by whole months, its day clamped to the target month; \<open>None\<close> is the
  \<^verbatim>\<open>ValueError\<close> of a year after 9999.
\<close>

definition add_months :: "nat \<times> nat \<times> nat \<Rightarrow> nat \<Rightarrow> (nat \<times> nat \<times> nat) option" where
  "add_months date total_months =
     (case date of (y, m, d) \<Rightarrow>
        let month_index = m - 1 + total_months;
            target_year = y + month_index div 12;
            target_month = month_index mod 12 + 1
        in if 9999 < target_year then None
           else Some (target_year, target_month, min d (days_in_month target_year target_month)))"

definition duration_ok :: "pystr \<Rightarrow> duration \<Rightarrow> bool" where
  "duration_ok v du \<longleftrightarrow>
     (du_years du \<noteq> None \<or> du_months du \<noteq> None \<or> du_weeks du \<noteq> None \<or> du_days du \<noteq> None
        \<or> du_hours du \<noteq> None \<or> du_minutes du \<noteq> None \<or> du_seconds du \<noteq> None)
     \<and> (84 \<in> set v \<longrightarrow> du_hours du \<noteq> None \<or> du_minutes du \<noteq> None \<or> du_seconds du \<noteq> None)
     \<and> (du_weeks du \<noteq> None \<longrightarrow>
          du_years du = None \<and> du_months du = None \<and> du_days du = None
          \<and> du_hours du = None \<and> du_minutes du = None \<and> du_seconds du = None)"

definition add_iso8601_duration :: "pytime \<Rightarrow> pyval option \<Rightarrow> qualification_error + pytime" where
  "add_iso8601_duration start v =
     (if pt_offset start = None then Inl QualificationError
      else case v of
        Some (PStr text') \<Rightarrow>
          (case duration_match text' of
             None \<Rightarrow> Inl QualificationError
           | Some du \<Rightarrow>
               if \<not> duration_ok text' du then Inl QualificationError
               else
               rbind (whole_number (du_years du)) (\<lambda>years.
               rbind (whole_number (du_months du)) (\<lambda>months.
               rbind (whole_number (du_weeks du)) (\<lambda>weeks.
               rbind (whole_number (du_days du)) (\<lambda>days.
               rbind (whole_number (du_hours du)) (\<lambda>hours.
               rbind (whole_number (du_minutes du)) (\<lambda>minutes.
               if years = 0 \<and> months = 0 \<and> weeks = 0 \<and> days = 0 \<and> hours = 0 \<and> minutes = 0
                  \<and> second_coefficient (du_seconds du) = 0 then Inl QualificationError
               else
               let day = pt_local start div microseconds_per_day;
                   tod = pt_local start mod microseconds_per_day
               in case add_months (date_of_ordinal (nat (day + 719163))) (years * 12 + months) of
                    None \<Rightarrow> Inl QualificationError
                  | Some (y, m, d) \<Rightarrow>
                      let moved = (int (date_ordinal y m d) - 719163) * microseconds_per_day + tod;
                          shifted = moved + int (weeks * 7 + days) * microseconds_per_day
                            + int hours * 3600000000 + int minutes * 60000000
                            + int (second_microseconds (du_seconds du))
                      in if representable (shifted div 10 ^ 6)
                         then Inr (start\<lparr>pt_local := shifted\<rparr>)
                         else Inl QualificationError))))))
           )
      | _ \<Rightarrow> Inl QualificationError)"

section \<open>A duration never leads back\<close>

lemma add_months_valid:
  assumes "valid_date y m d" and "add_months (y, m, d) n = Some (y', m', d')"
  shows "valid_date y' m' d'" "date_ordinal y m d \<le> date_ordinal y' m' d'"
    "0 < n \<Longrightarrow> date_ordinal y m d < date_ordinal y' m' d'"
proof -
  have e: "y' = y + (m - 1 + n) div 12" "m' = (m - 1 + n) mod 12 + 1" "d' = min d (days_in_month y' m')" "y' \<le> 9999"
    using assms(2) by (auto simp: add_months_def Let_def split: if_splits)
  show v: "valid_date y' m' d'"
    using assms(1) e days_in_month_bounds(1) [of y' m'] mod_less_divisor [of 12 "m - 1 + n"]
    by (auto simp: valid_date_def simp del: mod_less_divisor)
  have m: "1 \<le> m" "m \<le> 12" using assms(1) by (auto simp: valid_date_def)
  show less: "date_ordinal y m d < date_ordinal y' m' d'" if "0 < n"
  proof (rule date_ordinal_strict_mono [OF assms(1) v])
    show "y < y' \<or> y = y' \<and> (m < m' \<or> m = m' \<and> d < d')"
    proof (cases "(m - 1 + n) div 12 = 0")
      case True
      then have "m - 1 + n < 12" by simp
      then show ?thesis using e that m by simp
    next
      case False
      then show ?thesis using e by simp
    qed
  qed
  show "date_ordinal y m d \<le> date_ordinal y' m' d'"
  proof (cases "n = 0")
    case True
    then have "y' = y" "m' = m" using e m by simp_all
    moreover have "d' = d" using e(3) assms(1) calculation by (simp add: valid_date_def)
    ultimately show ?thesis by simp
  next
    case False
    then show ?thesis using less by simp
  qed
qed

lemma representable_day:
  assumes "representable (t div 10 ^ 6)"
  shows "1 \<le> nat (t div microseconds_per_day + 719163)" "nat (t div microseconds_per_day + 719163) \<le> max_ordinal"
    "int (nat (t div microseconds_per_day + 719163)) = t div microseconds_per_day + 719163"
proof -
  have d: "t div microseconds_per_day = t div 10 ^ 6 div 86400"
    by (simp add: microseconds_per_day_def zdiv_zmult2_eq)
  have "- 719162 \<le> t div 10 ^ 6 div 86400" "t div 10 ^ 6 div 86400 \<le> 2932896"
    using assms by (auto simp: representable_def min_seconds_def max_seconds_def)
  then show "1 \<le> nat (t div microseconds_per_day + 719163)" "nat (t div microseconds_per_day + 719163) \<le> max_ordinal"
    "int (nat (t div microseconds_per_day + 719163)) = t div microseconds_per_day + 719163"
    unfolding d max_ordinal_def by simp_all
qed

lemma add_iso8601_duration_Inr:
  assumes "representable (pt_local start div 10 ^ 6)" and "add_iso8601_duration start v = Inr t"
  shows "pt_offset t = pt_offset start" "pt_offset start \<noteq> None" "pt_local start \<le> pt_local t"
    "representable (pt_local t div 10 ^ 6)"
proof -
  let ?day = "pt_local start div microseconds_per_day" and ?tod = "pt_local start mod microseconds_per_day"
  obtain text' du years months weeks days hours minutes y m d where
    a: "add_months (date_of_ordinal (nat (?day + 719163))) (years * 12 + months) = Some (y, m, d)"
    and t: "pt_offset start \<noteq> None" "t = start\<lparr>pt_local := (int (date_ordinal y m d) - 719163) * microseconds_per_day + ?tod
        + int (weeks * 7 + days) * microseconds_per_day + int hours * 3600000000 + int minutes * 60000000
        + int (second_microseconds (du_seconds du))\<rparr>"
    and r: "representable (pt_local t div 10 ^ 6)" and v: "v = Some (PStr text')" "duration_match text' = Some du"
    using assms(2)
    by (auto simp: add_iso8601_duration_def rbind_eq_Inr Let_def
        split: if_splits option.splits pyval.splits prod.splits)
  obtain y0 m0 d0 where d0: "date_of_ordinal (nat (?day + 719163)) = (y0, m0, d0)"
    by (cases "date_of_ordinal (nat (?day + 719163))") auto
  note ord = representable_day [OF assms(1)]
  note s = date_of_ordinal_spec [OF ord(1,2) d0]
  have "?day + 719163 \<le> int (date_ordinal y m d)"
    using add_months_valid(2) [OF s(1) a [unfolded d0]] s(2) ord(3) by linarith
  then have "?day * microseconds_per_day \<le> (int (date_ordinal y m d) - 719163) * microseconds_per_day"
    by (intro mult_right_mono) (simp_all add: microseconds_per_day_def)
  moreover have "pt_local start = ?day * microseconds_per_day + ?tod" by simp
  moreover have "0 \<le> int (weeks * 7 + days) * microseconds_per_day" by (simp add: microseconds_per_day_def)
  moreover have "pt_local t = (int (date_ordinal y m d) - 719163) * microseconds_per_day + ?tod
        + int (weeks * 7 + days) * microseconds_per_day + int hours * 3600000000 + int minutes * 60000000
        + int (second_microseconds (du_seconds du))" unfolding t(2) by simp
  ultimately show "pt_local start \<le> pt_local t" by linarith
  show "pt_offset t = pt_offset start" "pt_offset start \<noteq> None" "representable (pt_local t div 10 ^ 6)"
    using t r by simp_all
qed

end
