(* ===== verification/Qualification_Store.thy ===== *)
theory Qualification_Store
  imports Durations
begin

text \<open>
  Recording a signed qualification: \<^verbatim>\<open>projection\<close>, \<^verbatim>\<open>record_qualification\<close> and
  \<^verbatim>\<open>qualification_history\<close> of \<^verbatim>\<open>services/admin/qualification.py\<close> over the relation of migration 0012,
  whose check and unique constraints and whose upgrade trigger are \<open>insert_qualification\<close>.
  The store is a step relation; its invariant is that the guard at read time drops nothing.
\<close>

section \<open>The projection\<close>

definition require_object :: "pyval option \<Rightarrow> qualification_error + pydict" where
  "require_object v = (case v of Some (PDict d) \<Rightarrow> Inr d | _ \<Rightarrow> Inl QualificationError)"

definition require_bool :: "pyval option \<Rightarrow> qualification_error + bool" where
  "require_bool v = (case v of Some (PBool b) \<Rightarrow> Inr b | _ \<Rightarrow> Inl QualificationError)"

definition require_int :: "pyval option \<Rightarrow> qualification_error + int" where
  "require_int v = (case v of Some (PInt i) \<Rightarrow> Inr i | _ \<Rightarrow> Inl QualificationError)"

definition optional_text :: "pyval option \<Rightarrow> qualification_error + pystr option" where
  "optional_text v =
     (case v of
        None \<Rightarrow> Inr None
      | Some PNone \<Rightarrow> Inr None
      | Some (PStr s) \<Rightarrow> if s = [] then Inl QualificationError else Inr (Some s)
      | _ \<Rightarrow> Inl QualificationError)"

text \<open>\<open>DenominatorClass(str(value).lower())\<close>\<close>

definition class_of_text :: "pystr \<Rightarrow> denominator_class option" where
  "class_of_text s =
     map_of [(str ''C1'', C1), (str ''c1'', C1), (str ''C2'', C2), (str ''c2'', C2), (str ''C3'', C3),
       (str ''c3'', C3), (str ''C4'', C4), (str ''c4'', C4), (str ''C5'', C5), (str ''c5'', C5)] s"

definition assigned_class_of :: "pyval option \<Rightarrow> qualification_error + denominator_class" where
  "assigned_class_of v =
     (case v of
        Some (PStr s) \<Rightarrow> (case class_of_text s of None \<Rightarrow> Inl PlainValueError | Some k \<Rightarrow> Inr k)
      | _ \<Rightarrow> Inl PlainValueError)"

definition projection :: "evidence_record \<Rightarrow> qualification_error + qualification_columns" where
  "projection r =
     (let b = body r in
      rbind (require_object (member b ''enumeration'')) (\<lambda>enumeration.
      rbind (require_object (member b ''confirmation'')) (\<lambda>confirmation.
      rbind (require_object (member b ''identity_isolation'')) (\<lambda>isolation.
      rbind (require_object (member b ''temporal'')) (\<lambda>temporal.
      rbind (require_object (member b ''mutability'')) (\<lambda>mutability.
      rbind (assigned_class_of (member b ''assigned_class'')) (\<lambda>assigned.
      rbind (require_bool (member enumeration ''capable'')) (\<lambda>enumerates.
      rbind (require_bool (member confirmation ''capable'')) (\<lambda>confirms.
      rbind (optional_text (member isolation ''attribute'')) (\<lambda>attribute.
      rbind (require_bool (member isolation ''vendor_settable'')) (\<lambda>settable.
      rbind (optional_text (member temporal ''authoritative_timestamp_source'')) (\<lambda>timestamp_source.
      rbind (require_int (member temporal ''measured_settlement_lag_s'')) (\<lambda>lag.
      rbind (day_duration (member b ''retention_period'')) (\<lambda>retention.
      rbind (require_bool (member mutability ''deletion_possible'')) (\<lambda>deletion.
      rbind (if deletion then require_bool (member mutability ''trace_available'') else Inr True) (\<lambda>trace.
      Inr \<lparr>q_action_family = str_of (member b ''action_family''),
           q_destination_system = str_of (member b ''destination_system''),
           q_assigned_class = assigned, q_enumeration_capable = enumerates,
           q_confirmation_capable = confirms, q_identity_isolation_attribute = attribute,
           q_identity_vendor_settable = settable,
           q_authoritative_time_available = (timestamp_source \<noteq> None),
           q_settlement_lag_s = lag, q_source_retention_days = retention,
           q_deletion_traceless_possible = (deletion \<and> \<not> trace)\<rparr>))))))))))))))))"

section \<open>The relation\<close>

record qualification_row = qualification +
  qr_canonical_bytes :: bytes
  qr_body :: pydict
  qr_key_id :: pystr
  qr_signature :: bytes
  qr_receipt_key_id :: pystr
  qr_receipt_signature :: bytes
  qr_receipt_canonical_bytes :: bytes
  qr_received_wire_bytes :: bytes

text \<open>The triple a qualification is about.\<close>

definition q_triple :: "'a qualification_scheme \<Rightarrow> pystr \<times> pystr \<times> pystr" where
  "q_triple q = (q_tenant_id q, q_action_family q, q_destination_system q)"

definition int4 :: "int \<Rightarrow> bool" where
  "int4 i \<longleftrightarrow> - 2147483648 \<le> i \<and> i \<le> 2147483647"

definition row_checks :: "'a qualification_row_scheme \<Rightarrow> bool" where
  "row_checks q \<longleftrightarrow>
     length (qr_signature q) = 64 \<and> qr_canonical_bytes q \<noteq> []
     \<and> int4 (q_settlement_lag_s q) \<and> 0 \<le> q_settlement_lag_s q
     \<and> int4 (q_source_retention_days q) \<and> 0 \<le> q_source_retention_days q
     \<and> q_qualified_at q < q_revalidate_after q
     \<and> (q_identity_isolation_attribute q \<noteq> None \<or> q_assigned_class q = C5)
     \<and> (q_identity_isolation_attribute q \<noteq> None \<or> \<not> q_identity_vendor_settable q)
     \<and> (q_assigned_class q \<notin> {C1, C2}
          \<or> q_identity_isolation_attribute q \<noteq> None \<and> \<not> q_identity_vendor_settable q)
     \<and> (q_assigned_class q \<in> {C4, C5} \<or> q_enumeration_capable q)"

text \<open>The \<^verbatim>\<open>BEFORE INSERT\<close> trigger: a weaker record of the triple qualified no earlier blocks.\<close>

definition refuses_upgrade :: "qualification_row list \<Rightarrow> qualification_row \<Rightarrow> bool" where
  "refuses_upgrade rows new \<longleftrightarrow>
     list_ex (\<lambda>q. q_triple q = q_triple new \<and> q_assigned_class new < q_assigned_class q
                \<and> q_qualified_at new \<le> q_qualified_at q) rows"

definition insert_qualification ::
    "qualification_row list \<Rightarrow> qualification_row \<Rightarrow> qualification_error + qualification_row list" where
  "insert_qualification rows new =
     (if refuses_upgrade rows new \<or> \<not> row_checks new
         \<or> list_ex (\<lambda>q. q_ref q = q_ref new) rows
         \<or> list_ex (\<lambda>q. q_triple q = q_triple new \<and> q_qualified_at q = q_qualified_at new) rows
      then Inl StoreRefused
      else Inr (rows @ [new]))"

definition qualification_history ::
    "qualification_row list \<Rightarrow> pystr \<Rightarrow> pystr \<Rightarrow> pystr \<Rightarrow> qualification list" where
  "qualification_history rows tenant action_family destination_system =
     map qualification.truncate
       (sort_key (\<lambda>q. [q_qualified_at q, q_recorded_at q])
         (filter (\<lambda>q. q_triple q = (tenant, action_family, destination_system)) rows))"

section \<open>Recording\<close>

definition revalidate_after :: "evidence_record \<Rightarrow> qualification_error + pytime" where
  "revalidate_after r =
     (case iso_time (str_of (member (body r) ''qualified_at'')) of
        None \<Rightarrow> Inl PlainValueError
      | Some t \<Rightarrow> add_iso8601_duration t (member (body r) ''revalidation_cadence''))"

definition qualification_row_of ::
    "evidence_record \<Rightarrow> bytes \<Rightarrow> bytes \<Rightarrow> signed_receipt \<Rightarrow> ingestion_receipt \<Rightarrow> qualification_columns
     \<Rightarrow> qualification_error + qualification_row" where
  "qualification_row_of r canonical_bytes sg receipt payload columns =
     (case iso_time (str_of (member (body r) ''qualified_at'')) of
        None \<Rightarrow> Inl PlainValueError
      | Some qualified_at \<Rightarrow>
     (case parse_timestamp (ir_ingest_time payload) of
        Inl e \<Rightarrow> Inl (QReceipt e)
      | Inr recorded_at \<Rightarrow>
     (case serialize_record r of
        Inl e \<Rightarrow> Inl (QNotCanonical e)
      | Inr wire \<Rightarrow>
     rbind (revalidate_after r) (\<lambda>revalidate.
     Inr \<lparr>q_action_family = q_action_family columns, q_destination_system = q_destination_system columns,
          q_assigned_class = q_assigned_class columns, q_enumeration_capable = q_enumeration_capable columns,
          q_confirmation_capable = q_confirmation_capable columns,
          q_identity_isolation_attribute = q_identity_isolation_attribute columns,
          q_identity_vendor_settable = q_identity_vendor_settable columns,
          q_authoritative_time_available = q_authoritative_time_available columns,
          q_settlement_lag_s = q_settlement_lag_s columns,
          q_source_retention_days = q_source_retention_days columns,
          q_deletion_traceless_possible = q_deletion_traceless_possible columns,
          q_ref = record_id r, q_tenant_id = tenant_id r, q_qualified_at = pt_instant qualified_at,
          q_recorded_at = recorded_at, q_revalidate_after = pt_instant revalidate,
          qr_canonical_bytes = canonical_bytes, qr_body = body r,
          qr_key_id = str_of (member (signature r) ''key_id''), qr_signature = sg,
          qr_receipt_key_id = sr_key_id receipt, qr_receipt_signature = sr_signature receipt,
          qr_receipt_canonical_bytes = sr_canonical_bytes receipt, qr_received_wire_bytes = wire\<rparr>))))"

definition trust_result :: "trust_error + 'a \<Rightarrow> qualification_error + 'a" where
  "trust_result m = (case m of Inl e \<Rightarrow> Inl (TrustRefused e) | Inr x \<Rightarrow> Inr x)"

definition q_sig_result :: "sig_error + 'a \<Rightarrow> qualification_error + 'a" where
  "q_sig_result m = (case m of Inl e \<Rightarrow> Inl (QSignature e) | Inr x \<Rightarrow> Inr x)"

definition q_receipt_result :: "receipt_error + 'a \<Rightarrow> qualification_error + 'a" where
  "q_receipt_result m = (case m of Inl e \<Rightarrow> Inl (QReceipt e) | Inr x \<Rightarrow> Inr x)"

definition record_qualification ::
    "('sk, 'pk) crypto \<Rightarrow> (bytes \<Rightarrow> 'pk option) \<Rightarrow> key_row list \<Rightarrow> qualification_row list
     \<Rightarrow> evidence_record \<Rightarrow> bytes \<Rightarrow> bytes \<Rightarrow> signed_receipt
     \<Rightarrow> qualification_error + qualification_row list \<times> pystr" where
  "record_qualification c load keys rows r canonical_bytes sg receipt =
     rbind (trust_result (registered_evidence_keyring load keys (tenant_id r) (signature r))) (\<lambda>public_keys.
     rbind (q_sig_result (verify_record_signature_bytes c r canonical_bytes public_keys)) (\<lambda>_.
     rbind (q_sig_result (record_signature_bytes r)) (\<lambda>embedded.
     if sg \<noteq> embedded then Inl (QSignature InvalidSignatureError)
     else
     rbind (trust_result (registered_receipt_keyring load keys (tenant_id r) (sr_key_id receipt))) (\<lambda>reg.
     rbind (q_receipt_result (verify_ingestion_receipt c receipt r reg None)) (\<lambda>payload.
     rbind (projection r) (\<lambda>columns.
     rbind (qualification_row_of r canonical_bytes sg receipt payload columns) (\<lambda>row.
     rbind (insert_qualification rows row) (\<lambda>rows'.
     Inr (rows', record_id r)))))))))"

section \<open>The relation over time\<close>

text \<open>Relations reached by insertions, whatever the receipts say; a row stands where it was inserted.\<close>

inductive stored :: "qualification_row list \<Rightarrow> bool" where
  stored_empty: "stored []"
| stored_insert: "stored rows \<Longrightarrow> insert_qualification rows new = Inr rows' \<Longrightarrow> stored rows'"

lemma insert_qualification_Inr:
  "insert_qualification rows new = Inr rows' \<longleftrightarrow>
     rows' = rows @ [new] \<and> \<not> refuses_upgrade rows new \<and> row_checks new
     \<and> (\<forall>q \<in> set rows. q_ref q \<noteq> q_ref new)
     \<and> (\<forall>q \<in> set rows. q_triple q = q_triple new \<longrightarrow> q_qualified_at q \<noteq> q_qualified_at new)"
  by (auto simp: insert_qualification_def list_ex_iff)

definition store_invariant :: "qualification_row list \<Rightarrow> bool" where
  "store_invariant rows \<longleftrightarrow> list_all row_checks rows \<and> distinct (map q_ref rows)
     \<and> distinct (map (\<lambda>q. (q_triple q, q_qualified_at q)) rows)
     \<and> sorted_wrt (\<lambda>x y. q_triple x = q_triple y \<longrightarrow> \<not> backdated_behind y x) rows"

lemma store_invariant_insert:
  assumes "store_invariant rows" "insert_qualification rows new = Inr rows'"
  shows "store_invariant rows'"
proof -
  note n = assms(2) [unfolded insert_qualification_Inr]
  have "\<not> backdated_behind new y" if "y \<in> set rows" "q_triple y = q_triple new" for y
    using n that by (auto simp: refuses_upgrade_def list_ex_iff backdated_behind_def is_stronger_than_less)
  then show ?thesis using assms(1) n by (auto simp: store_invariant_def sorted_wrt_append)
qed

lemma stored_invariant: "stored rows \<Longrightarrow> store_invariant rows"
  by (induction rule: stored.induct) (simp add: store_invariant_def, rule store_invariant_insert)

text \<open>What stands behind a weaker row that was observed before it was inserted after that row.\<close>

lemma backdated_inserted_later:
  assumes inv: "store_invariant rows" and mem: "x \<in> set rows" "y \<in> set rows" "q_triple y = q_triple x" "backdated_behind x y"
  shows "\<exists>i j. i < j \<and> j < length rows \<and> rows ! i = x \<and> rows ! j = y"
proof -
  obtain i j where ij: "i < length rows" "rows ! i = x" "j < length rows" "rows ! j = y"
    using mem(1,2) by (auto simp: in_set_conv_nth)
  have "\<not> backdated_behind x x" by (simp add: backdated_behind_def is_stronger_than_less)
  then have "i \<noteq> j" using ij mem(4) by auto
  moreover have "\<not> j < i"
    using sorted_wrt_nth_less [of _ rows j i] inv ij mem(3,4) by (auto simp: store_invariant_def)
  ultimately show ?thesis using ij by (intro exI [of _ i] exI [of _ j]) auto
qed

lemma backdated_truncate:
  "backdated_behind (qualification.truncate x) (qualification.truncate y) \<longleftrightarrow> backdated_behind x y"
  by (simp add: backdated_behind_def qualification.truncate_def)

lemma history_mem:
  "q \<in> set (qualification_history rows t f d) \<longleftrightarrow>
     (\<exists>row \<in> set rows. q_triple row = (t, f, d) \<and> q = qualification.truncate row)"
  by (auto simp: qualification_history_def)

lemma sort_key_pair_sorted:
  fixes a b :: "'x \<Rightarrow> int"
  shows "sorted (map a (sort_key (\<lambda>x. [a x, b x]) xs))"
proof -
  have "sorted_wrt (\<lambda>x y. [a x, b x] \<le> [a y, b y]) (sort_key (\<lambda>x. [a x, b x]) xs)"
    using sorted_sort_key [of "\<lambda>x. [a x, b x]" xs] by (simp add: sorted_wrt_map)
  then have "sorted_wrt (\<lambda>x y. a x \<le> a y) (sort_key (\<lambda>x. [a x, b x]) xs)"
    by (rule sorted_wrt_mono_rel [rotated]) auto
  then show ?thesis by (simp add: sorted_wrt_map)
qed

section \<open>Properties\<close>

text \<open>
  C14: how the guard at write time and the guard at read time go together.  In every relation reached by
  insertions each history holds all rows of its pair and is strictly ascending in the qualification
  instant, so that the governing record is unique; the resolver drops a row from it only for a
  weaker row that was inserted after it and yet observed before it; and it drops nothing if the
  rows were inserted in the order of their observation.
\<close>

theorem write_guard_covers_read_guard:
  assumes "stored rows"
  shows "set (qualification_history rows t f d) = qualification.truncate ` {q \<in> set rows. q_triple q = (t, f, d)}
    \<and> sorted_wrt (<) (map q_qualified_at (qualification_history rows t f d))
    \<and> (\<forall>x \<in> set (qualification_history rows t f d). x \<notin> set (without_backdated_upgrades (qualification_history rows t f d)) \<longrightarrow>
         (\<exists>i j. i < j \<and> j < length rows \<and> x = qualification.truncate (rows ! i) \<and> q_triple (rows ! j) = (t, f, d)
            \<and> q_assigned_class x < q_assigned_class (rows ! j) \<and> q_qualified_at x \<le> q_qualified_at (rows ! j)
            \<and> q_recorded_at (rows ! j) < q_recorded_at x))
    \<and> (sorted (map q_recorded_at rows) \<longrightarrow>
         without_backdated_upgrades (qualification_history rows t f d) = qualification_history rows t f d)"
proof (intro conjI ballI impI)
  note inv = stored_invariant [OF assms]
  note inv' = inv [unfolded store_invariant_def]
  have dropped: "\<exists>i j. i < j \<and> j < length rows \<and> x = qualification.truncate (rows ! i) \<and> q_triple (rows ! j) = (t, f, d)
      \<and> backdated_behind (rows ! i) (rows ! j)"
    if x: "x \<in> set (qualification_history rows t f d)" "x \<notin> set (without_backdated_upgrades (qualification_history rows t f d))" for x
  proof -
    obtain p q where p: "p \<in> set rows" "q_triple p = (t, f, d)" "x = qualification.truncate p"
      and q: "q \<in> set rows" "q_triple q = (t, f, d)" "backdated_behind p q"
      using x unfolding backdated_behind_mem history_mem by (auto simp: history_mem backdated_truncate)
    from backdated_inserted_later [OF inv p(1) q(1) _ q(3)] p q show ?thesis by auto
  qed
  show "\<exists>i j. i < j \<and> j < length rows \<and> x = qualification.truncate (rows ! i) \<and> q_triple (rows ! j) = (t, f, d)
      \<and> q_assigned_class x < q_assigned_class (rows ! j) \<and> q_qualified_at x \<le> q_qualified_at (rows ! j)
      \<and> q_recorded_at (rows ! j) < q_recorded_at x"
    if x: "x \<in> set (qualification_history rows t f d)" "x \<notin> set (without_backdated_upgrades (qualification_history rows t f d))" for x
  proof -
    obtain i j where ij: "i < j" "j < length rows" "x = qualification.truncate (rows ! i)" "q_triple (rows ! j) = (t, f, d)"
      "backdated_behind (rows ! i) (rows ! j)" using dropped [OF x] by blast
    then show ?thesis
      by (intro exI [of _ i] exI [of _ j]) (simp add: backdated_behind_def is_stronger_than_less qualification.truncate_def)
  qed
  show "without_backdated_upgrades (qualification_history rows t f d) = qualification_history rows t f d"
    if "sorted (map q_recorded_at rows)"
  proof -
    have "x \<in> set (without_backdated_upgrades (qualification_history rows t f d))"
      if x: "x \<in> set (qualification_history rows t f d)" for x
    proof (rule ccontr)
      assume "x \<notin> set (without_backdated_upgrades (qualification_history rows t f d))"
      from dropped [OF x this] obtain i j where "i < j" "j < length rows" "q_recorded_at (rows ! j) < q_recorded_at (rows ! i)"
        by (auto simp: backdated_behind_def)
      with sorted_nth_mono [OF \<open>sorted (map q_recorded_at rows)\<close>, of i j] show False by simp
    qed
    then show ?thesis unfolding without_backdated_upgrades_def by (auto simp: filter_id_conv)
  qed
  let ?rs = "filter (\<lambda>q. q_triple q = (t, f, d)) rows"
  have "distinct (map (\<lambda>q. (q_triple q, q_qualified_at q)) ?rs)"
    using inv' by (simp add: distinct_map_filter)
  then have "distinct (map q_qualified_at ?rs)" by (auto simp: distinct_map inj_on_def)
  then have "distinct (map q_qualified_at (sort_key (\<lambda>q. [q_qualified_at q, q_recorded_at q]) ?rs))"
    by (simp add: distinct_map)
  moreover have "map q_qualified_at (qualification_history rows t f d)
      = map q_qualified_at (sort_key (\<lambda>q. [q_qualified_at q, q_recorded_at q]) ?rs)"
    by (simp add: qualification_history_def qualification.truncate_def)
  ultimately show "sorted_wrt (<) (map q_qualified_at (qualification_history rows t f d))"
    using sort_key_pair_sorted [of q_qualified_at q_recorded_at ?rs] by (simp add: strict_sorted_iff)
  show "set (qualification_history rows t f d)
      = qualification.truncate ` {q \<in> set rows. q_triple q = (t, f, d)}"
    by (auto simp: qualification_history_def)
qed

text \<open>
  C15: a recorded qualification is authentic: its row is appended, the bytes that were handed in
  verify under a key of the tenant registered in the evidence namespace, its time of observation is
  that of a receipt which verifies under an issuer key of the tenant, every projected column is read
  from the signed body, and the row is due for revalidation only after it was qualified.
\<close>

theorem record_qualification_authentic:
  assumes "record_qualification c load keys rows r canonical_bytes sg receipt = Inr (rows', ref)"
  shows "\<exists>row k pk i ipk payload columns.
    rows' = rows @ [row] \<and> ref = record_id r \<and> q_ref row = record_id r \<and> q_tenant_id row = tenant_id r
    \<and> k \<in> set keys \<and> kr_tenant_id k = tenant_id r \<and> kr_namespace k = Evidence
    \<and> load (kr_public_key k) = Some pk
    \<and> verify_record_signature_bytes c r canonical_bytes [(kr_key_id k, pk)] = Inr (kr_key_id k)
    \<and> record_signing_bytes r = Inr canonical_bytes
    \<and> i \<in> set keys \<and> kr_tenant_id i = tenant_id r \<and> load (kr_public_key i) = Some ipk
    \<and> verify_ingestion_receipt c receipt r
        [(kr_key_id i, \<lparr>rk_namespace = kr_namespace i, rk_public_key = ipk\<rparr>)] None = Inr payload
    \<and> kr_namespace i = Issuer
    \<and> parse_timestamp (ir_ingest_time payload) = Inr (q_recorded_at row)
    \<and> projection r = Inr columns \<and> qualification_columns.truncate row = columns
    \<and> q_qualified_at row < q_revalidate_after row \<and> \<not> refuses_upgrade rows row"
proof -
  obtain ring k' reg payload columns row where a:
    "registered_evidence_keyring load keys (tenant_id r) (signature r) = Inr ring"
    "verify_record_signature_bytes c r canonical_bytes ring = Inr k'"
    "registered_receipt_keyring load keys (tenant_id r) (sr_key_id receipt) = Inr reg"
    "verify_ingestion_receipt c receipt r reg None = Inr payload"
    "projection r = Inr columns"
    "qualification_row_of r canonical_bytes sg receipt payload columns = Inr row"
    "insert_qualification rows row = Inr rows'" "ref = record_id r"
    using assms
    by (auto simp: record_qualification_def rbind_eq_Inr trust_result_def q_sig_result_def q_receipt_result_def
        split: sum.splits if_splits)
  obtain k pk where k: "k \<in> set keys" "kr_tenant_id k = tenant_id r" "kr_namespace k = Evidence"
    "load (kr_public_key k) = Some pk" "ring = [(kr_key_id k, pk)]"
    using registered_evidence_keyring_Inr [OF a(1)] by blast
  obtain i ipk where i: "i \<in> set keys" "kr_tenant_id i = tenant_id r" "kr_key_id i = sr_key_id receipt"
    "load (kr_public_key i) = Some ipk"
    "reg = [(sr_key_id receipt, \<lparr>rk_namespace = kr_namespace i, rk_public_key = ipk\<rparr>)]"
    using registered_receipt_keyring_Inr [OF a(3)] by blast
  have sb: "record_signing_bytes r = Inr canonical_bytes" "k' = kr_key_id k"
    using a(2) k(5) by (auto simp: verify_record_signature_bytes_def rbind_eq_Inr of_option_eq_Inr Let_def
        split: if_splits)
  have ns: "kr_namespace i = Issuer"
    using a(4) i(5) by (simp add: verify_ingestion_receipt_def split: if_splits)
  have row: "q_ref row = record_id r" "q_tenant_id row = tenant_id r"
    "parse_timestamp (ir_ingest_time payload) = Inr (q_recorded_at row)"
    "qualification_columns.truncate row = columns"
    using a(6) by (auto simp: qualification_row_of_def rbind_eq_Inr qualification_columns.truncate_def
        split: option.splits sum.splits)
  have ins: "rows' = rows @ [row]" "\<not> refuses_upgrade rows row" "q_qualified_at row < q_revalidate_after row"
    using a(7) by (auto simp: insert_qualification_Inr row_checks_def)
  show ?thesis
    using a(2,4,5,8) k i sb ns row ins
    by (intro exI [of _ row] exI [of _ k] exI [of _ pk] exI [of _ i] exI [of _ ipk] exI [of _ payload]
        exI [of _ columns]) simp
qed

text \<open>
  the revalidation instant: it keeps the offset of the qualification instant, lies in the
  representable years and never before it.
\<close>

theorem revalidation_not_before_qualification:
  assumes "iso_time (str_of (member (body r) ''qualified_at'')) = Some t" and "revalidate_after r = Inr u"
  shows "pt_offset u = pt_offset t \<and> pt_instant t \<le> pt_instant u \<and> representable (pt_local u div 10 ^ 6)"
  using add_iso8601_duration_Inr [OF iso_time_range(1) [OF assms(1)], of "member (body r) ''revalidation_cadence''" u]
    assms by (auto simp: revalidate_after_def pt_instant_def)

section \<open>Witnesses\<close>

definition sample_qualification_record :: evidence_record where
 "sample_qualification_record = withdrawn\<lparr>record_type := str ''QualificationRecord'',
   body := [(KStr (str ''action_family''), PStr (str ''f'')), (KStr (str ''assigned_class''), PStr (str ''C2'')),
     (KStr (str ''class_evidence''), PNone),
     (KStr (str ''confirmation''), PDict [(KStr (str ''capable''), PBool True)]),
     (KStr (str ''destination_system''), PStr (str ''d'')),
     (KStr (str ''enumeration''), PDict [(KStr (str ''capable''), PBool True)]),
     (KStr (str ''identity_isolation''), PDict [(KStr (str ''attribute''), PStr (str ''a'')),
       (KStr (str ''vendor_settable''), PBool False)]),
     (KStr (str ''mutability''), PDict [(KStr (str ''deletion_possible''), PBool False)]),
     (KStr (str ''qualified_at''), PStr (str ''2026-01-31T00:00:00.000+02:00'')),
     (KStr (str ''retention_period''), PStr (str ''P90D'')),
     (KStr (str ''revalidation_cadence''), PStr (str ''P1M'')),
     (KStr (str ''temporal''), PDict [(KStr (str ''measured_settlement_lag_s''), PInt 5)]),
     (KStr (str ''trial''), PDict [])],
   signature := signature_object (str ''k'') (plain_sign 5 (replicate 32 0)) zero_digest\<rparr>"

definition sample_bytes :: bytes where
  "sample_bytes = (case record_signing_bytes sample_qualification_record of Inr b \<Rightarrow> b | Inl _ \<Rightarrow> [])"

lemma sample_qualification_valid:
  "validate_record (record_members sample_qualification_record) = Inr sample_qualification_record"
  by code_simp

lemma sample_qualification_portable: "portable (PDict (record_members sample_qualification_record))"
  by code_simp

lemma sample_qualification_signed:
  "verify_record_signature const_crypto sample_qualification_record [(str ''k'', 5)] = Inr (str ''k'')"
  by code_simp

lemma sample_qualification_bytes:
  "record_signing_bytes sample_qualification_record = Inr sample_bytes" "sample_bytes \<noteq> []"
  by code_simp+

lemma sample_qualification_proof:
  "record_signature_bytes sample_qualification_record = Inr (plain_sign 5 (replicate 32 0))"
  by code_simp

lemma sample_qualification_times:
  "iso_time (str_of (member (body sample_qualification_record) ''qualified_at''))
     = Some \<lparr>pt_local = 1769817600000000, pt_offset = Some 7200\<rparr>"
  "revalidate_after sample_qualification_record
     = Inr \<lparr>pt_local = 1772236800000000, pt_offset = Some 7200\<rparr>"
  "parse_timestamp (ir_ingest_time example_payload) = Inr 1767225600500000"
  by code_simp+

abbreviation sample_columns :: qualification_columns where
  "sample_columns \<equiv> \<lparr>q_action_family = str ''f'', q_destination_system = str ''d'', q_assigned_class = C2,
      q_enumeration_capable = True, q_confirmation_capable = True,
      q_identity_isolation_attribute = Some (str ''a''), q_identity_vendor_settable = False,
      q_authoritative_time_available = False, q_settlement_lag_s = 5, q_source_retention_days = 90,
      q_deletion_traceless_possible = False\<rparr>"

lemma sample_projection: "projection sample_qualification_record = Inr sample_columns"
  by code_simp

lemma sample_recorded:
  obtains row where
    "record_qualification const_crypto example_load example_keys [] sample_qualification_record sample_bytes
       (plain_sign 5 (replicate 32 0)) example_receipt = Inr ([row], record_id sample_qualification_record)"
    "insert_qualification [] row = Inr [row]" "q_triple row = (str ''t'', str ''f'', str ''d'')"
proof -
  obtain w where w: "serialize_record sample_qualification_record = Inr w"
    using sample_qualification_portable serialize_ok_iff [of "PDict (record_members sample_qualification_record)"]
    by (auto simp: serialize_record_def canonicalize_def)
  have f: "tenant_id sample_qualification_record = str ''t''"
    "member (signature sample_qualification_record) ''key_id'' = Some (PStr (str ''k''))"
    "source_time (record_clocks sample_qualification_record) = str ''2026-01-01T00:00:00.000Z''"
    "length (plain_sign 5 (replicate 32 0)) = 64"
    by code_simp+
  have v: "verify_record_signature_bytes const_crypto sample_qualification_record sample_bytes [(str ''k'', 5)] = Inr (str ''k'')"
    by (simp add: verify_record_signature_bytes_own [OF sample_qualification_bytes(1)] sample_qualification_signed)
  have key: "sr_key_id example_receipt = str ''i''" by (simp add: example_receipt_def)
  obtain row where row: "qualification_row_of sample_qualification_record sample_bytes (plain_sign 5 (replicate 32 0))
      example_receipt example_payload sample_columns = Inr row"
    using w by (simp add: qualification_row_of_def sample_qualification_times)
  have ins: "insert_qualification [] row = Inr [row]"
    using row w by (auto simp: qualification_row_of_def sample_qualification_times insert_qualification_def
        refuses_upgrade_def row_checks_def int4_def pt_instant_def sample_qualification_bytes(2) f)
  have triple: "q_triple row = (str ''t'', str ''f'', str ''d'')"
    using row w by (auto simp: qualification_row_of_def sample_qualification_times q_triple_def f)
  show thesis
    by (rule that [OF _ ins triple])
      (simp add: record_qualification_def trust_result_def q_sig_result_def q_receipt_result_def f key v row ins
        example_keyrings sample_qualification_proof sample_projection
        example_receipt_verifies [OF sample_qualification_portable f(3)])
qed

theorem write_guard_covers_read_guard_witness:
  "\<exists>row. stored [row] \<and> qualification_history [row] (str ''t'') (str ''f'') (str ''d'') = [qualification.truncate row]
     \<and> without_backdated_upgrades [qualification.truncate row] = [qualification.truncate row]"
proof -
  obtain row where row: "insert_qualification [] row = Inr [row]" "q_triple row = (str ''t'', str ''f'', str ''d'')"
    using sample_recorded by metis
  have st: "stored [row]" by (rule stored_insert [OF stored_empty row(1)])
  moreover have h: "qualification_history [row] (str ''t'') (str ''f'') (str ''d'') = [qualification.truncate row]"
    using row(2) by (simp add: qualification_history_def)
  ultimately show ?thesis
    using write_guard_covers_read_guard [OF st, of "str ''t''" "str ''f''" "str ''d''"] by (intro exI [of _ row]) (simp add: h)
qed

theorem record_qualification_authentic_witness:
  "\<exists>row k. record_qualification const_crypto example_load example_keys [] sample_qualification_record sample_bytes
       (plain_sign 5 (replicate 32 0)) example_receipt = Inr ([row], record_id sample_qualification_record)
     \<and> k \<in> set example_keys \<and> kr_namespace k = Evidence"
proof -
  obtain row where row: "record_qualification const_crypto example_load example_keys [] sample_qualification_record
      sample_bytes (plain_sign 5 (replicate 32 0)) example_receipt = Inr ([row], record_id sample_qualification_record)"
    by (rule sample_recorded)
  show ?thesis using record_qualification_authentic [OF row] row by blast
qed

theorem revalidation_not_before_qualification_witness:
  "pt_instant \<lparr>pt_local = 1769817600000000, pt_offset = Some 7200\<rparr>
     \<le> pt_instant \<lparr>pt_local = 1772236800000000, pt_offset = Some 7200\<rparr>
   \<and> revalidate_after sample_qualification_record = Inr \<lparr>pt_local = 1772236800000000, pt_offset = Some 7200\<rparr>"
  using revalidation_not_before_qualification [OF sample_qualification_times(1,2)] sample_qualification_times(2)
  by blast

end
