(* ===== verification/Reconciliations.thy ===== *)
theory Reconciliations
  imports Receipts
begin

text \<open>
  \<^verbatim>\<open>services/computation/reconciliation.py\<close>: the classification of every identity of a signed
  population against the customer's evidence and the destination's confirmations, by exact identity.
  Records are validated envelopes; their bodies are read through the accessors below.
\<close>

section \<open>Inputs and results\<close>

datatype reconciliation_status =
    MATCHED
  | UNMATCHED_WITH_EVIDENCE
  | UNMATCHED_WITHOUT_EVIDENCE
  | DUPLICATE
  | AMBIGUOUS
  | OUT_OF_SCOPE

record reconciliation_result =
  rr_population_ref :: pystr
  rr_destination_record_id :: pystr
  rr_status :: reconciliation_status
  rr_action_id :: "pystr option"
  rr_confirmation_record_id :: "pystr option"

datatype reconciliation_error =
    PopulationIntegrity pystr
  | PopulationIdentifierDigestUnsupported pystr
  | ReconciliationInvariant

definition body_text :: "string \<Rightarrow> evidence_record \<Rightarrow> pystr" where
  "body_text n r = str_of (member (body r) n)"

definition is_proposal :: "evidence_record \<Rightarrow> bool" where
  "is_proposal r \<longleftrightarrow> record_type r = str ''ActionProposal''"

definition is_execution_receipt :: "evidence_record \<Rightarrow> bool" where
  "is_execution_receipt r \<longleftrightarrow> record_type r = str ''ExecutionReceipt''"

text \<open>\<open>population.body.record_identifiers\<close>; \<open>None\<close> when the member is absent.\<close>

definition record_identifiers :: "evidence_record \<Rightarrow> pystr list option" where
  "record_identifiers p =
     (case member (body p) ''record_identifiers'' of
        Some (PList xs) \<Rightarrow> Some (map (\<lambda>x. str_of (Some x)) xs)
      | _ \<Rightarrow> None)"

definition population_count :: "evidence_record \<Rightarrow> int" where
  "population_count p = int_of_val (member (body p) ''count'')"

section \<open>The denominator\<close>

definition accepted_identifiers :: "evidence_record \<Rightarrow> reconciliation_error + pystr list" where
  "accepted_identifiers p =
     (case record_identifiers p of
        None \<Rightarrow> Inl (PopulationIdentifierDigestUnsupported (record_id p))
      | Some ids \<Rightarrow>
          if population_count p \<noteq> int (length ids) then Inl (PopulationIntegrity (record_id p))
          else if list_ex (\<lambda>i. i = []) ids then Inl (PopulationIntegrity (record_id p))
          else if card (set ids) \<noteq> length ids then Inl (PopulationIntegrity (record_id p))
          else Inr ids)"

definition same_scope :: "evidence_record \<Rightarrow> evidence_record \<Rightarrow> bool" where
  "same_scope r p \<longleftrightarrow> tenant_id r = tenant_id p \<and> boundary_ref r = boundary_ref p"

section \<open>Indexes\<close>

text \<open>Dictionaries of lists in order of arrival; a missing key reads as the empty list.\<close>

record indexes =
  ix_proposals_by_action :: "(pystr \<times> evidence_record list) list"
  ix_receipts_by_destination :: "(pystr \<times> evidence_record list) list"
  ix_confirmations_by_destination :: "(pystr \<times> evidence_record list) list"
  ix_receipt_destinations_by_action :: "(pystr \<times> evidence_record list) list"

definition scoped_proposals :: "evidence_record \<Rightarrow> evidence_record list \<Rightarrow> evidence_record list" where
  "scoped_proposals p rs = filter (\<lambda>r. same_scope r p \<and> is_proposal r) rs"

definition scoped_receipts :: "evidence_record \<Rightarrow> pystr list \<Rightarrow> evidence_record list \<Rightarrow> evidence_record list" where
  "scoped_receipts p ids rs = filter (\<lambda>r. same_scope r p \<and> is_execution_receipt r
     \<and> body_text ''destination_record_ref'' r \<in> set ids) rs"

definition scoped_confirmations :: "evidence_record \<Rightarrow> pystr list \<Rightarrow> evidence_record list \<Rightarrow> evidence_record list" where
  "scoped_confirmations p ids cs = filter (\<lambda>k. same_scope k p
     \<and> body_text ''destination_record_id'' k \<in> set ids) cs"

text \<open>
  \<^verbatim>\<open>_indexes\<close>.  The destinations of an action are the set of destinations of its receipts, kept here
  with the receipts themselves.
\<close>

definition make_indexes ::
    "evidence_record \<Rightarrow> pystr list \<Rightarrow> evidence_record list \<Rightarrow> evidence_record list \<Rightarrow> indexes" where
  "make_indexes p ids rs cs =
     \<lparr>ix_proposals_by_action = group_by (body_text ''action_id'') (scoped_proposals p rs),
      ix_receipts_by_destination = group_by (body_text ''destination_record_ref'') (scoped_receipts p ids rs),
      ix_confirmations_by_destination = group_by (body_text ''destination_record_id'') (scoped_confirmations p ids cs),
      ix_receipt_destinations_by_action = group_by (body_text ''action_id'') (scoped_receipts p ids rs)\<rparr>"

definition receipt_destinations :: "indexes \<Rightarrow> pystr \<Rightarrow> pystr set" where
  "receipt_destinations ix action =
     body_text ''destination_record_ref'' ` set (dget (ix_receipt_destinations_by_action ix) action)"

section \<open>Duplicates\<close>

text \<open>The identities with exactly one confirmation, of the population's destination system.\<close>

definition single_confirmation :: "indexes \<Rightarrow> pystr \<Rightarrow> pystr \<Rightarrow> bool" where
  "single_confirmation ix system i \<longleftrightarrow>
     length (dget (ix_confirmations_by_destination ix) i) = 1
     \<and> body_text ''destination_system'' (hd (dget (ix_confirmations_by_destination ix) i)) = system"

definition confirmed_digest :: "indexes \<Rightarrow> pystr \<Rightarrow> pystr" where
  "confirmed_digest ix i =
     body_text ''destination_record_digest'' (hd (dget (ix_confirmations_by_destination ix) i))"

definition duplicate_identifiers :: "pystr list \<Rightarrow> indexes \<Rightarrow> pystr \<Rightarrow> pystr list" where
  "duplicate_identifiers ids ix system =
     concat (map snd (filter (\<lambda>(d, is). 1 < length is)
       (group_by (confirmed_digest ix) (filter (single_confirmation ix system) ids))))"

section \<open>The decision matrix\<close>

definition candidate_action_id :: "evidence_record list \<Rightarrow> pystr option" where
  "candidate_action_id receipts = (case receipts of [r] \<Rightarrow> Some (body_text ''action_id'' r) | _ \<Rightarrow> None)"

definition linked_actions :: "indexes \<Rightarrow> pystr \<Rightarrow> pystr list" where
  "linked_actions ix i =
     map (body_text ''action_id'') (dget (ix_receipts_by_destination ix) i)
     @ map (body_text ''action_id'') (dget (ix_confirmations_by_destination ix) i)"

definition outside :: "evidence_record \<Rightarrow> indexes \<Rightarrow> pystr \<Rightarrow> bool" where
  "outside p ix i \<longleftrightarrow>
     list_ex (\<lambda>a. list_ex (\<lambda>q. body_text ''action_family'' q \<noteq> body_text ''action_family'' p)
                    (dget (ix_proposals_by_action ix) a)) (linked_actions ix i)
     \<or> list_ex (\<lambda>k. body_text ''destination_system'' k \<noteq> body_text ''destination_system'' p)
         (dget (ix_confirmations_by_destination ix) i)"

definition ambiguous :: "indexes \<Rightarrow> pystr \<Rightarrow> bool" where
  "ambiguous ix i \<longleftrightarrow>
     1 < length (dget (ix_receipts_by_destination ix) i)
     \<or> 1 < length (dget (ix_confirmations_by_destination ix) i)
     \<or> list_ex (\<lambda>a. 1 < length (dget (ix_proposals_by_action ix) a)) (linked_actions ix i)
     \<or> list_ex (\<lambda>a. 1 < card (receipt_destinations ix a)) (linked_actions ix i)"

definition exactly_matched :: "evidence_record \<Rightarrow> indexes \<Rightarrow> pystr \<Rightarrow> bool" where
  "exactly_matched p ix i \<longleftrightarrow>
     (case (dget (ix_receipts_by_destination ix) i, dget (ix_confirmations_by_destination ix) i) of
        ([receipt], [confirmation]) \<Rightarrow>
          body_text ''action_id'' receipt = body_text ''action_id'' confirmation
          \<and> (case dget (ix_proposals_by_action ix) (body_text ''action_id'' receipt) of
               [proposal] \<Rightarrow> body_text ''action_family'' proposal = body_text ''action_family'' p
             | _ \<Rightarrow> False)
      | _ \<Rightarrow> False)"

definition classify :: "evidence_record \<Rightarrow> pystr \<Rightarrow> indexes \<Rightarrow> pystr list \<Rightarrow> reconciliation_result" where
  "classify p i ix duplicates =
     (let receipts = dget (ix_receipts_by_destination ix) i;
          confirmations = dget (ix_confirmations_by_destination ix) i;
          action_id = candidate_action_id receipts;
          result = (\<lambda>status action confirmation.
            \<lparr>rr_population_ref = record_id p, rr_destination_record_id = i, rr_status = status,
             rr_action_id = action, rr_confirmation_record_id = confirmation\<rparr>)
      in if outside p ix i then result OUT_OF_SCOPE action_id None
         else if ambiguous ix i then result AMBIGUOUS None None
         else if i \<in> set duplicates then result DUPLICATE action_id (Some (record_id (hd confirmations)))
         else if exactly_matched p ix i
         then result MATCHED (Some (body_text ''action_id'' (hd receipts))) (Some (record_id (hd confirmations)))
         else if receipts \<noteq> [] then result UNMATCHED_WITH_EVIDENCE action_id None
         else result UNMATCHED_WITHOUT_EVIDENCE None None)"

definition reconcile ::
    "evidence_record \<Rightarrow> evidence_record list \<Rightarrow> evidence_record list
     \<Rightarrow> reconciliation_error + reconciliation_result list" where
  "reconcile p evidence_records confirmations =
     rbind (accepted_identifiers p) (\<lambda>ids.
     let ix = make_indexes p ids evidence_records confirmations;
         duplicates = duplicate_identifiers ids ix (body_text ''destination_system'' p);
         results = map (\<lambda>i. classify p i ix duplicates) ids
     in if int (length results) \<noteq> population_count p then Inl ReconciliationInvariant else Inr results)"

section \<open>Membership in the indexes\<close>

lemma index_simps:
  "dget (ix_proposals_by_action (make_indexes p ids rs cs)) a
     = filter (\<lambda>r. body_text ''action_id'' r = a) (scoped_proposals p rs)"
  "dget (ix_receipts_by_destination (make_indexes p ids rs cs)) i
     = filter (\<lambda>r. body_text ''destination_record_ref'' r = i) (scoped_receipts p ids rs)"
  "dget (ix_confirmations_by_destination (make_indexes p ids rs cs)) i
     = filter (\<lambda>k. body_text ''destination_record_id'' k = i) (scoped_confirmations p ids cs)"
  "dget (ix_receipt_destinations_by_action (make_indexes p ids rs cs)) a
     = filter (\<lambda>r. body_text ''action_id'' r = a) (scoped_receipts p ids rs)"
  by (simp_all add: make_indexes_def)

lemma duplicate_mem:
  "i \<in> set (duplicate_identifiers ids ix system) \<longleftrightarrow>
     i \<in> set ids \<and> single_confirmation ix system i
     \<and> 1 < length (filter (\<lambda>j. confirmed_digest ix j = confirmed_digest ix i)
                     (filter (single_confirmation ix system) ids))"
  (is "?l \<longleftrightarrow> ?r")
proof
  let ?s = "filter (single_confirmation ix system) ids"
  assume ?l
  then obtain d js where g: "(d, js) \<in> set (group_by (confirmed_digest ix) ?s)" "1 < length js" "i \<in> set js"
    by (auto simp: duplicate_identifiers_def)
  have js: "js = filter (\<lambda>x. confirmed_digest ix x = d) ?s" by (rule group_by_mem [OF g(1)])
  then have "d = confirmed_digest ix i" "i \<in> set ?s" using g(3) by auto
  then show ?r using js g(2) by auto
next
  let ?s = "filter (single_confirmation ix system) ids" and ?d = "confirmed_digest ix i"
  assume r: ?r
  then have "?d \<in> fst ` set (group_by (confirmed_digest ix) ?s)" by (simp add: keys_group_by)
  then obtain js where js: "(?d, js) \<in> set (group_by (confirmed_digest ix) ?s)" by force
  have "js = filter (\<lambda>x. confirmed_digest ix x = ?d) ?s" by (rule group_by_mem [OF js])
  then show ?l using r js by (force simp: duplicate_identifiers_def)
qed

lemma accepted_identifiers_Inr:
  "accepted_identifiers p = Inr ids \<longleftrightarrow>
     record_identifiers p = Some ids \<and> population_count p = int (length ids) \<and> [] \<notin> set ids \<and> distinct ids"
  by (auto simp: accepted_identifiers_def list_ex_iff card_distinct distinct_card split: option.splits)

lemma classify_fields:
  "rr_destination_record_id (classify p i ix dups) = i"
  "rr_population_ref (classify p i ix dups) = record_id p"
  by (simp_all add: classify_def Let_def)

lemma reconcile_Inr:
  "reconcile p rs cs = Inr results \<longleftrightarrow>
     (\<exists>ids. accepted_identifiers p = Inr ids
       \<and> results = map (\<lambda>i. classify p i (make_indexes p ids rs cs)
           (duplicate_identifiers ids (make_indexes p ids rs cs) (body_text ''destination_system'' p))) ids)"
  by (auto simp: reconcile_def rbind_eq_Inr Let_def accepted_identifiers_Inr)

text \<open>A list with one element, seen through its length or through a pattern.\<close>

lemma single_list: "length xs = Suc 0 \<longleftrightarrow> (\<exists>x. xs = [x])"
  by (cases xs) auto

lemma exactly_matched_iff:
  "exactly_matched p ix i \<longleftrightarrow>
     (\<exists>receipt confirmation proposal.
        dget (ix_receipts_by_destination ix) i = [receipt]
        \<and> dget (ix_confirmations_by_destination ix) i = [confirmation]
        \<and> body_text ''action_id'' receipt = body_text ''action_id'' confirmation
        \<and> dget (ix_proposals_by_action ix) (body_text ''action_id'' receipt) = [proposal]
        \<and> body_text ''action_family'' proposal = body_text ''action_family'' p)"
  by (auto simp: exactly_matched_def split: list.splits)

section \<open>Independence of arrival order\<close>

lemma mset_single: "mset xs = mset ys \<Longrightarrow> length xs = Suc 0 \<Longrightarrow> xs = ys"
  by (auto simp: single_list)

lemma same_mset_filter: "mset xs = mset ys \<Longrightarrow> mset (filter P xs) = mset (filter P ys)"
  by simp

definition same_indexes :: "indexes \<Rightarrow> indexes \<Rightarrow> bool" where
  "same_indexes a b \<longleftrightarrow>
     (\<forall>k. mset (dget (ix_proposals_by_action a) k) = mset (dget (ix_proposals_by_action b) k)
        \<and> mset (dget (ix_receipts_by_destination a) k) = mset (dget (ix_receipts_by_destination b) k)
        \<and> mset (dget (ix_confirmations_by_destination a) k) = mset (dget (ix_confirmations_by_destination b) k)
        \<and> mset (dget (ix_receipt_destinations_by_action a) k) = mset (dget (ix_receipt_destinations_by_action b) k))"

lemma make_indexes_permuted:
  assumes "mset rs = mset rs'" "mset cs = mset cs'"
  shows "same_indexes (make_indexes p ids rs cs) (make_indexes p ids rs' cs')"
  using assms by (simp add: same_indexes_def index_simps scoped_proposals_def scoped_receipts_def
      scoped_confirmations_def)

lemma same_indexesD:
  assumes "same_indexes a b"
  shows "set (dget (ix_proposals_by_action a) k) = set (dget (ix_proposals_by_action b) k)"
    "set (dget (ix_receipts_by_destination a) k) = set (dget (ix_receipts_by_destination b) k)"
    "set (dget (ix_confirmations_by_destination a) k) = set (dget (ix_confirmations_by_destination b) k)"
    "set (dget (ix_receipt_destinations_by_action a) k) = set (dget (ix_receipt_destinations_by_action b) k)"
    "length (dget (ix_proposals_by_action a) k) = length (dget (ix_proposals_by_action b) k)"
    "length (dget (ix_receipts_by_destination a) k) = length (dget (ix_receipts_by_destination b) k)"
    "length (dget (ix_confirmations_by_destination a) k) = length (dget (ix_confirmations_by_destination b) k)"
    "dget (ix_proposals_by_action a) k = [x] \<longleftrightarrow> dget (ix_proposals_by_action b) k = [x]"
    "dget (ix_receipts_by_destination a) k = [x] \<longleftrightarrow> dget (ix_receipts_by_destination b) k = [x]"
    "dget (ix_confirmations_by_destination a) k = [x] \<longleftrightarrow> dget (ix_confirmations_by_destination b) k = [x]"
  using assms unfolding same_indexes_def
  by (metis mset_eq_setD mset_eq_length mset_single_iff_right mset_single_iff mset.simps)+

lemma candidate_action_id_eq:
  "candidate_action_id rs = Some a \<longleftrightarrow> (\<exists>r. rs = [r] \<and> a = body_text ''action_id'' r)"
  by (auto simp: candidate_action_id_def split: list.splits)

lemma same_indexes_candidate:
  assumes "same_indexes a b"
  shows "candidate_action_id (dget (ix_receipts_by_destination a) k)
    = candidate_action_id (dget (ix_receipts_by_destination b) k)"
proof -
  have "candidate_action_id (dget (ix_receipts_by_destination a) k) = Some x
      \<longleftrightarrow> candidate_action_id (dget (ix_receipts_by_destination b) k) = Some x" for x
    using same_indexesD(9) [OF assms] by (simp add: candidate_action_id_eq)
  then show ?thesis by (metis option.exhaust)
qed

lemma same_indexes_outside: "same_indexes a b \<Longrightarrow> outside p a i = outside p b i"
  by (simp add: outside_def linked_actions_def list_ex_iff same_indexesD(1-3))

lemma same_indexes_ambiguous: "same_indexes a b \<Longrightarrow> ambiguous a i = ambiguous b i"
  by (simp add: ambiguous_def linked_actions_def list_ex_iff same_indexesD(2-7) receipt_destinations_def)

lemma same_indexes_matched: "same_indexes a b \<Longrightarrow> exactly_matched p a i = exactly_matched p b i"
  by (simp add: exactly_matched_iff same_indexesD(8-10))

lemma same_indexes_single:
  assumes "same_indexes a b"
  shows "length (dget (ix_confirmations_by_destination a) i) = Suc 0 \<Longrightarrow>
      dget (ix_confirmations_by_destination a) i = dget (ix_confirmations_by_destination b) i"
    "single_confirmation a system i = single_confirmation b system i"
proof -
  show eq: "dget (ix_confirmations_by_destination a) i = dget (ix_confirmations_by_destination b) i"
    if "length (dget (ix_confirmations_by_destination a) i) = Suc 0"
    using that same_indexesD(10) [OF assms] by (metis single_list)
  show "single_confirmation a system i = single_confirmation b system i"
    using eq same_indexesD(7) [OF assms, of i] by (auto simp: single_confirmation_def)
qed

lemma same_indexes_duplicates:
  assumes "same_indexes a b"
  shows "set (duplicate_identifiers ids a system) = set (duplicate_identifiers ids b system)"
proof -
  have single: "single_confirmation a system = single_confirmation b system"
    using same_indexes_single(2) [OF assms] by blast
  have digest: "confirmed_digest a i = confirmed_digest b i" if "single_confirmation b system i" for i
    using same_indexes_single(1) [OF assms, of i] that
    by (simp add: single_confirmation_def confirmed_digest_def flip: single)
  have "filter (\<lambda>j. confirmed_digest a j = confirmed_digest a i) (filter (single_confirmation b system) ids)
      = filter (\<lambda>j. confirmed_digest b j = confirmed_digest b i) (filter (single_confirmation b system) ids)"
    if "single_confirmation b system i" for i
    using that digest by (intro filter_cong) auto
  then show ?thesis by (auto simp: duplicate_mem single)
qed

lemma classify_same:
  assumes "same_indexes a b" "set dups = set dups'"
    and "i \<in> set dups \<Longrightarrow> length (dget (ix_confirmations_by_destination a) i) = Suc 0"
  shows "classify p i a dups = classify p i b dups'"
proof -
  have "dget (ix_confirmations_by_destination a) i = dget (ix_confirmations_by_destination b) i
      \<and> dget (ix_receipts_by_destination a) i = dget (ix_receipts_by_destination b) i"
    if "exactly_matched p a i"
    using that same_indexesD(9,10) [OF assms(1)] unfolding exactly_matched_iff by metis
  moreover have "dget (ix_confirmations_by_destination a) i = dget (ix_confirmations_by_destination b) i"
    if "i \<in> set dups'" using assms that same_indexes_single(1) [OF assms(1)] by blast
  moreover have "(dget (ix_receipts_by_destination a) i = []) = (dget (ix_receipts_by_destination b) i = [])"
    using same_indexesD(6) [OF assms(1), of i] by (metis length_0_conv)
  ultimately show ?thesis
    unfolding classify_def Let_def
    by (simp add: assms(2) same_indexes_outside [OF assms(1)] same_indexes_ambiguous [OF assms(1)]
        same_indexes_matched [OF assms(1)] same_indexes_candidate [OF assms(1)])
qed

lemma one_less_card:
  assumes "finite A" "a \<in> A"
  shows "1 < card A \<longleftrightarrow> A \<noteq> {a}"
proof
  assume "A \<noteq> {a}"
  then obtain b where "b \<in> A" "b \<noteq> a" using assms(2) by blast
  then have "card {a, b} \<le> card A" using assms by (intro card_mono) auto
  then show "1 < card A" using \<open>b \<noteq> a\<close> by simp
qed auto

text \<open>The branch of a match, over the raw inputs.\<close>

lemma classify_matched:
  "rr_status (classify p i (make_indexes p ids rs cs) dups) = MATCHED \<longleftrightarrow>
        (\<exists>receipt confirmation proposal.
           filter (\<lambda>r. body_text ''destination_record_ref'' r = i) (scoped_receipts p ids rs) = [receipt]
           \<and> filter (\<lambda>k. body_text ''destination_record_id'' k = i) (scoped_confirmations p ids cs) = [confirmation]
           \<and> body_text ''destination_system'' confirmation = body_text ''destination_system'' p
           \<and> body_text ''action_id'' receipt = body_text ''action_id'' confirmation
           \<and> filter (\<lambda>q. body_text ''action_id'' q = body_text ''action_id'' receipt) (scoped_proposals p rs) = [proposal]
           \<and> body_text ''action_family'' proposal = body_text ''action_family'' p
           \<and> (\<forall>r \<in> set (scoped_receipts p ids rs). body_text ''action_id'' r = body_text ''action_id'' receipt
                \<longrightarrow> body_text ''destination_record_ref'' r = i)
           \<and> i \<notin> set dups
           \<and> rr_action_id (classify p i (make_indexes p ids rs cs) dups) = Some (body_text ''action_id'' receipt)
           \<and> rr_confirmation_record_id (classify p i (make_indexes p ids rs cs) dups) = Some (record_id confirmation))"
  (is "?l \<longleftrightarrow> ?r")
proof -
  let ?ix = "make_indexes p ids rs cs"
  have status: "?l \<longleftrightarrow> \<not> outside p ?ix i \<and> \<not> ambiguous ?ix i \<and> i \<notin> set dups \<and> exactly_matched p ?ix i"
    by (simp add: classify_def Let_def)
  have core: "\<not> outside p ?ix i \<and> \<not> ambiguous ?ix i \<longleftrightarrow>
      body_text ''destination_system'' confirmation = body_text ''destination_system'' p
      \<and> (\<forall>r \<in> set (scoped_receipts p ids rs). body_text ''action_id'' r = body_text ''action_id'' receipt
           \<longrightarrow> body_text ''destination_record_ref'' r = i)"
    if m: "filter (\<lambda>r. body_text ''destination_record_ref'' r = i) (scoped_receipts p ids rs) = [receipt]"
      "filter (\<lambda>k. body_text ''destination_record_id'' k = i) (scoped_confirmations p ids cs) = [confirmation]"
      "body_text ''action_id'' receipt = body_text ''action_id'' confirmation"
      "filter (\<lambda>q. body_text ''action_id'' q = body_text ''action_id'' receipt) (scoped_proposals p rs) = [proposal]"
      "body_text ''action_family'' proposal = body_text ''action_family'' p" for receipt confirmation proposal
  proof -
    let ?R = "filter (\<lambda>r. body_text ''action_id'' r = body_text ''action_id'' receipt) (scoped_receipts p ids rs)"
    have mem: "receipt \<in> set ?R" "body_text ''destination_record_ref'' receipt = i"
      using m(1) by (auto simp: filter_eq_Cons_iff dest: arg_cong [where f = set])
    have dests: "1 < card (receipt_destinations ?ix (body_text ''action_id'' receipt))
      \<longleftrightarrow> \<not> (\<forall>r \<in> set ?R. body_text ''destination_record_ref'' r = i)"
    proof -
      let ?D = "receipt_destinations ?ix (body_text ''action_id'' receipt)"
      have D: "?D = body_text ''destination_record_ref'' ` set ?R" by (simp add: receipt_destinations_def index_simps)
      have "i \<in> ?D" using mem D by force
      then have "1 < card ?D \<longleftrightarrow> ?D \<noteq> {i}"
        using D by (intro one_less_card) auto
      then show ?thesis using D \<open>i \<in> ?D\<close> by auto
    qed
    show ?thesis
      using m dests by (auto simp: outside_def ambiguous_def linked_actions_def index_simps)
  qed
  show ?thesis
  proof
    assume ?l
    then have st: "\<not> outside p ?ix i" "\<not> ambiguous ?ix i" "i \<notin> set dups" "exactly_matched p ?ix i"
      by (auto simp: status)
    then obtain receipt confirmation proposal where m:
      "filter (\<lambda>r. body_text ''destination_record_ref'' r = i) (scoped_receipts p ids rs) = [receipt]"
      "filter (\<lambda>k. body_text ''destination_record_id'' k = i) (scoped_confirmations p ids cs) = [confirmation]"
      "body_text ''action_id'' receipt = body_text ''action_id'' confirmation"
      "filter (\<lambda>q. body_text ''action_id'' q = body_text ''action_id'' receipt) (scoped_proposals p rs) = [proposal]"
      "body_text ''action_family'' proposal = body_text ''action_family'' p"
      by (auto simp: exactly_matched_iff index_simps)
    have "rr_action_id (classify p i ?ix dups) = Some (body_text ''action_id'' receipt)"
      "rr_confirmation_record_id (classify p i ?ix dups) = Some (record_id confirmation)"
      using st m(1,2) by (simp_all add: classify_def Let_def index_simps)
    with core [OF m] st m show ?r by blast
  next
    assume ?r
    then show ?l unfolding status using core by (auto simp: exactly_matched_iff index_simps)
  qed
qed

section \<open>Properties\<close>

text \<open>
  C10: classification does not depend on the order in which evidence and confirmations are supplied:
  permuting either gives the same results in the same order, and the same refusals.
\<close>

theorem reconcile_order_irrelevant:
  assumes "mset rs = mset rs'" and "mset cs = mset cs'"
  shows "reconcile p rs cs = reconcile p rs' cs'"
proof -
  have "classify p i (make_indexes p ids rs cs)
        (duplicate_identifiers ids (make_indexes p ids rs cs) (body_text ''destination_system'' p))
      = classify p i (make_indexes p ids rs' cs')
        (duplicate_identifiers ids (make_indexes p ids rs' cs') (body_text ''destination_system'' p))" for i ids
    by (rule classify_same [OF make_indexes_permuted [OF assms] same_indexes_duplicates
          [OF make_indexes_permuted [OF assms]]])
      (simp add: duplicate_mem single_confirmation_def)
  then show ?thesis by (simp add: reconcile_def Let_def cong: if_cong)
qed

text \<open>
  C9: what a match means.  Every identity of the population gets exactly one result, in the signed
  order, and an identity is matched if and only if in the scope of the population it has exactly one
  execution receipt and exactly one confirmation, from the population's destination system, that name
  the same action; that action has exactly one proposal, of the population's action family, and no
  receipt for any other identity; and no other singly confirmed identity carries the same destination
  digest.
\<close>

theorem reconcile_matched_iff:
  assumes "reconcile p rs cs = Inr results"
  shows "\<exists>ids. record_identifiers p = Some ids \<and> distinct ids
    \<and> map rr_destination_record_id results = ids
    \<and> (\<forall>x \<in> set results. rr_status x = MATCHED \<longleftrightarrow>
        (\<exists>receipt confirmation proposal.
           filter (\<lambda>r. body_text ''destination_record_ref'' r = rr_destination_record_id x) (scoped_receipts p ids rs) = [receipt]
           \<and> filter (\<lambda>k. body_text ''destination_record_id'' k = rr_destination_record_id x) (scoped_confirmations p ids cs) = [confirmation]
           \<and> body_text ''destination_system'' confirmation = body_text ''destination_system'' p
           \<and> body_text ''action_id'' receipt = body_text ''action_id'' confirmation
           \<and> filter (\<lambda>q. body_text ''action_id'' q = body_text ''action_id'' receipt) (scoped_proposals p rs) = [proposal]
           \<and> body_text ''action_family'' proposal = body_text ''action_family'' p
           \<and> (\<forall>r \<in> set (scoped_receipts p ids rs). body_text ''action_id'' r = body_text ''action_id'' receipt
                \<longrightarrow> body_text ''destination_record_ref'' r = rr_destination_record_id x)
           \<and> rr_destination_record_id x \<notin> set (duplicate_identifiers ids (make_indexes p ids rs cs)
                (body_text ''destination_system'' p))
           \<and> rr_action_id x = Some (body_text ''action_id'' receipt)
           \<and> rr_confirmation_record_id x = Some (record_id confirmation)))"
proof -
  obtain ids where ids: "accepted_identifiers p = Inr ids"
    and res: "results = map (\<lambda>i. classify p i (make_indexes p ids rs cs)
           (duplicate_identifiers ids (make_indexes p ids rs cs) (body_text ''destination_system'' p))) ids"
    using assms by (auto simp: reconcile_Inr)
  let ?ix = "make_indexes p ids rs cs"
  let ?dups = "duplicate_identifiers ids ?ix (body_text ''destination_system'' p)"
  have "rr_status (classify p i ?ix ?dups) = MATCHED \<longleftrightarrow>
        (\<exists>receipt confirmation proposal.
           filter (\<lambda>r. body_text ''destination_record_ref'' r = i) (scoped_receipts p ids rs) = [receipt]
           \<and> filter (\<lambda>k. body_text ''destination_record_id'' k = i) (scoped_confirmations p ids cs) = [confirmation]
           \<and> body_text ''destination_system'' confirmation = body_text ''destination_system'' p
           \<and> body_text ''action_id'' receipt = body_text ''action_id'' confirmation
           \<and> filter (\<lambda>q. body_text ''action_id'' q = body_text ''action_id'' receipt) (scoped_proposals p rs) = [proposal]
           \<and> body_text ''action_family'' proposal = body_text ''action_family'' p
           \<and> (\<forall>r \<in> set (scoped_receipts p ids rs). body_text ''action_id'' r = body_text ''action_id'' receipt
                \<longrightarrow> body_text ''destination_record_ref'' r = i)
           \<and> i \<notin> set ?dups
           \<and> rr_action_id (classify p i ?ix ?dups) = Some (body_text ''action_id'' receipt)
           \<and> rr_confirmation_record_id (classify p i ?ix ?dups) = Some (record_id confirmation))" for i
    by (rule classify_matched)
  then show ?thesis
    using ids by (intro exI [of _ ids]) (auto simp: accepted_identifiers_Inr res classify_fields o_def)
qed

section \<open>Witnesses\<close>

definition with_body :: "string \<Rightarrow> string \<Rightarrow> (string \<times> string) list \<Rightarrow> evidence_record" where
  "with_body rid type members = withdrawn\<lparr>record_id := str rid, record_type := str type,
     body := map (\<lambda>(n, v). (KStr (str n), PStr (str v))) members\<rparr>"

definition sample_population :: evidence_record where
  "sample_population = (with_body ''p'' ''PopulationRecord''
     [(''action_family'', ''f''), (''destination_system'', ''d''),
      (''window_start'', ''2026-01-01T00:00:00.000Z''), (''window_end'', ''2026-02-01T00:00:00.000Z'')])
     \<lparr>body := body (with_body ''p'' ''PopulationRecord''
        [(''action_family'', ''f''), (''destination_system'', ''d''),
         (''window_start'', ''2026-01-01T00:00:00.000Z''), (''window_end'', ''2026-02-01T00:00:00.000Z'')])
        @ [(KStr (str ''count''), PInt 2), (KStr (str ''pagination_complete''), PBool True),
           (KStr (str ''result_cap_hit''), PBool False),
           (KStr (str ''record_identifiers''), PList [PStr (str ''x''), PStr (str ''y'')])]\<rparr>"

definition sample_evidence :: "evidence_record list" where
  "sample_evidence =
     [with_body ''1'' ''ActionProposal'' [(''action_id'', ''a''), (''action_family'', ''f'')],
      with_body ''2'' ''ExecutionReceipt'' [(''action_id'', ''a''), (''destination_record_ref'', ''x'')]]"

definition sample_confirmation :: evidence_record where
  "sample_confirmation = with_body ''3'' ''ExternalConfirmation''
     [(''action_id'', ''a''), (''destination_record_id'', ''x''), (''destination_system'', ''d''),
      (''destination_record_digest'', ''h''), (''reconciliation_status'', ''matched''),
      (''authoritative_timestamp'', ''2026-01-02T00:00:00.000Z'')]"

definition sample_results :: "reconciliation_result list" where
  "sample_results =
     [\<lparr>rr_population_ref = str ''p'', rr_destination_record_id = str ''x'', rr_status = MATCHED,
       rr_action_id = Some (str ''a''), rr_confirmation_record_id = Some (str ''3'')\<rparr>,
      \<lparr>rr_population_ref = str ''p'', rr_destination_record_id = str ''y'',
       rr_status = UNMATCHED_WITHOUT_EVIDENCE, rr_action_id = None, rr_confirmation_record_id = None\<rparr>]"

lemma sample_reconciled: "reconcile sample_population sample_evidence [sample_confirmation] = Inr sample_results"
  by code_simp

theorem reconcile_order_irrelevant_witness:
  "reconcile sample_population (rev sample_evidence) [sample_confirmation] = Inr sample_results"
  using reconcile_order_irrelevant [of "rev sample_evidence" sample_evidence "[sample_confirmation]" "[sample_confirmation]"]
  by (simp add: sample_reconciled)

theorem reconcile_matched_iff_witness:
  "map rr_destination_record_id sample_results = [str ''x'', str ''y'']
     \<and> record_identifiers sample_population = Some [str ''x'', str ''y'']"
proof -
  obtain ids where "record_identifiers sample_population = Some ids"
    "map rr_destination_record_id sample_results = ids"
    using reconcile_matched_iff [OF sample_reconciled] by blast
  then show ?thesis by (simp add: sample_results_def)
qed

end
