(* ===== verification/Coverages.thy ===== *)
theory Coverages
  imports Reconciliations Durations
begin

text \<open>
  \<^verbatim>\<open>services/computation/coverage.py\<close>: the coverage of a window, computed from the reconciliation of
  a population, the history of its denominator class, evidence of single actions and gaps.
  Instants are microseconds since the epoch.
\<close>

section \<open>Intervals\<close>

datatype coverage_error =
    CoverageInputError
  | CvValueError
  | CvQualification qualification_error
  | CvReceipt receipt_error

record time_interval =
  ti_start :: int
  ti_end :: int

definition time_interval :: "int \<Rightarrow> int \<Rightarrow> coverage_error + time_interval" where
  "time_interval a b = (if b \<le> a then Inl CoverageInputError else Inr \<lparr>ti_start = a, ti_end = b\<rparr>)"

definition contains :: "time_interval \<Rightarrow> int \<Rightarrow> bool" where
  "contains i t \<longleftrightarrow> ti_start i \<le> t \<and> t < ti_end i"

definition encloses :: "time_interval \<Rightarrow> time_interval \<Rightarrow> bool" where
  "encloses w i \<longleftrightarrow> ti_start w \<le> ti_start i \<and> ti_end i \<le> ti_end w"

section \<open>Inputs\<close>

record coverage_boundary =
  cb_boundary_ref :: pystr
  cb_window :: time_interval
  cb_clock_skew_threshold_ms :: int

definition coverage_boundary :: "pystr \<Rightarrow> time_interval \<Rightarrow> int \<Rightarrow> coverage_error + coverage_boundary" where
  "coverage_boundary ref window threshold =
     (if ref = [] \<or> threshold < 0 then Inl CoverageInputError
      else Inr \<lparr>cb_boundary_ref = ref, cb_window = window, cb_clock_skew_threshold_ms = threshold\<rparr>)"

text \<open>
  Evidence of one action.  The receipt, the record it binds and the keys to verify it come together
  or not at all.
\<close>

record 'pk action_evidence =
  ae_destination_record_id :: pystr
  ae_confirmation :: "evidence_record option"
  ae_receipt :: "(signed_receipt \<times> evidence_record \<times> 'pk registry) option"
  ae_affected_interval :: "time_interval option"

datatype gap_cause =
    COLLECTOR_UNREACHABLE | FAIL_OPEN | SEQUENCE_BREAK | DENOMINATOR_UNAVAILABLE | CLOCK_SKEW | KEY_DISCONTINUITY

record gap_evidence =
  ge_interval :: time_interval
  ge_cause :: gap_cause
  ge_affected_scope :: "pystr list"
  ge_detection_source :: pystr
  ge_actions_during_gap :: "int option"
  ge_evidence_record_ref :: "pystr option"

definition gap_evidence_ok :: "gap_evidence \<Rightarrow> bool" where
  "gap_evidence_ok g \<longleftrightarrow>
     ge_affected_scope g \<noteq> [] \<and> \<not> list_ex (\<lambda>s. s = []) (ge_affected_scope g) \<and> ge_detection_source g \<noteq> []
     \<and> (case ge_actions_during_gap g of None \<Rightarrow> True | Some n \<Rightarrow> 0 \<le> n)"

text \<open>Values whose constructors have accepted them.\<close>

definition interval_ok :: "time_interval \<Rightarrow> bool" where
  "interval_ok i \<longleftrightarrow> ti_start i < ti_end i"

datatype gap_action_classification = GA_UNKNOWN | GA_RECONCILED

record gap_action =
  ga_destination_record_id :: pystr
  ga_classification :: gap_action_classification

datatype ratio_state =
    AVAILABLE
  | DENOMINATOR_CLASS_WITHHOLDS_RATIO
  | TRUNCATED_POPULATION
  | POPULATION_NOT_ENUMERABLE
  | DIGEST_ONLY_POPULATION
  | EMPTY_POPULATION
  | DENOMINATOR_EMPTY_AFTER_EXCLUSIONS

section \<open>Counts\<close>

record coverage_counts =
  cc_matched :: int
  cc_unmatched_with_evidence :: int
  cc_unmatched_without_evidence :: int
  cc_duplicate :: int
  cc_ambiguous :: int
  cc_out_of_scope :: int

fun count_result :: "reconciliation_status \<Rightarrow> coverage_counts \<Rightarrow> coverage_counts" where
  "count_result MATCHED k = k\<lparr>cc_matched := cc_matched k + 1\<rparr>"
| "count_result UNMATCHED_WITH_EVIDENCE k = k\<lparr>cc_unmatched_with_evidence := cc_unmatched_with_evidence k + 1\<rparr>"
| "count_result UNMATCHED_WITHOUT_EVIDENCE k =
     k\<lparr>cc_unmatched_without_evidence := cc_unmatched_without_evidence k + 1\<rparr>"
| "count_result DUPLICATE k = k\<lparr>cc_duplicate := cc_duplicate k + 1\<rparr>"
| "count_result AMBIGUOUS k = k\<lparr>cc_ambiguous := cc_ambiguous k + 1\<rparr>"
| "count_result OUT_OF_SCOPE k = k\<lparr>cc_out_of_scope := cc_out_of_scope k + 1\<rparr>"

fun count_results :: "coverage_counts \<Rightarrow> reconciliation_result list \<Rightarrow> coverage_counts" where
  "count_results k [] = k"
| "count_results k (r # rs) = count_results (count_result (rr_status r) k) rs"

definition classification_counts :: "reconciliation_result list \<Rightarrow> coverage_counts" where
  "classification_counts results =
     count_results \<lparr>cc_matched = 0, cc_unmatched_with_evidence = 0, cc_unmatched_without_evidence = 0,
       cc_duplicate = 0, cc_ambiguous = 0, cc_out_of_scope = 0\<rparr> results"

section \<open>Gaps and their complement\<close>

definition gap_order :: "time_interval \<Rightarrow> int list" where
  "gap_order i = [ti_start i, ti_end i]"

text \<open>The loop of \<^verbatim>\<open>_normalise_gap_intervals\<close>; \<open>merged\<close> holds the result so far in reverse.\<close>

fun merge_gaps :: "time_interval \<Rightarrow> time_interval list \<Rightarrow> time_interval list \<Rightarrow> coverage_error + time_interval list" where
  "merge_gaps w merged [] = Inr (rev merged)"
| "merge_gaps w merged (i # is) =
     (if \<not> encloses w i then Inl CoverageInputError
      else case merged of
             [] \<Rightarrow> merge_gaps w [i] is
           | previous # rest \<Rightarrow>
               if ti_end previous < ti_start i then merge_gaps w (i # previous # rest) is
               else merge_gaps w (\<lparr>ti_start = ti_start previous, ti_end = max (ti_end previous) (ti_end i)\<rparr> # rest) is)"

definition normalise_gap_intervals ::
    "time_interval \<Rightarrow> gap_evidence list \<Rightarrow> coverage_error + time_interval list" where
  "normalise_gap_intervals w gaps = merge_gaps w [] (sort_key gap_order (map ge_interval gaps))"

fun covered_from :: "int \<Rightarrow> int \<Rightarrow> time_interval list \<Rightarrow> time_interval list" where
  "covered_from cursor finish [] = (if cursor < finish then [\<lparr>ti_start = cursor, ti_end = finish\<rparr>] else [])"
| "covered_from cursor finish (g # gs) =
     (if cursor < ti_start g then [\<lparr>ti_start = cursor, ti_end = ti_start g\<rparr>] else [])
     @ covered_from (ti_end g) finish gs"

definition covered_complement :: "time_interval \<Rightarrow> time_interval list \<Rightarrow> time_interval list" where
  "covered_complement w gaps = covered_from (ti_start w) (ti_end w) gaps"

section \<open>Scope and results\<close>

definition cv_time :: "pystr \<Rightarrow> coverage_error + int" where
  "cv_time s = (case iso_time s of None \<Rightarrow> Inl CvValueError | Some t \<Rightarrow> Inr (pt_instant t))"

definition cv_qualification :: "qualification_error + 'a \<Rightarrow> coverage_error + 'a" where
  "cv_qualification m = (case m of Inl e \<Rightarrow> Inl (CvQualification e) | Inr x \<Rightarrow> Inr x)"

definition validate_scope ::
    "evidence_record \<Rightarrow> coverage_boundary \<Rightarrow> qualification list
     \<Rightarrow> coverage_error + time_interval \<times> denominator_class \<times> bool" where
  "validate_scope p boundary history =
     rbind (cv_time (body_text ''window_start'' p)) (\<lambda>start.
     rbind (cv_time (body_text ''window_end'' p)) (\<lambda>finish.
     rbind (time_interval start finish) (\<lambda>window.
     if boundary_ref p \<noteq> cb_boundary_ref boundary then Inl CoverageInputError
     else if window \<noteq> cb_window boundary then Inl CoverageInputError
     else if history = [] then Inl CoverageInputError
     else if list_ex (\<lambda>q. tenant_id p \<noteq> q_tenant_id q \<or> body_text ''action_family'' p \<noteq> q_action_family q
                \<or> body_text ''destination_system'' p \<noteq> q_destination_system q) history
     then Inl CoverageInputError
     else
     rbind (cv_qualification (class_in_force history (ti_start window) (ti_end window))) (\<lambda>effective_class.
     rbind (cv_qualification (governing_qualification history (ti_start window))) (\<lambda>baseline.
     let relevant = baseline # filter (\<lambda>q. contains window (q_qualified_at q)) history;
         enumeration_capable = list_all q_enumeration_capable relevant
     in if emits_ratio effective_class \<and> \<not> enumeration_capable then Inl CoverageInputError
        else Inr (window, effective_class, enumeration_capable))))))"

definition validate_results :: "evidence_record \<Rightarrow> reconciliation_result list \<Rightarrow> coverage_error + bool" where
  "validate_results p results =
     (let result_ids = map rr_destination_record_id results in
      if list_ex (\<lambda>r. rr_population_ref r \<noteq> record_id p) results then Inl CoverageInputError
      else if length result_ids \<noteq> card (set result_ids) then Inl CoverageInputError
      else case record_identifiers p of
             None \<Rightarrow> if results \<noteq> [] then Inl CoverageInputError else Inr False
           | Some ids \<Rightarrow>
               if population_count p \<noteq> int (length ids) then Inl CoverageInputError
               else if length ids \<noteq> card (set ids) then Inl CoverageInputError
               else if set result_ids \<noteq> set ids then Inl CoverageInputError
               else Inr True)"

definition body_flag :: "string \<Rightarrow> evidence_record \<Rightarrow> bool" where
  "body_flag n r \<longleftrightarrow> member (body r) n = Some (PBool True)"

definition ratio_state_of ::
    "evidence_record \<Rightarrow> denominator_class \<Rightarrow> bool \<Rightarrow> bool \<Rightarrow> int \<Rightarrow> ratio_state" where
  "ratio_state_of p denominator_class enumeration_capable inline_population out_of_scope =
     (if \<not> emits_ratio denominator_class then DENOMINATOR_CLASS_WITHHOLDS_RATIO
      else if body_flag ''result_cap_hit'' p \<or> \<not> body_flag ''pagination_complete'' p then TRUNCATED_POPULATION
      else if \<not> enumeration_capable then POPULATION_NOT_ENUMERABLE
      else if \<not> inline_population then DIGEST_ONLY_POPULATION
      else if population_count p = 0 then EMPTY_POPULATION
      else if population_count p - out_of_scope \<le> 0 then DENOMINATOR_EMPTY_AFTER_EXCLUSIONS
      else AVAILABLE)"

section \<open>Facts of an action\<close>

record action_facts =
  af_support :: "coverage_level option"
  af_occurrence :: "int option"
  af_skewed :: bool

definition confirmation_matches ::
    "reconciliation_result \<Rightarrow> evidence_record \<Rightarrow> evidence_record \<Rightarrow> bool" where
  "confirmation_matches result confirmation p \<longleftrightarrow>
     rr_status result = MATCHED
     \<and> rr_action_id result \<noteq> None
     \<and> rr_confirmation_record_id result = Some (record_id confirmation)
     \<and> tenant_id confirmation = tenant_id p
     \<and> boundary_ref confirmation = boundary_ref p
     \<and> Some (body_text ''action_id'' confirmation) = rr_action_id result
     \<and> body_text ''destination_system'' confirmation = body_text ''destination_system'' p
     \<and> body_text ''destination_record_id'' confirmation = rr_destination_record_id result
     \<and> body_text ''reconciliation_status'' confirmation = str ''matched''"

definition receipt_record_matches ::
    "reconciliation_result \<Rightarrow> evidence_record \<Rightarrow> evidence_record \<Rightarrow> bool" where
  "receipt_record_matches result r p \<longleftrightarrow>
     tenant_id r = tenant_id p \<and> boundary_ref r = boundary_ref p
     \<and> Some (body_text ''action_id'' r) = rr_action_id result
     \<and> member (body r) ''destination_record_ref'' = Some (PStr (rr_destination_record_id result))"

definition bound_action_facts ::
    "('sk, 'pk) crypto \<Rightarrow> 'pk action_evidence \<Rightarrow> reconciliation_result \<Rightarrow> evidence_record
     \<Rightarrow> coverage_boundary \<Rightarrow> coverage_error + action_facts" where
  "bound_action_facts c item result p boundary =
     (case ae_confirmation item of
        Some confirmation \<Rightarrow>
          if \<not> confirmation_matches result confirmation p then Inl CoverageInputError
          else rbind (cv_time (body_text ''authoritative_timestamp'' confirmation)) (\<lambda>t.
               Inr \<lparr>af_support = Some RECONCILED, af_occurrence = Some t, af_skewed = False\<rparr>)
      | None \<Rightarrow>
          if rr_status result = MATCHED then Inl CoverageInputError
          else case ae_receipt item of
            None \<Rightarrow> Inr \<lparr>af_support = None, af_occurrence = None, af_skewed = False\<rparr>
          | Some (receipt, r, reg) \<Rightarrow>
              if rr_action_id result = None then Inl CoverageInputError
              else if \<not> receipt_record_matches result r p then Inl CoverageInputError
              else (case verify_ingestion_receipt c receipt r reg None of
                      Inl e \<Rightarrow> Inl (CvReceipt e)
                    | Inr payload \<Rightarrow>
                        (case parse_timestamp (ir_ingest_time payload) of
                           Inl e \<Rightarrow> Inl (CvReceipt e)
                         | Inr t \<Rightarrow>
                             Inr \<lparr>af_support = Some OBSERVED, af_occurrence = Some t,
                                  af_skewed = (cb_clock_skew_threshold_ms boundary < \<bar>ir_clock_skew_ms payload\<bar>)\<rparr>)))"

section \<open>The ratio\<close>

text \<open>
  \<^verbatim>\<open>(Decimal(n) / Decimal(d)).quantize(Decimal("0.0001"), ROUND_DOWN)\<close> in ten-thousandths: the
  quotient is rounded half-even to 28 significant digits, the result is truncated.
\<close>

definition quotient_shift :: "nat \<Rightarrow> nat \<Rightarrow> nat" where
  "quotient_shift n d =
     (let k = decimal_precision + digit_count d - digit_count n
      in if n * 10 ^ k div d < 10 ^ decimal_precision then k else k - 1)"

definition ten_thousandths :: "nat \<Rightarrow> nat \<Rightarrow> nat" where
  "ten_thousandths n d =
     (let k = quotient_shift n d in round_half_even (n * 10 ^ k) d div 10 ^ (k - 4))"

text \<open>\<open>format(ratio, "f")\<close>: four places always.\<close>

definition ratio_text :: "nat \<Rightarrow> pystr" where
  "ratio_text x = dec_nat (x div 10000) @ [46] @ padded 4 (x mod 10000)"

section \<open>The report\<close>

record coverage_report =
  cr_population_ref :: pystr
  cr_boundary_ref :: pystr
  cr_window :: time_interval
  cr_denominator_class :: denominator_class
  cr_evidence_supported_level :: coverage_level
  cr_class_admissible_level :: coverage_level
  cr_claimed_level :: coverage_level
  cr_capped_by_class :: bool
  cr_coverage_ratio :: "nat option"
  cr_ratio_state :: ratio_state
  cr_population_independently_enumerable :: bool
  cr_numerator_count :: nat
  cr_denominator_count :: int
  cr_counts :: coverage_counts
  cr_covered_intervals :: "time_interval list"
  cr_gap_intervals :: "time_interval list"
  cr_gaps :: "gap_evidence list"
  cr_gap_actions :: "gap_action list"

definition weaker_level :: "coverage_level \<Rightarrow> coverage_level \<Rightarrow> coverage_level" where
  "weaker_level a b = (if level_index a \<le> level_index b then a else b)"

definition strongest_support :: "coverage_level list \<Rightarrow> coverage_level" where
  "strongest_support levels = (case py_max level_index levels of None \<Rightarrow> OBSERVED | Some l \<Rightarrow> l)"

text \<open>One pass of the first loop: the facts of an item, and the interval its skew needs.\<close>

definition item_facts ::
    "('sk, 'pk) crypto \<Rightarrow> evidence_record \<Rightarrow> coverage_boundary \<Rightarrow> reconciliation_result list
     \<Rightarrow> 'pk action_evidence \<Rightarrow> coverage_error + 'pk action_evidence \<times> reconciliation_result \<times> action_facts" where
  "item_facts c p boundary results item =
     (case find (\<lambda>r. rr_destination_record_id r = ae_destination_record_id item) results of
        None \<Rightarrow> Inl CoverageInputError
      | Some result \<Rightarrow>
          rbind (bound_action_facts c item result p boundary) (\<lambda>facts.
          if af_skewed facts \<and> (ae_affected_interval item = None \<or> body_text ''action_family'' p = [])
          then Inl CoverageInputError
          else Inr (item, result, facts)))"

definition skew_gap :: "evidence_record \<Rightarrow> 'pk action_evidence \<Rightarrow> gap_evidence" where
  "skew_gap p item =
     \<lparr>ge_interval = (case ae_affected_interval item of Some i \<Rightarrow> i | None \<Rightarrow> \<lparr>ti_start = 0, ti_end = 0\<rparr>),
      ge_cause = CLOCK_SKEW, ge_affected_scope = [body_text ''action_family'' p],
      ge_detection_source = str ''issuer-signed ingestion receipt'', ge_actions_during_gap = None,
      ge_evidence_record_ref = None\<rparr>"

definition skew_gaps ::
    "evidence_record \<Rightarrow> ('pk action_evidence \<times> reconciliation_result \<times> action_facts) list \<Rightarrow> gap_evidence list" where
  "skew_gaps p items = map (\<lambda>(item, _). skew_gap p item) (filter (\<lambda>(_, _, facts). af_skewed facts) items)"

definition located :: "time_interval \<Rightarrow> int option \<Rightarrow> bool" where
  "located i occurrence = (case occurrence of None \<Rightarrow> False | Some t \<Rightarrow> contains i t)"

definition gap_count_ok :: "int option list \<Rightarrow> gap_evidence \<Rightarrow> bool" where
  "gap_count_ok occurrences g =
     (case ge_actions_during_gap g of
        None \<Rightarrow> True
      | Some n \<Rightarrow> int (length (filter (located (ge_interval g)) occurrences)) = n)"

text \<open>One pass of the second loop: the contribution to the numerator and the action inside a gap.\<close>

definition in_gap :: "time_interval \<Rightarrow> time_interval list \<Rightarrow> action_facts \<Rightarrow> bool" where
  "in_gap window gap_intervals facts \<longleftrightarrow>
     af_skewed facts
     \<or> located window (af_occurrence facts) \<and> list_ex (\<lambda>i. located i (af_occurrence facts)) gap_intervals"

definition reconciled_in_gap ::
    "time_interval \<Rightarrow> time_interval list \<Rightarrow> reconciliation_result \<Rightarrow> action_facts \<Rightarrow> bool" where
  "reconciled_in_gap window gap_intervals result facts \<longleftrightarrow>
     in_gap window gap_intervals facts \<and> rr_status result = MATCHED
     \<and> af_support facts = Some RECONCILED \<and> \<not> af_skewed facts"

definition contribution ::
    "time_interval \<Rightarrow> time_interval list \<Rightarrow> bool \<Rightarrow> coverage_level \<Rightarrow> reconciliation_result \<Rightarrow> action_facts
     \<Rightarrow> coverage_error + nat" where
  "contribution window gap_intervals any_gaps claimed result facts =
     (case af_support facts of
        None \<Rightarrow> Inr 0
      | Some supported \<Rightarrow>
          if af_skewed facts then Inr 0
          else if af_occurrence facts \<noteq> None \<and> \<not> located window (af_occurrence facts) then Inr 0
          else if rr_status result \<in> {UNMATCHED_WITHOUT_EVIDENCE, OUT_OF_SCOPE} then Inl CoverageInputError
          else if in_gap window gap_intervals facts \<and> \<not> reconciled_in_gap window gap_intervals result facts then Inr 0
          else if in_gap window gap_intervals facts \<and> claimed \<noteq> RECONCILED then Inr 0
          else if any_gaps \<and> af_occurrence facts = None then Inr 0
          else if level_index claimed \<le> level_index supported then Inr 1
          else Inr 0)"

definition gap_action_of ::
    "time_interval \<Rightarrow> time_interval list \<Rightarrow> 'pk action_evidence \<times> reconciliation_result \<times> action_facts
     \<Rightarrow> gap_action list" where
  "gap_action_of window gap_intervals x =
     (case x of (item, result, facts) \<Rightarrow>
        if in_gap window gap_intervals facts then
          [\<lparr>ga_destination_record_id = ae_destination_record_id item,
            ga_classification = if reconciled_in_gap window gap_intervals result facts
                                then GA_RECONCILED else GA_UNKNOWN\<rparr>]
        else [])"

definition compute_coverage ::
    "('sk, 'pk) crypto \<Rightarrow> reconciliation_result list \<Rightarrow> evidence_record \<Rightarrow> coverage_boundary
     \<Rightarrow> qualification list \<Rightarrow> 'pk action_evidence list \<Rightarrow> gap_evidence list
     \<Rightarrow> coverage_error + coverage_report" where
  "compute_coverage c results p boundary history action_evidence gaps =
     rbind (validate_scope p boundary history) (\<lambda>(window, denominator_class, enumeration_capable).
     rbind (validate_results p results) (\<lambda>inline_population.
     let counts = classification_counts results;
         evidence_ids = map ae_destination_record_id action_evidence
     in if card (set evidence_ids) \<noteq> length action_evidence then Inl CoverageInputError
        else if \<not> set evidence_ids \<subseteq> rr_destination_record_id ` set results then Inl CoverageInputError
        else
     rbind (rmap (item_facts c p boundary results) action_evidence) (\<lambda>items.
     let facts = map (\<lambda>(_, _, f). f) items;
         evidence_supported = strongest_support (concat (map (\<lambda>f. case af_support f of None \<Rightarrow> [] | Some l \<Rightarrow> [l]) facts));
         class_admissible = admissible_level denominator_class;
         claimed = weaker_level evidence_supported class_admissible;
         all_gaps = gaps @ skew_gaps p items
     in
     rbind (normalise_gap_intervals window all_gaps) (\<lambda>gap_intervals.
     if \<not> list_all (gap_count_ok (map af_occurrence facts)) gaps then Inl CoverageInputError
     else
     rbind (rmap (\<lambda>(_, result, f). contribution window gap_intervals (gaps \<noteq> []) claimed result f) items) (\<lambda>contributions.
     let numerator = sum_list contributions;
         state = ratio_state_of p denominator_class enumeration_capable inline_population (cc_out_of_scope counts);
         ratio_denominator = population_count p - cc_out_of_scope counts
     in Inr \<lparr>cr_population_ref = record_id p, cr_boundary_ref = cb_boundary_ref boundary, cr_window = window,
             cr_denominator_class = denominator_class, cr_evidence_supported_level = evidence_supported,
             cr_class_admissible_level = class_admissible, cr_claimed_level = claimed,
             cr_capped_by_class = (claimed \<noteq> evidence_supported),
             cr_coverage_ratio = (if state = AVAILABLE then Some (ten_thousandths numerator (nat ratio_denominator)) else None),
             cr_ratio_state = state,
             cr_population_independently_enumerable =
               (enumeration_capable \<and> emits_ratio denominator_class
                \<and> \<not> body_flag ''result_cap_hit'' p \<and> body_flag ''pagination_complete'' p),
             cr_numerator_count = numerator, cr_denominator_count = population_count p, cr_counts = counts,
             cr_covered_intervals = covered_complement window gap_intervals, cr_gap_intervals = gap_intervals,
             cr_gaps = all_gaps,
             cr_gap_actions = sort_key ga_destination_record_id
               (concat (map (gap_action_of window gap_intervals) items))\<rparr>)))))"

section \<open>Intervals as sets of instants\<close>

definition instants :: "time_interval list \<Rightarrow> int set" where
  "instants is = {t. \<exists>i \<in> set is. contains i t}"

lemma instants_simps [simp]:
  "instants [] = {}"
  "instants (i # is) = {t. contains i t} \<union> instants is"
  "instants (is @ js) = instants is \<union> instants js"
  "instants (rev is) = instants is"
  by (auto simp: instants_def)

definition separated :: "time_interval list \<Rightarrow> bool" where
  "separated is \<longleftrightarrow> list_all interval_ok is \<and> sorted_wrt (\<lambda>i j. ti_end i < ti_start j) is"

lemma merge_gaps_spec:
  assumes "merge_gaps w merged is = Inr out"
    and "separated (rev merged)" "list_all interval_ok is"
    and "sorted_wrt (\<lambda>i j. ti_start i \<le> ti_start j) is"
    and "merged \<noteq> [] \<Longrightarrow> \<forall>i \<in> set is. ti_start (hd merged) \<le> ti_start i"
    and "list_all (encloses w) merged"
  shows "separated out \<and> instants out = instants merged \<union> instants is \<and> list_all (encloses w) out"
  using assms
proof (induction w merged "is" rule: merge_gaps.induct)
  case (1 w merged)
  then show ?case by auto
next
  case (2 w merged i "is")
  have enc: "encloses w i" using "2.prems"(1) by (simp split: if_splits)
  note nonneg = "2.prems"(3)
  show ?case
  proof (cases merged)
    case Nil
    then have "merge_gaps w [i] is = Inr out" using "2.prems"(1) enc by simp
    from "2.IH"(1) [OF _ Nil this] show ?thesis using "2.prems" enc Nil by (auto simp: separated_def)
  next
    case (Cons previous rest)
    have prev: "ti_start previous \<le> ti_start i" using "2.prems"(5) Cons by simp
    show ?thesis
    proof (cases "ti_end previous < ti_start i")
      case True
      then have step: "merge_gaps w (i # previous # rest) is = Inr out" using "2.prems"(1) enc Cons by simp
      have "\<forall>x \<in> set rest. ti_end x < ti_start previous" "ti_start previous < ti_end previous"
        using "2.prems"(2) Cons by (auto simp: separated_def sorted_wrt_append interval_ok_def)
      then have "separated (rev (i # previous # rest))"
        using "2.prems"(2,3) Cons True by (force simp: separated_def sorted_wrt_append)
      from "2.IH"(2) [OF _ Cons True step this] show ?thesis using "2.prems" enc Cons by auto
    next
      case False
      let ?m = "\<lparr>ti_start = ti_start previous, ti_end = max (ti_end previous) (ti_end i)\<rparr>"
      have step: "merge_gaps w (?m # rest) is = Inr out" using "2.prems"(1) enc Cons False by simp
      have "separated (rev (?m # rest))"
        using "2.prems"(2) Cons by (auto simp: separated_def sorted_wrt_append interval_ok_def)
      moreover have "\<forall>x \<in> set is. ti_start previous \<le> ti_start x"
        using "2.prems"(5) Cons by simp
      moreover have "list_all (encloses w) (?m # rest)"
        using "2.prems"(6) enc Cons by (simp add: list_all_iff) (simp add: encloses_def)
      moreover have "{t. contains ?m t} = {t. contains previous t} \<union> {t. contains i t}"
        using False prev by (auto simp: contains_def)
      ultimately show ?thesis
        using "2.IH"(3) [OF _ Cons False step] "2.prems" enc Cons by auto
    qed
  qed
qed

lemma gap_order_sorted:
  "sorted_wrt (\<lambda>i j. ti_start i \<le> ti_start j) (sort_key gap_order is)"
proof -
  have "sorted_wrt (\<lambda>i j. gap_order i \<le> gap_order j) (sort_key gap_order is)"
    using sorted_sort_key [of gap_order "is"] by (simp add: sorted_wrt_map)
  then show ?thesis by (rule sorted_wrt_mono_rel [rotated]) (auto simp: gap_order_def)
qed

lemma normalise_gap_intervals_spec:
  assumes "normalise_gap_intervals w gaps = Inr out" and "list_all (\<lambda>g. interval_ok (ge_interval g)) gaps"
  shows "separated out \<and> instants out = {t. \<exists>g \<in> set gaps. contains (ge_interval g) t}
    \<and> list_all (encloses w) out"
proof -
  have "list_all interval_ok (sort_key gap_order (map ge_interval gaps))"
    using assms(2) by (auto simp: list_all_iff)
  from merge_gaps_spec [OF assms(1) [unfolded normalise_gap_intervals_def] _ this gap_order_sorted]
  show ?thesis by (auto simp: separated_def instants_def)
qed

lemma covered_from_spec:
  assumes "separated gs" "\<forall>g \<in> set gs. cursor \<le> ti_start g \<and> ti_end g \<le> finish"
  shows "instants (covered_from cursor finish gs) = {t. cursor \<le> t \<and> t < finish} - instants gs
    \<and> separated (covered_from cursor finish gs)
    \<and> (\<forall>i \<in> set (covered_from cursor finish gs). cursor \<le> ti_start i)"
  using assms
proof (induction cursor finish gs rule: covered_from.induct)
  case (1 cursor finish)
  then show ?case by (auto simp: separated_def interval_ok_def contains_def)
next
  case (2 cursor finish g gs)
  have g: "ti_start g < ti_end g" "cursor \<le> ti_start g" "ti_end g \<le> finish"
    and after: "\<forall>x \<in> set gs. ti_end g < ti_start x" and sep: "separated gs"
    using "2.prems" by (auto simp: separated_def interval_ok_def)
  have "\<forall>x \<in> set gs. ti_end g \<le> ti_start x \<and> ti_end x \<le> finish" using after "2.prems"(2) by force
  note ih = "2.IH" [OF sep this]
  have low: "ti_end g < t" if "t \<in> instants gs" for t
    using that after by (force simp: instants_def contains_def)
  have "instants (covered_from cursor finish (g # gs)) = {t. cursor \<le> t \<and> t < finish} - instants (g # gs)"
    using ih g by (auto simp: contains_def dest: low)
  moreover have "separated (covered_from cursor finish (g # gs))"
    using ih g by (auto simp: separated_def interval_ok_def)
  ultimately show ?case using ih g by auto
qed

section \<open>Counts\<close>

lemma count_results_fields:
  "cc_matched (count_results k rs) = cc_matched k + int (length (filter (\<lambda>r. rr_status r = MATCHED) rs))"
  "cc_unmatched_with_evidence (count_results k rs)
     = cc_unmatched_with_evidence k + int (length (filter (\<lambda>r. rr_status r = UNMATCHED_WITH_EVIDENCE) rs))"
  "cc_unmatched_without_evidence (count_results k rs)
     = cc_unmatched_without_evidence k + int (length (filter (\<lambda>r. rr_status r = UNMATCHED_WITHOUT_EVIDENCE) rs))"
  "cc_duplicate (count_results k rs) = cc_duplicate k + int (length (filter (\<lambda>r. rr_status r = DUPLICATE) rs))"
  "cc_ambiguous (count_results k rs) = cc_ambiguous k + int (length (filter (\<lambda>r. rr_status r = AMBIGUOUS) rs))"
  "cc_out_of_scope (count_results k rs)
     = cc_out_of_scope k + int (length (filter (\<lambda>r. rr_status r = OUT_OF_SCOPE) rs))"
  by (induction rs arbitrary: k; case_tac "rr_status a"; simp)+

lemma status_partition:
  "length rs = length (filter (\<lambda>r. rr_status r = MATCHED) rs)
     + length (filter (\<lambda>r. rr_status r = UNMATCHED_WITH_EVIDENCE) rs)
     + length (filter (\<lambda>r. rr_status r = UNMATCHED_WITHOUT_EVIDENCE) rs)
     + length (filter (\<lambda>r. rr_status r = DUPLICATE) rs)
     + length (filter (\<lambda>r. rr_status r = AMBIGUOUS) rs)
     + length (filter (\<lambda>r. rr_status r = OUT_OF_SCOPE) rs)"
proof (induction rs)
  case (Cons r rs)
  then show ?case by (cases "rr_status r") simp_all
qed simp

lemma status_without:
  "length (filter (\<lambda>r. rr_status r \<notin> {UNMATCHED_WITHOUT_EVIDENCE, OUT_OF_SCOPE}) rs)
     + length (filter (\<lambda>r. rr_status r = OUT_OF_SCOPE) rs)
     + length (filter (\<lambda>r. rr_status r = UNMATCHED_WITHOUT_EVIDENCE) rs) = length rs"
proof (induction rs)
  case (Cons r rs)
  then show ?case by (cases "rr_status r") simp_all
qed simp

section \<open>The numerator\<close>

lemma contribution_Inr:
  assumes "contribution w gs g claimed result f = Inr n"
  shows "n \<le> 1"
    and "n = 1 \<Longrightarrow> rr_status result \<notin> {UNMATCHED_WITHOUT_EVIDENCE, OUT_OF_SCOPE} \<and> \<not> af_skewed f
      \<and> (\<exists>l. af_support f = Some l \<and> claimed \<le> l)
      \<and> (af_occurrence f = None \<or> located w (af_occurrence f))
      \<and> (in_gap w gs f \<longrightarrow> reconciled_in_gap w gs result f \<and> claimed = RECONCILED)"
  using assms by (auto simp: contribution_def less_eq_coverage_level_def split: option.splits if_splits)

lemma bound_action_facts_Inr:
  assumes "bound_action_facts c item result p boundary = Inr f" "af_support f = Some RECONCILED"
  shows "\<exists>k. ae_confirmation item = Some k \<and> confirmation_matches result k p"
  using assms by (auto simp: bound_action_facts_def rbind_eq_Inr split: option.splits if_splits sum.splits prod.splits)

lemma item_facts_Inr:
  assumes "item_facts c p boundary results item = Inr x"
  obtains result f where "x = (item, result, f)" "result \<in> set results"
    "rr_destination_record_id result = ae_destination_record_id item"
    "bound_action_facts c item result p boundary = Inr f"
    "af_skewed f \<longrightarrow> ae_affected_interval item \<noteq> None"
  using assms by (auto simp: item_facts_def rbind_eq_Inr find_Some_iff split: option.splits if_splits)

text \<open>Items that contribute name different results, all satisfying what a contribution implies.\<close>

lemma numerator_bound:
  assumes items: "rmap (item_facts c p boundary results) evidence = Inr items"
    and dist: "card (set (map ae_destination_record_id evidence)) = length evidence"
    and contr: "rmap (\<lambda>(_, result, f). contribution w gs g claimed result f) items = Inr ns"
    and P: "\<And>item result f. (item, result, f) \<in> set items \<Longrightarrow> contribution w gs g claimed result f = Inr 1 \<Longrightarrow> P result"
  shows "sum_list ns \<le> length (filter P results)"
proof -
  have ii: "length items = length evidence"
    "\<And>k. k < length evidence \<Longrightarrow> item_facts c p boundary results (evidence ! k) = Inr (items ! k)"
    using items by (auto simp: rmap_eq_Inr_iff list_all2_conv_all_nth)
  have nn: "length ns = length items"
    "\<And>k. k < length items \<Longrightarrow> contribution w gs g claimed (fst (snd (items ! k))) (snd (snd (items ! k))) = Inr (ns ! k)"
    using contr by (auto simp: rmap_eq_Inr_iff list_all2_conv_all_nth split: prod.splits) (metis prod.collapse)
  let ?K = "{k. k < length ns \<and> ns ! k = 1}"
  have le1: "n \<le> 1" if "n \<in> set ns" for n
    using that nn contribution_Inr(1) by (metis in_set_conv_nth)
  have sum: "sum_list ns = card ?K"
    using le1
  proof (induction ns)
    case (Cons n ns)
    have "{k. k < length (n # ns) \<and> (n # ns) ! k = 1} = (if n = 1 then {0} else {}) \<union> Suc ` {k. k < length ns \<and> ns ! k = 1}"
      by (auto simp: less_Suc_eq_0_disj image_iff)
    moreover have "n = 0 \<or> n = 1" using Cons.prems [of n] by auto
    ultimately show ?case using Cons by (auto simp: card_insert_if card_image)
  qed simp
  define name where "name k = ae_destination_record_id (evidence ! k)" for k
  have inj: "inj_on name ?K"
  proof (rule inj_onI)
    fix a b assume "a \<in> ?K" "b \<in> ?K" "name a = name b"
    moreover have "distinct (map ae_destination_record_id evidence)" using dist by (intro card_distinct) simp
    ultimately show "a = b" using nn(1) ii(1) unfolding name_def
      by (metis (mono_tags, lifting) distinct_conv_nth length_map mem_Collect_eq nth_map)
  qed
  have "name ` ?K \<subseteq> set (map rr_destination_record_id (filter P results))"
  proof
    fix x assume "x \<in> name ` ?K"
    then obtain k where k: "k < length ns" "ns ! k = 1" "x = name k" by auto
    then have kk: "k < length evidence" "k < length items" using nn(1) ii(1) by simp_all
    obtain result f where r: "items ! k = (evidence ! k, result, f)" "result \<in> set results"
      "rr_destination_record_id result = ae_destination_record_id (evidence ! k)"
      by (rule item_facts_Inr [OF ii(2) [OF kk(1)]])
    have "contribution w gs g claimed result f = Inr 1" using nn(2) [OF kk(2)] k(2) r(1) by simp
    moreover have "(evidence ! k, result, f) \<in> set items" using r(1) kk(2) by (metis nth_mem)
    ultimately have "P result" using P by blast
    then show "x \<in> set (map rr_destination_record_id (filter P results))" using r k(3) by (force simp: name_def)
  qed
  then have "card (name ` ?K) \<le> card (set (map rr_destination_record_id (filter P results)))"
    by (intro card_mono) simp
  also have "\<dots> \<le> length (filter P results)" using card_length [of "map rr_destination_record_id (filter P results)"] by simp
  finally show ?thesis using sum card_image [OF inj] by simp
qed

section \<open>The truncated ratio\<close>

lemma digit_count_bounds: "0 < n \<Longrightarrow> 10 ^ (digit_count n - 1) \<le> n" "n < 10 ^ digit_count n" "1 \<le> digit_count n"
proof (induction n rule: digit_count.induct)
  case (1 n)
  have c: "digit_count n = (if n < 10 then 1 else Suc (digit_count (n div 10)))" by (rule digit_count.simps)
  show "1 \<le> digit_count n" using c by simp
  show "n < 10 ^ digit_count n"
  proof (cases "n < 10")
    case False
    then have "n div 10 < 10 ^ digit_count (n div 10)" using "1.IH"(2) by blast
    then show ?thesis using c False by (simp add: div_less_iff_less_mult mult.commute)
  qed (simp add: c)
  show "10 ^ (digit_count n - 1) \<le> n" if "0 < n"
  proof (cases "n < 10")
    case False
    then have "10 ^ (digit_count (n div 10) - 1) \<le> n div 10" "1 \<le> digit_count (n div 10)"
      using "1.IH"(1,3) by auto
    then have "10 * 10 ^ (digit_count (n div 10) - 1) \<le> n" by linarith
    moreover have "10 * (10::nat) ^ (digit_count (n div 10) - 1) = 10 ^ digit_count (n div 10)"
      using \<open>1 \<le> digit_count (n div 10)\<close> by (metis Suc_diff_1 less_eq_Suc_le One_nat_def power_Suc)
    ultimately show ?thesis using c False by simp
  qed (use that c in simp)
qed

lemma digit_count_mono: "0 < n \<Longrightarrow> n \<le> d \<Longrightarrow> digit_count n \<le> digit_count d"
proof (rule ccontr)
  assume "0 < n" "n \<le> d" "\<not> digit_count n \<le> digit_count d"
  then have "digit_count d \<le> digit_count n - 1" by simp
  then have "(10::nat) ^ digit_count d \<le> 10 ^ (digit_count n - 1)" by (intro power_increasing) auto
  also have "\<dots> \<le> n" by (rule digit_count_bounds(1) [OF \<open>0 < n\<close>])
  finally show False using digit_count_bounds(2) [of d] \<open>n \<le> d\<close> by simp
qed

text \<open>
  Rounding to 28 digits cannot carry the quotient of two counts over a multiple of a ten-thousandth:
  for that the denominator would need more than 23 digits.
\<close>

lemma round_then_truncate:
  fixes n d j :: nat
  assumes "0 < d" "d \<le> 10 ^ j"
  shows "round_half_even (n * 10 ^ (j + 4)) d div 10 ^ j = n * 10 ^ 4 div d"
proof -
  let ?N = "n * 10 ^ (j + 4)"
  have split: "?N = (n * 10 ^ 4) * 10 ^ j" by (simp add: power_add)
  have floor: "?N div d div 10 ^ j = n * 10 ^ 4 div d"
    unfolding split by (metis assms(1) div_mult2_eq mult.commute nonzero_mult_div_cancel_right div_mult_mult2
        power_not_zero zero_neq_numeral)
  consider "round_half_even ?N d = ?N div d" | "round_half_even ?N d = ?N div d + 1" "d \<le> 2 * (?N mod d)"
    unfolding round_half_even_def Let_def by (cases "d < 2 * (?N mod d) \<or> 2 * (?N mod d) = d \<and> odd (?N div d)") auto
  then show ?thesis
  proof cases
    case 1
    then show ?thesis using floor by simp
  next
    case 2
    let ?q = "?N div d" and ?r = "?N mod d"
    have "(?q + 1) div 10 ^ j = ?q div 10 ^ j"
    proof (rule ccontr)
      assume "(?q + 1) div 10 ^ j \<noteq> ?q div 10 ^ j"
      then have "10 ^ j dvd ?q + 1" by (metis Suc_eq_plus1 dvd_eq_mod_eq_0 div_Suc)
      then obtain m where m: "?q + 1 = m * 10 ^ j" by (metis dvd_def mult.commute)
      have "?N = d * ?q + ?r" by simp
      moreover have "?r < d" "d * (?q + 1) = d * ?q + d" using assms(1) by simp_all
      ultimately have "?N + (d - ?r) = d * (?q + 1)" by linarith
      also have "\<dots> = (d * m) * 10 ^ j" unfolding m by simp
      finally have "10 ^ j dvd ?N + (d - ?r)" by (metis dvd_triv_right)
      moreover have "10 ^ j dvd ?N" unfolding split by simp
      ultimately have "10 ^ j dvd d - ?r" using dvd_add_right_iff by blast
      moreover have "0 < d - ?r" using mod_less_divisor [OF assms(1), of ?N] by simp
      ultimately have "10 ^ j \<le> d - ?r" by (rule dvd_imp_le)
      then show False using 2(2) assms mod_less_divisor [OF assms(1), of ?N] by linarith
    qed
    then show ?thesis using 2(1) floor by simp
  qed
qed

lemma ten_thousandths_eq:
  assumes "n \<le> d" "0 < d" "d \<le> 10 ^ 20"
  shows "ten_thousandths n d = n * 10 ^ 4 div d"
proof (cases "n = 0")
  case True
  then show ?thesis by (simp add: ten_thousandths_def round_half_even_def Let_def)
next
  case False
  let ?k = "quotient_shift n d"
  have "digit_count n \<le> digit_count d" using digit_count_mono [of n d] False assms(1) by simp
  then have "28 \<le> decimal_precision + digit_count d - digit_count n" by (simp add: decimal_precision_def)
  then have "27 \<le> ?k" by (auto simp: quotient_shift_def Let_def)
  define j where "j = ?k - 4"
  have j: "?k = j + 4" "20 \<le> j" using \<open>27 \<le> ?k\<close> by (simp_all add: j_def)
  have "d \<le> 10 ^ j" using assms(3) power_increasing [OF j(2), of "10::nat"] by simp
  from round_then_truncate [OF assms(2) this, of n] j(1) show ?thesis by (simp add: ten_thousandths_def Let_def)
qed

section \<open>Properties\<close>

lemma weaker_level_le: "weaker_level a b \<le> b"
  by (auto simp: weaker_level_def less_eq_coverage_level_def)

lemma skew_gaps_ok:
  assumes items: "rmap (item_facts c p boundary results) evidence = Inr items"
    and ok: "list_all (\<lambda>x. case ae_affected_interval x of None \<Rightarrow> True | Some i \<Rightarrow> interval_ok i) evidence"
  shows "list_all (\<lambda>g. interval_ok (ge_interval g)) (skew_gaps p items)"
proof -
  have "interval_ok (ge_interval (skew_gap p item))" if x: "(item, result, f) \<in> set items" "af_skewed f" for item result f
  proof -
    obtain y where y: "y \<in> set evidence" "item_facts c p boundary results y = Inr (item, result, f)"
      using rmap_mem [OF items x(1)] by blast
    obtain result' f' where "(item, result, f) = (y, result', f')" "af_skewed f' \<longrightarrow> ae_affected_interval y \<noteq> None"
      by (rule item_facts_Inr [OF y(2)])
    then show ?thesis using ok y(1) x(2) by (auto simp: skew_gap_def list_all_iff split: option.splits)
  qed
  then show ?thesis by (auto simp: skew_gaps_def list_all_iff)
qed

lemma time_interval_Inr: "time_interval a b = Inr w \<Longrightarrow> interval_ok w \<and> w = \<lparr>ti_start = a, ti_end = b\<rparr>"
  by (auto simp: time_interval_def interval_ok_def split: if_splits)

lemma cv_qualification_Inr: "cv_qualification m = Inr x \<longleftrightarrow> m = Inr x"
  by (cases m) (simp_all add: cv_qualification_def)

lemma validate_scope_Inr:
  assumes "validate_scope p boundary history = Inr (w, k, e)"
  shows "interval_ok w" "w = cb_window boundary" "class_in_force history (ti_start w) (ti_end w) = Inr k"
    "emits_ratio k \<Longrightarrow> e"
proof -
  obtain a b where ab: "time_interval a b = Inr w"
    and rest: "w = cb_window boundary" "class_in_force history (ti_start w) (ti_end w) = Inr k" "emits_ratio k \<longrightarrow> e"
    using assms by (auto simp: validate_scope_def rbind_eq_Inr cv_qualification_Inr Let_def split: if_splits)
  show "interval_ok w" using time_interval_Inr [OF ab] by blast
  show "w = cb_window boundary" "class_in_force history (ti_start w) (ti_end w) = Inr k" "emits_ratio k \<Longrightarrow> e"
    using rest by simp_all
qed

lemma validate_results_Inr:
  assumes "validate_results p results = Inr b"
  shows "distinct (map rr_destination_record_id results)"
    "b \<Longrightarrow> population_count p = int (length results)"
proof -
  have d: "card (set (map rr_destination_record_id results)) = length (map rr_destination_record_id results)"
    using assms by (auto simp: validate_results_def Let_def split: if_splits)
  then show dist: "distinct (map rr_destination_record_id results)" by (rule card_distinct)
  show "population_count p = int (length results)" if b: b
  proof -
    obtain ids where "record_identifiers p = Some ids" "population_count p = int (length ids)"
      "length ids = card (set ids)" "set (map rr_destination_record_id results) = set ids"
      using assms b by (cases "record_identifiers p") (auto simp: validate_results_def Let_def split: if_splits)
    then show ?thesis using d by simp
  qed
qed

text \<open>What a computed report is made of.\<close>

lemma compute_coverage_Inr:
  assumes "compute_coverage c results p boundary history evidence gaps = Inr rep"
  obtains w k e b items ns gs where
    "validate_scope p boundary history = Inr (w, k, e)" "validate_results p results = Inr b"
    "card (set (map ae_destination_record_id evidence)) = length evidence"
    "rmap (item_facts c p boundary results) evidence = Inr items"
    "normalise_gap_intervals w (gaps @ skew_gaps p items) = Inr gs"
    "rmap (\<lambda>(_, result, f). contribution w gs (gaps \<noteq> []) (cr_claimed_level rep) result f) items = Inr ns"
    "cr_window rep = w" "cr_denominator_class rep = k"
    "cr_class_admissible_level rep = admissible_level k"
    "cr_claimed_level rep = weaker_level (cr_evidence_supported_level rep) (admissible_level k)"
    "cr_numerator_count rep = sum_list ns" "cr_counts rep = classification_counts results"
    "cr_denominator_count rep = population_count p"
    "cr_ratio_state rep = ratio_state_of p k e b (cc_out_of_scope (cr_counts rep))"
    "cr_coverage_ratio rep = (if cr_ratio_state rep = AVAILABLE
       then Some (ten_thousandths (sum_list ns) (nat (population_count p - cc_out_of_scope (cr_counts rep)))) else None)"
    "cr_gap_intervals rep = gs" "cr_covered_intervals rep = covered_complement w gs"
    "cr_gaps rep = gaps @ skew_gaps p items"
    "cr_gap_actions rep = sort_key ga_destination_record_id (concat (map (gap_action_of w gs) items))"
  using assms unfolding compute_coverage_def rbind_eq_Inr
  by (auto simp: Let_def rbind_eq_Inr split: if_splits prod.splits)

lemma coverage_partition_facts:
  assumes "compute_coverage c results p boundary history evidence gaps = Inr rep"
    and "list_all (\<lambda>g. interval_ok (ge_interval g)) gaps"
    and "list_all (\<lambda>x. case ae_affected_interval x of None \<Rightarrow> True | Some i \<Rightarrow> interval_ok i) evidence"
  shows "separated (cr_gap_intervals rep) \<and> separated (cr_covered_intervals rep)"
    and "list_all (encloses (cr_window rep)) (cr_gap_intervals rep)"
    and "set gaps \<subseteq> set (cr_gaps rep)"
    and "instants (cr_gap_intervals rep) = {t. \<exists>g \<in> set (cr_gaps rep). contains (ge_interval g) t}"
    and "instants (cr_covered_intervals rep) = {t. contains (cr_window rep) t} - instants (cr_gap_intervals rep)"
proof -
  obtain w items gs where items: "rmap (item_facts c p boundary results) evidence = Inr items"
    and gs: "normalise_gap_intervals w (cr_gaps rep) = Inr gs" "cr_gaps rep = gaps @ skew_gaps p items"
    and rep: "cr_window rep = w" "cr_gap_intervals rep = gs" "cr_covered_intervals rep = covered_complement w gs"
    by (rule compute_coverage_Inr [OF assms(1)]) metis
  have "list_all (\<lambda>g. interval_ok (ge_interval g)) (skew_gaps p items)"
    using skew_gaps_ok [OF items assms(3)] .
  then have spec: "separated gs \<and> instants gs = {t. \<exists>g \<in> set (cr_gaps rep). contains (ge_interval g) t}
      \<and> list_all (encloses w) gs"
    using normalise_gap_intervals_spec [OF gs(1)] assms(2) gs(2) by simp
  then have "\<forall>g \<in> set gs. ti_start w \<le> ti_start g \<and> ti_end g \<le> ti_end w"
    by (simp add: list_all_iff encloses_def)
  note covered = covered_from_spec [OF conjunct1 [OF spec] this, folded covered_complement_def]
  have window: "{t. contains w t} = {t. ti_start w \<le> t \<and> t < ti_end w}" by (simp add: contains_def)
  show "separated (cr_gap_intervals rep) \<and> separated (cr_covered_intervals rep)"
    "list_all (encloses (cr_window rep)) (cr_gap_intervals rep)"
    "instants (cr_gap_intervals rep) = {t. \<exists>g \<in> set (cr_gaps rep). contains (ge_interval g) t}"
    using spec covered unfolding rep by blast+
  show "set gaps \<subseteq> set (cr_gaps rep)" unfolding gs(2) by simp
  show "instants (cr_covered_intervals rep) = {t. contains (cr_window rep) t} - instants (cr_gap_intervals rep)"
    using covered unfolding rep window by blast
qed

lemma coverage_number_facts:
  assumes "compute_coverage c results p boundary history evidence gaps = Inr rep"
    and "population_count p \<le> max_safe_integer"
  shows "cc_matched (cr_counts rep) + cc_unmatched_with_evidence (cr_counts rep)
      + cc_unmatched_without_evidence (cr_counts rep) + cc_duplicate (cr_counts rep)
      + cc_ambiguous (cr_counts rep) + cc_out_of_scope (cr_counts rep) = int (length results)"
    and "int (cr_numerator_count rep) + cc_out_of_scope (cr_counts rep)
      + cc_unmatched_without_evidence (cr_counts rep) \<le> int (length results)"
    and "cr_claimed_level rep \<le> admissible_level (cr_denominator_class rep)"
    and "cr_coverage_ratio rep = None \<longleftrightarrow> cr_ratio_state rep \<noteq> AVAILABLE"
    and "cr_ratio_state rep = AVAILABLE \<Longrightarrow> emits_ratio (cr_denominator_class rep)
      \<and> cr_denominator_count rep = int (length results)
      \<and> (\<exists>d x. int d = cr_denominator_count rep - cc_out_of_scope (cr_counts rep) \<and> 0 < d
           \<and> cr_coverage_ratio rep = Some x \<and> x = cr_numerator_count rep * 10000 div d \<and> x \<le> 10000)"
proof -
  obtain w k e b items ns gs where
      scope: "validate_scope p boundary history = Inr (w, k, e)" and res: "validate_results p results = Inr b"
    and dist: "card (set (map ae_destination_record_id evidence)) = length evidence"
    and items: "rmap (item_facts c p boundary results) evidence = Inr items"
    and ns: "rmap (\<lambda>(_, result, f). contribution w gs (gaps \<noteq> []) (cr_claimed_level rep) result f) items = Inr ns"
    and levels: "cr_denominator_class rep = k"
      "cr_claimed_level rep = weaker_level (cr_evidence_supported_level rep) (admissible_level k)"
    and counts: "cr_numerator_count rep = sum_list ns" "cr_counts rep = classification_counts results"
      "cr_denominator_count rep = population_count p"
    and state: "cr_ratio_state rep = ratio_state_of p k e b (cc_out_of_scope (cr_counts rep))"
    and ratio: "cr_coverage_ratio rep = (if cr_ratio_state rep = AVAILABLE
       then Some (ten_thousandths (sum_list ns) (nat (population_count p - cc_out_of_scope (cr_counts rep)))) else None)"
    by (rule compute_coverage_Inr [OF assms(1)]) metis
  note cf = count_results_fields [of "\<lparr>cc_matched = 0, cc_unmatched_with_evidence = 0,
    cc_unmatched_without_evidence = 0, cc_duplicate = 0, cc_ambiguous = 0, cc_out_of_scope = 0\<rparr>" results,
    folded classification_counts_def]
  show "cc_matched (cr_counts rep) + cc_unmatched_with_evidence (cr_counts rep)
      + cc_unmatched_without_evidence (cr_counts rep) + cc_duplicate (cr_counts rep)
      + cc_ambiguous (cr_counts rep) + cc_out_of_scope (cr_counts rep) = int (length results)"
    using status_partition [of results] unfolding counts(2) cf by simp
  have "sum_list ns \<le> length (filter (\<lambda>r. rr_status r \<notin> {UNMATCHED_WITHOUT_EVIDENCE, OUT_OF_SCOPE}) results)"
    by (rule numerator_bound [OF items dist ns]) (use contribution_Inr(2) in blast)
  then show num: "int (cr_numerator_count rep) + cc_out_of_scope (cr_counts rep)
      + cc_unmatched_without_evidence (cr_counts rep) \<le> int (length results)"
    using status_without [of results] unfolding counts cf by simp
  show "cr_claimed_level rep \<le> admissible_level (cr_denominator_class rep)"
    unfolding levels by (rule weaker_level_le)
  show "cr_coverage_ratio rep = None \<longleftrightarrow> cr_ratio_state rep \<noteq> AVAILABLE" using ratio by simp
  assume av: "cr_ratio_state rep = AVAILABLE"
  then have k: "emits_ratio k" "b" "0 < population_count p - cc_out_of_scope (cr_counts rep)"
    using state by (simp_all add: ratio_state_of_def split: if_splits)
  have len: "population_count p = int (length results)" using validate_results_Inr(2) [OF res k(2)] .
  let ?d = "nat (population_count p - cc_out_of_scope (cr_counts rep))"
  have "0 \<le> cc_out_of_scope (cr_counts rep)" "0 \<le> cc_unmatched_without_evidence (cr_counts rep)"
    unfolding counts cf by simp_all
  then have d: "0 < ?d" "sum_list ns \<le> ?d" "?d \<le> 10 ^ 20"
    using k(3) num len assms(2) counts(1) by (simp_all add: max_safe_integer_def)
  have "ten_thousandths (sum_list ns) ?d = sum_list ns * 10 ^ 4 div ?d" by (rule ten_thousandths_eq [OF d(2,1,3)])
  moreover have "sum_list ns * 10 ^ 4 div ?d \<le> 10000"
    using d div_le_mono [of "sum_list ns * 10 ^ 4" "?d * 10 ^ 4" ?d] by simp
  ultimately have "int ?d = cr_denominator_count rep - cc_out_of_scope (cr_counts rep) \<and> 0 < ?d
      \<and> cr_coverage_ratio rep = Some (cr_numerator_count rep * 10000 div ?d)
      \<and> cr_numerator_count rep * 10000 div ?d \<le> 10000"
    using ratio av k(3) d counts by simp
  then show "emits_ratio (cr_denominator_class rep) \<and> cr_denominator_count rep = int (length results)
      \<and> (\<exists>d x. int d = cr_denominator_count rep - cc_out_of_scope (cr_counts rep) \<and> 0 < d
           \<and> cr_coverage_ratio rep = Some x \<and> x = cr_numerator_count rep * 10000 div d \<and> x \<le> 10000)"
    unfolding levels(1) counts(3) len [symmetric] using k(1) by (intro conjI exI [of _ ?d] exI) auto
qed

text \<open>C11: A computed report partitions the window.  The gap intervals are disjoint, do not touch and lie in
  the window; together they are exactly the instants of the gaps passed in and of the intervals that
  skewed receipts affect; the covered intervals are exactly the rest of the window.\<close>

theorem coverage_partitions_window:
  assumes "compute_coverage c results p boundary history evidence gaps = Inr rep"
    and "list_all (\<lambda>g. interval_ok (ge_interval g)) gaps"
    and "list_all (\<lambda>x. case ae_affected_interval x of None \<Rightarrow> True | Some i \<Rightarrow> interval_ok i) evidence"
  shows "separated (cr_gap_intervals rep) \<and> separated (cr_covered_intervals rep)
    \<and> list_all (encloses (cr_window rep)) (cr_gap_intervals rep)
    \<and> set gaps \<subseteq> set (cr_gaps rep)
    \<and> instants (cr_gap_intervals rep) = {t. \<exists>g \<in> set (cr_gaps rep). contains (ge_interval g) t}
    \<and> instants (cr_covered_intervals rep) = {t. contains (cr_window rep) t} - instants (cr_gap_intervals rep)"
  using coverage_partition_facts [OF assms] by blast

text \<open>C12: The numbers of a report are sound.  Every result is counted once; results out of scope or without
  evidence never enter the numerator; no level is claimed beyond what the class admits; a ratio is given
  exactly in the state AVAILABLE, is the numerator over the results in scope truncated to four places,
  and never exceeds one.\<close>

theorem coverage_numbers_sound:
  assumes "compute_coverage c results p boundary history evidence gaps = Inr rep"
    and "population_count p \<le> max_safe_integer"
  shows "int (cr_numerator_count rep) + cc_out_of_scope (cr_counts rep)
      + cc_unmatched_without_evidence (cr_counts rep) \<le> int (length results)
    \<and> cc_matched (cr_counts rep) + cc_unmatched_with_evidence (cr_counts rep)
      + cc_unmatched_without_evidence (cr_counts rep) + cc_duplicate (cr_counts rep)
      + cc_ambiguous (cr_counts rep) + cc_out_of_scope (cr_counts rep) = int (length results)
    \<and> cr_claimed_level rep \<le> admissible_level (cr_denominator_class rep)
    \<and> (cr_coverage_ratio rep = None \<longleftrightarrow> cr_ratio_state rep \<noteq> AVAILABLE)
    \<and> (cr_ratio_state rep = AVAILABLE \<longrightarrow> emits_ratio (cr_denominator_class rep)
      \<and> cr_denominator_count rep = int (length results)
      \<and> (\<exists>d x. int d = cr_denominator_count rep - cc_out_of_scope (cr_counts rep) \<and> 0 < d
           \<and> cr_coverage_ratio rep = Some x \<and> x = cr_numerator_count rep * 10000 div d \<and> x \<le> 10000))"
  using coverage_number_facts [OF assms] by blast

text \<open>C16: A report that claims RECONCILED counts only matched results in its numerator.\<close>

theorem reconciled_numerator_is_matched:
  assumes "compute_coverage c results p boundary history evidence gaps = Inr rep"
    and "cr_claimed_level rep = RECONCILED"
  shows "int (cr_numerator_count rep) \<le> cc_matched (cr_counts rep)"
proof -
  obtain w items gs ns where
      dist: "card (set (map ae_destination_record_id evidence)) = length evidence"
    and items: "rmap (item_facts c p boundary results) evidence = Inr items"
    and ns: "rmap (\<lambda>(_, result, f). contribution w gs (gaps \<noteq> []) (cr_claimed_level rep) result f) items = Inr ns"
    and counts: "cr_numerator_count rep = sum_list ns" "cr_counts rep = classification_counts results"
    by (rule compute_coverage_Inr [OF assms(1)]) metis
  have "sum_list ns \<le> length (filter (\<lambda>r. rr_status r = MATCHED) results)"
  proof (rule numerator_bound [OF items dist ns])
    fix item result f
    assume x: "(item, result, f) \<in> set items"
      and one: "contribution w gs (gaps \<noteq> []) (cr_claimed_level rep) result f = Inr 1"
    obtain y where "item_facts c p boundary results y = Inr (item, result, f)"
      using rmap_mem [OF items x] by blast
    then have f: "bound_action_facts c item result p boundary = Inr f" by (auto elim: item_facts_Inr)
    obtain l where "af_support f = Some l" "RECONCILED \<le> l" using contribution_Inr(2) [OF one] assms(2) by auto
    then have "af_support f = Some RECONCILED" by (cases l) (simp_all add: less_eq_coverage_level_def)
    from bound_action_facts_Inr [OF f this] show "rr_status result = MATCHED"
      by (auto simp: confirmation_matches_def)
  qed
  then show ?thesis unfolding counts classification_counts_def count_results_fields by simp
qed

section \<open>Witnesses\<close>

definition sample_gap :: gap_evidence where
  "sample_gap = \<lparr>ge_interval = \<lparr>ti_start = 1767400000000000, ti_end = 1767500000000000\<rparr>, ge_cause = SEQUENCE_BREAK,
     ge_affected_scope = [str ''f''], ge_detection_source = str ''chain'', ge_actions_during_gap = Some 0,
     ge_evidence_record_ref = None\<rparr>"

definition sample_boundary :: coverage_boundary where
  "sample_boundary = \<lparr>cb_boundary_ref = boundary_ref sample_population,
     cb_window = \<lparr>ti_start = 1767225600000000, ti_end = 1769904000000000\<rparr>, cb_clock_skew_threshold_ms = 500\<rparr>"

definition sample_action :: "nat action_evidence" where
  "sample_action = \<lparr>ae_destination_record_id = str ''x'', ae_confirmation = Some sample_confirmation,
     ae_receipt = None, ae_affected_interval = None\<rparr>"

definition sample_report :: "coverage_error + coverage_report" where
  "sample_report = compute_coverage const_crypto sample_results sample_population sample_boundary
     [sample_qualification C1 1 1] [sample_action] [sample_gap]"

lemma sample_report_value:
  "case sample_report of
     Inl _ \<Rightarrow> False
   | Inr r \<Rightarrow> cr_claimed_level r = RECONCILED \<and> cr_ratio_state r = AVAILABLE \<and> cr_numerator_count r = 1
       \<and> cr_denominator_count r = 2 \<and> cc_out_of_scope (cr_counts r) = 0
       \<and> cr_gap_intervals r = [ge_interval sample_gap]"
  by code_simp

lemma sample_report_obtain:
  obtains r where "compute_coverage const_crypto sample_results sample_population sample_boundary
      [sample_qualification C1 1 1] [sample_action] [sample_gap] = Inr r"
    "cr_claimed_level r = RECONCILED" "cr_ratio_state r = AVAILABLE" "cr_numerator_count r = 1"
    "cr_denominator_count r = 2" "cc_out_of_scope (cr_counts r) = 0" "cr_gap_intervals r = [ge_interval sample_gap]"
  using sample_report_value unfolding sample_report_def by (auto split: sum.splits)

theorem coverage_partitions_window_witness:
  "\<exists>r. sample_report = Inr r \<and> 1767400000000000 \<notin> instants (cr_covered_intervals r)
     \<and> instants (cr_covered_intervals r) = {t. contains (cr_window r) t} - instants [ge_interval sample_gap]"
proof -
  obtain r where r: "compute_coverage const_crypto sample_results sample_population sample_boundary
      [sample_qualification C1 1 1] [sample_action] [sample_gap] = Inr r"
    and gaps: "cr_gap_intervals r = [ge_interval sample_gap]"
    by (rule sample_report_obtain)
  have "list_all (\<lambda>g. interval_ok (ge_interval g)) [sample_gap]"
    "list_all (\<lambda>x. case ae_affected_interval x of None \<Rightarrow> True | Some i \<Rightarrow> interval_ok i) [sample_action]"
    by (simp_all add: sample_gap_def sample_action_def interval_ok_def)
  from coverage_partitions_window [OF r this] have
    "instants (cr_covered_intervals r) = {t. contains (cr_window r) t} - instants [ge_interval sample_gap]"
    unfolding gaps by blast
  then show ?thesis using r by (auto simp: sample_report_def sample_gap_def contains_def)
qed

theorem coverage_numbers_sound_witness:
  "\<exists>r. sample_report = Inr r \<and> cr_coverage_ratio r = Some 5000"
proof -
  obtain r where r: "compute_coverage const_crypto sample_results sample_population sample_boundary
      [sample_qualification C1 1 1] [sample_action] [sample_gap] = Inr r"
    and v: "cr_ratio_state r = AVAILABLE" "cr_numerator_count r = 1"
      "cr_denominator_count r = 2" "cc_out_of_scope (cr_counts r) = 0"
    by (rule sample_report_obtain)
  have "population_count sample_population = 2" by code_simp
  then have "population_count sample_population \<le> max_safe_integer" by (simp add: max_safe_integer_def)
  from coverage_numbers_sound [OF r this] v
  obtain d where "int d = 2" "cr_coverage_ratio r = Some (10000 div d)" by auto
  moreover from this(1) have "d = 2" by simp
  ultimately show ?thesis using r by (simp add: sample_report_def)
qed

theorem reconciled_numerator_is_matched_witness:
  "\<exists>r. sample_report = Inr r \<and> 1 \<le> cc_matched (cr_counts r)"
proof -
  obtain r where r: "compute_coverage const_crypto sample_results sample_population sample_boundary
      [sample_qualification C1 1 1] [sample_action] [sample_gap] = Inr r"
    and v: "cr_claimed_level r = RECONCILED" "cr_numerator_count r = 1"
    by (rule sample_report_obtain)
  from reconciled_numerator_is_matched [OF r v(1)] v(2) r show ?thesis by (auto simp: sample_report_def)
qed

end
