(* ===== verification/Py_Parsing.thy ===== *)
theory Py_Parsing
  imports Py_Text
begin

text \<open>
  Python's constructors of values from text that the lifecycle service uses: \<^verbatim>\<open>uuid.UUID(text)\<close> and
  \<^verbatim>\<open>decimal.Decimal(text)\<close>.
\<close>

section \<open>UUIDs\<close>

text \<open>\<open>s.replace(p, "")\<close> for a non-empty \<open>p\<close>.\<close>

function drop_all :: "pystr \<Rightarrow> pystr \<Rightarrow> pystr" where
  "drop_all p [] = []"
| "drop_all p (c # cs) =
     (if p \<noteq> [] \<and> take (length p) (c # cs) = p then drop_all p (drop (length p) (c # cs))
      else c # drop_all p cs)"
  by pat_completeness auto
termination by (relation "measure (\<lambda>(p, s). length s)") auto

definition strip_braces :: "pystr \<Rightarrow> pystr" where
  "strip_braces s = (let brace = (\<lambda>c. c = 123 \<or> c = 125) in rev (dropWhile brace (rev (dropWhile brace s))))"

definition decimal_char :: "nat \<Rightarrow> nat" where
  "decimal_char c = (case decimal_value c of Some d \<Rightarrow> 48 + d | None \<Rightarrow> c)"

fun hex_number :: "nat \<Rightarrow> pystr \<Rightarrow> nat option" where
  "hex_number acc [] = Some acc"
| "hex_number acc (c # cs) =
     (case hex_value c of None \<Rightarrow> None | Some d \<Rightarrow> hex_number (16 * acc + d) cs)"

text \<open>
  \<open>int(s, 16)\<close>: white space around it, a sign, an optional prefix \<open>0x\<close> that an underscore may follow,
  digits with single underscores between them.
\<close>

definition hex_groups :: "pystr \<Rightarrow> nat option" where
  "hex_groups s =
     (let groups = split_on 95 s
      in if list_ex (\<lambda>g. g = []) groups then None else hex_number 0 (concat groups))"

definition hex_unsigned :: "pystr \<Rightarrow> nat option" where
  "hex_unsigned s =
     (case s of
        z # x # r \<Rightarrow>
          if z = 48 \<and> (x = 120 \<or> x = 88) then hex_groups (if take 1 r = [95] then tl r else r)
          else hex_groups s
      | _ \<Rightarrow> hex_groups s)"

definition python_int16 :: "pystr \<Rightarrow> int option" where
  "python_int16 s =
     (case py_strip (map decimal_char s) of
        [] \<Rightarrow> None
      | c # r \<Rightarrow> if c = 45 then map_option (\<lambda>n. - int n) (hex_unsigned r)
                 else map_option int (hex_unsigned (if c = 43 then r else c # r)))"

text \<open>\<open>None\<close> is the \<^verbatim>\<open>ValueError\<close> of a badly formed text.\<close>

definition uuid_value :: "pystr \<Rightarrow> nat option" where
  "uuid_value s =
     (let h = drop_all (str ''-'') (strip_braces (drop_all (str ''uuid:'') (drop_all (str ''urn:'') s)))
      in if length h \<noteq> 32 then None
         else case python_int16 h of
                None \<Rightarrow> None
              | Some n \<Rightarrow> if 0 \<le> n \<and> n < 2 ^ 128 then Some (nat n) else None)"

lemma uuid_spellings:
  "uuid_value (str ''01890a5d-ac96-774b-bcce-b302099a8057'') = Some 0x01890a5dac96774bbcceb302099a8057"
  "uuid_value (str ''urn:uuid:{01890A5D-AC96-774B-BCCE-B302099A8057}'') = Some 0x01890a5dac96774bbcceb302099a8057"
  "uuid_value (str ''01890a5d-ac96-774b-bcce-b302099a80'') = None"
  by code_simp+

section \<open>Decimal texts\<close>

text \<open>
  Whether \<open>Decimal(text)\<close> is a value: surrounding white space and every underscore are dropped, digits of
  any script count; the value must be exact within the largest exponents.  Otherwise the constructor
  raises \<^verbatim>\<open>InvalidOperation\<close>.
\<close>

definition ascii_lower :: "pystr \<Rightarrow> pystr" where
  "ascii_lower s = map (\<lambda>c. if 65 \<le> c \<and> c \<le> 90 then c + 32 else c) s"

definition max_emax :: int where "max_emax = 999999999999999999"

definition min_etiny :: int where "min_etiny = -1999999999999999997"

definition unsign :: "pystr \<Rightarrow> pystr" where
  "unsign s = (case s of c # r \<Rightarrow> if c = 43 \<or> c = 45 then r else s | [] \<Rightarrow> [])"

definition finite_decimal :: "pystr \<Rightarrow> bool" where
  "finite_decimal s =
     (let whole = takeWhile is_digit s; after = dropWhile is_digit s;
          point = (take 1 after = [46]);
          fraction = (if point then takeWhile is_digit (tl after) else []);
          rest = (if point then dropWhile is_digit (tl after) else after);
          significant = dropWhile (\<lambda>c. c = 48) (whole @ fraction);
          fits = (\<lambda>e. let x = e - int (length fraction)
                      in min_etiny \<le> x \<and> x + max 0 (int (length significant) - 1) \<le> max_emax)
      in whole @ fraction \<noteq> [] \<and>
         (case rest of
            [] \<Rightarrow> fits 0
          | c # r \<Rightarrow> c = 101 \<and> unsign r \<noteq> [] \<and> list_all is_digit (unsign r)
              \<and> fits ((if r \<noteq> [] \<and> hd r = 45 then -1 else 1) * int (digits_value 0 (unsign r)))))"

definition decimal_text :: "pystr \<Rightarrow> bool" where
  "decimal_text s =
     (let t = unsign (ascii_lower (map decimal_char (filter (\<lambda>c. c \<noteq> 95) (py_strip s))))
      in t = str ''inf'' \<or> t = str ''infinity''
         \<or> take 3 t = str ''nan'' \<and> list_all is_digit (drop 3 t)
         \<or> take 4 t = str ''snan'' \<and> list_all is_digit (drop 4 t)
         \<or> finite_decimal t)"

lemma decimal_text_examples:
  "decimal_text (str ''0.5000'')" "decimal_text (str '' -1_0.e+3 '')" "decimal_text (str ''NaN12'')"
  "\<not> decimal_text (str ''.'')" "\<not> decimal_text (str ''1.2.3'')" "\<not> decimal_text (str ''1e'')"
  by code_simp+

section \<open>Padded base64\<close>

text \<open>
  \<open>b64decode(s + "=" * (-len(s) % 4), altchars=b"-_", validate=True)\<close>: both alphabets are read, the
  padding may be present in part, nothing may follow it.
\<close>

definition b64_any_value :: "nat \<Rightarrow> nat option" where
  "b64_any_value c = (if c = 43 then Some 62 else if c = 47 then Some 63 else b64_value c)"

definition b64_padded_decode :: "pystr \<Rightarrow> bytes option" where
  "b64_padded_decode s =
     (let core = takeWhile (\<lambda>c. c \<noteq> 61) s;
          pads = length s - length core + (4 - length s mod 4) mod 4
      in if \<not> list_all (\<lambda>c. c = 61) (drop (length core) s) \<or> 2 < pads
            \<or> list_ex (\<lambda>c. b64_any_value c = None) core then None
         else b64_bytes (map (\<lambda>c. the (b64_any_value c)) core))"

lemma b64_padded_decode_examples:
  "b64_padded_decode (str ''QUI'') = Some [65, 66]" "b64_padded_decode (str ''QQ=='') = Some [65]"
  "b64_padded_decode (str ''Q'') = None" "b64_padded_decode (str ''Q=QQ'') = None"
  by code_simp+

lemma b64_bytes_single: "length vs mod 4 = 1 \<Longrightarrow> b64_bytes vs = None"
  by (induction vs rule: b64_bytes.induct) auto

text \<open>It extends the strict reader of the signatures.\<close>

lemma b64_padded_decode_strict:
  assumes "decode_base64url (Some (PStr s)) n = Some bs"
  shows "b64_padded_decode s = Some bs"
proof -
  have ok: "list_all (\<lambda>c. b64_value c \<noteq> None) s" "b64_bytes (map (\<lambda>c. the (b64_value c)) s) = Some bs"
    using assms by (auto simp: decode_base64url_def list_all_iff list_ex_iff split: if_splits option.splits)
  have any: "b64_any_value c = b64_value c \<and> c \<noteq> 61" if "c \<in> set s" for c
    using ok(1) that by (fastforce simp: b64_any_value_def b64_value_def list_all_iff)
  then have core: "takeWhile (\<lambda>c. c \<noteq> 61) s = s" by simp
  have "length s mod 4 \<noteq> 1"
    using ok(2) b64_bytes_single [of "map (\<lambda>c. the (b64_value c)) s"] by auto
  then have "(4 - length s mod 4) mod 4 \<le> 2"
    using mod_less_divisor [of 4 "length s"] by (cases "length s mod 4 = 0") auto
  moreover have "\<not> list_ex (\<lambda>c. b64_any_value c = None) s"
    using ok(1) any by (auto simp: list_ex_iff list_all_iff)
  moreover have eq: "map (\<lambda>c. the (b64_any_value c)) s = map (\<lambda>c. the (b64_value c)) s"
    using any by simp
  ultimately show ?thesis using ok(2) unfolding b64_padded_decode_def core Let_def eq by simp
qed

end
