(* ===== verification/Signed_Wire.thy ===== *)
theory Signed_Wire
  imports Receipts
begin

text \<open>
  A record that was built from validated members and then signed is received: its canonical bytes parse,
  and the record read back carries the same proof, verifying under the same key.
\<close>

lemma record_of_members [simp]: "record_of (record_members r) = r"
proof (cases r)
  case (fields a b c d e f g h i j k l)
  have "member (clocks_members j') ''source_time'' = Some (PStr (source_time j'))"
    "member (clocks_members j') ''authoritative_time'' = map_option PStr (authoritative_time j')" for j'
    by (simp_all add: clocks_members_def member_Cons split: option.split)
  moreover have "opt_str_of (map_option PStr v) = v" "opt_str_of (Some (opt_str v)) = v" for v
    by (cases v; simp add: opt_str_of_def opt_str_def)+
  ultimately show ?thesis
    by (simp add: record_of_def member_record_members str_of_def int_of_val_def dict_of_def fields)
qed

lemma clocks_of_valid:
  assumes "model_ok ClocksModel e"
  shows "model_ok ClocksModel (clocks_members \<lparr>source_time = str_of (member e ''source_time''),
      authoritative_time = opt_str_of (member e ''authoritative_time'')\<rparr>)"
    "assert_json_value (PDict (clocks_members \<lparr>source_time = str_of (member e ''source_time''),
      authoritative_time = opt_str_of (member e ''authoritative_time'')\<rparr>))"
proof -
  let ?c = "clocks_members \<lparr>source_time = str_of (member e ''source_time''),
      authoritative_time = opt_str_of (member e ''authoritative_time'')\<rparr>"
  have s: "member e ''source_time'' = Some (PStr (str_of (member e ''source_time'')))"
    by (rule required_str [OF assms, of _ TTimestamp]) (simp_all add: ClocksModel_def closed_model_def)
  have a: "member e ''authoritative_time'' = map_option PStr (opt_str_of (member e ''authoritative_time''))"
    by (rule optional_str [OF assms, of _ TTimestamp]) (simp_all add: ClocksModel_def closed_model_def)
  have json: "assert_json_value (PDict e)" using assms by (simp add: model_ok_def)
  obtain v where v: "member e ''source_time'' = Some v" "conforms TTimestamp v"
    by (rule model_ok_required [OF assms, of "''source_time''" TTimestamp]) (simp_all add: ClocksModel_def closed_model_def)
  then have ts: "timestamp_ok (str_of (member e ''source_time''))" using s by (auto simp: str_of_def split: pyval.splits)
  have ta: "timestamp_ok t" if "opt_str_of (member e ''authoritative_time'') = Some t" for t
  proof -
    have m: "member e ''authoritative_time'' = Some (PStr t)" using a that by simp
    have "case member e ''authoritative_time'' of None \<Rightarrow> True | Some v \<Rightarrow> conforms TTimestamp v"
      using assms unfolding model_ok_def ClocksModel_def closed_model_def by simp
    then show ?thesis using m by simp
  qed
  have js: "assert_json_value (PStr (str_of (member e ''source_time'')))" by (rule assert_json_value_member [OF json s])
  have ja: "assert_json_value (PStr t)" if "opt_str_of (member e ''authoritative_time'') = Some t" for t
    using assert_json_value_member [OF json, of "''authoritative_time''"] a that by simp
  show json': "assert_json_value (PDict ?c)"
    using js ja by (auto simp: clocks_members_def split: option.split)
  show "model_ok ClocksModel ?c"
    using json' ts ta unfolding model_ok_def ClocksModel_def closed_model_def
    by (cases "opt_str_of (member e ''authoritative_time'')") (simp_all add: clocks_members_def member_Cons)
qed

lemma envelope_table:
  "map fst (ms_required (RecordEnvelope t)) = envelope_fields" "ms_presence_optional (RecordEnvelope t) = []"
  "\<not> ms_extra_allowed (RecordEnvelope t)"
  "list_all (\<lambda>(n, ty). (n = ''clocks'' \<longrightarrow> ty = TModel) \<and> (n = ''signature'' \<longrightarrow> ty = TObject))
     (ms_required (RecordEnvelope t))"
  by (simp_all add: RecordEnvelope_def closed_model_def envelope_fields_def)

lemma record_members_same:
  assumes "record_ok t m d" and "n \<in> set envelope_fields" "n \<noteq> ''clocks''" "n \<noteq> ''signature''"
  shows "member (record_members ((record_of d)\<lparr>signature := sg\<rparr>)) n = member d n"
proof -
  note d = record_ok_members [OF assms(1)] and e = member_record_members [of "(record_of d)\<lparr>signature := sg\<rparr>"]
  from assms(2-) show ?thesis
    unfolding envelope_fields_def list.set
    by (elim insertE emptyE) (simp_all add: e d(1-9,11))
qed

text \<open>Replacing the proof of a validated record by another JSON object keeps it valid.\<close>

lemma validated_with_signature:
  assumes v: "validate_record d = Inr u" and json: "assert_json_value (PDict sg)" and port: "portable (PDict sg)"
  shows "validate_record (record_members (u\<lparr>signature := sg\<rparr>)) = Inr (u\<lparr>signature := sg\<rparr>)"
proof -
  obtain t m where type: "member d ''record_type'' = Some (PStr t)" and spec: "body_spec t = Some m"
    and ok: "record_ok t m d" and u: "u = record_of d"
    using validate_record_Inr [OF v] by metis
  let ?r = "u\<lparr>signature := sg\<rparr>"
  let ?e = "record_members ?r"
  note d = record_ok_members [OF ok, folded u] and e = member_record_members [of ?r, simplified]
  have clocks: "model_ok ClocksModel (dict_of (member d ''clocks''))" and env: "model_ok (RecordEnvelope t) d"
    and bd: "body_ok t m (body u)"
    using ok d(11) by (simp_all add: record_ok_def)
  have rc: "record_clocks u = \<lparr>source_time = str_of (member (dict_of (member d ''clocks'')) ''source_time''),
      authoritative_time = opt_str_of (member (dict_of (member d ''clocks'')) ''authoritative_time'')\<rparr>"
    by (simp add: u record_of_def Let_def)
  have same: "member ?e n = member d n" if "n \<in> set envelope_fields - {''clocks'', ''signature''}" for n
    using record_members_same [OF ok] that unfolding u by simp
  have cl: "model_ok ClocksModel (clocks_members (record_clocks u))"
    "assert_json_value (PDict (clocks_members (record_clocks u)))"
    unfolding rc using clocks_of_valid [OF clocks] by blast+
  have mem: "assert_json_value v" if "member ?e n = Some v" "n \<in> set envelope_fields" for n v
  proof (cases "n \<in> {''clocks'', ''signature''}")
    case True
    then show ?thesis using that(1) e(10,12) cl(2) json by auto
  next
    case False
    then have "member d n = Some v" using same that by simp
    then show ?thesis using env by (auto simp: model_ok_def intro: assert_json_value_member)
  qed
  have "assert_json_value (PDict ?e)"
  proof -
    have "fst kv \<noteq> KNonStr \<and> assert_json_value (snd kv)" if "kv \<in> set ?e" for kv
    proof -
      have "fst kv \<in> KStr ` str ` set envelope_fields"
        using that named_record_members [of ?r] unfolding named_by_def by blast
      then obtain n where n: "fst kv = KStr (str n)" "n \<in> set envelope_fields" by auto
      have "member ?e n = Some (snd kv)"
        using that n(1) distinct_record_members [of ?r] by (metis map_of_is_SomeI member_def prod.collapse)
      then show ?thesis using mem n by auto
    qed
    then show ?thesis by (simp add: list_all_iff)
  qed
  have "model_ok (RecordEnvelope t) ?e"
    unfolding model_ok_def
  proof (intro conjI disjI2)
    show "assert_json_value (PDict ?e)" by fact
    have "case member ?e n of None \<Rightarrow> False | Some v \<Rightarrow> conforms ty v"
      if nt: "(n, ty) \<in> set (ms_required (RecordEnvelope t))" for n ty
    proof -
      obtain v where v: "member d n = Some v" "conforms ty v" by (rule model_ok_required [OF env nt])
      have "n \<in> set envelope_fields" using nt envelope_table(1) [of t] by (metis image_eqI fst_conv set_map)
      then consider "n \<in> set envelope_fields - {''clocks'', ''signature''}"
        | "n = ''clocks''" "ty = TModel" | "n = ''signature''" "ty = TObject"
        using nt envelope_table(4) [of t] by (fastforce simp: list_all_iff)
      then show ?thesis
      proof cases
        case 1
        then show ?thesis using v same [OF 1] by simp
      qed (use e(10,12) port in simp_all)
    qed
    then show "list_all (\<lambda>(n, t). case member ?e n of None \<Rightarrow> False | Some v \<Rightarrow> conforms t v)
        (ms_required (RecordEnvelope t))" by (auto simp: list_all_iff)
    have keys: "fst ` set (ms_required (RecordEnvelope t) @ ms_presence_optional (RecordEnvelope t)) = set envelope_fields"
      using arg_cong [OF envelope_table(1) [of t], of set] by (simp add: envelope_table(2))
    show "list_all (\<lambda>kv. fst kv \<in> KStr ` str ` fst ` set (ms_required (RecordEnvelope t)
        @ ms_presence_optional (RecordEnvelope t))) ?e"
      using named_record_members [of ?r] unfolding keys by (auto simp: list_all_iff named_by_def)
  qed (simp_all add: envelope_table)
  moreover have "dict_of (member ?e ''clocks'') = clocks_members (record_clocks u)" using e(10) by (simp add: dict_of_def)
  ultimately have "record_ok t m ?e" using cl(1) bd e(11) by (simp add: record_ok_def)
  moreover have "member ?e ''record_type'' = Some (PStr t)" using e(2) d(2) type by simp
  ultimately show ?thesis
    using spec named_by_checks [OF named_record_members] by (simp add: validate_record_def)
qed

section \<open>The record read back\<close>

lemma norm_value_idem: "norm_value (norm_value v) = norm_value v"
proof (induction v rule: pyval_induct)
  case (PDict d)
  have eq: "map (\<lambda>kv. (fst kv, norm_value (norm_value (snd kv)))) (sort_key item_key d)
      = map (\<lambda>kv. (fst kv, norm_value (snd kv))) (sort_key item_key d)"
    using PDict by (auto simp: list_all_iff)
  show ?case by (simp add: norm_items comp_def sort_key_idem eq)
qed (simp_all add: list_all_iff)

lemma norm_record:
  assumes "wf_value (PDict (record_members r))"
  shows "record_of (norm_dict (record_members r)) = r\<lparr>source := norm_dict (source r), body := norm_dict (body r),
    signature := norm_dict (signature r)\<rparr>"
proof -
  have wf: "wf_value (PDict (clocks_members (record_clocks r)))"
    by (rule wf_value_member [OF assms member_record_members(10)])
  have "member (norm_dict (clocks_members j)) n = map_option norm_value (member (clocks_members j) n)"
    if "j = record_clocks r" for j n
    using member_norm_dict [OF wf] that by simp
  moreover have "member (clocks_members j) ''source_time'' = Some (PStr (source_time j))"
    "member (clocks_members j) ''authoritative_time'' = map_option PStr (authoritative_time j)" for j
    by (simp_all add: clocks_members_def member_Cons split: option.split)
  moreover have "opt_str_of (map_option (norm_value \<circ> PStr) v) = v" "opt_str_of (Some (opt_str v)) = v" for v
    by (cases v; simp add: opt_str_of_def opt_str_def)+
  ultimately show ?thesis
    by (simp add: record_of_def member_norm_dict [OF assms] member_record_members norm_value_PDict
        str_of_def int_of_val_def dict_of_def option.map_comp Let_def del: norm_value.simps(2))
qed

lemma norm_dict_idem: "norm_value (PDict (norm_dict d)) = norm_value (PDict d)"
  using norm_value_idem [of "PDict d"] by (simp only: norm_value_PDict)

lemma record_signing_bytes_norm:
  "record_signing_bytes (r\<lparr>source := norm_dict (source r), body := norm_dict (body r), signature := s\<rparr>)
    = record_signing_bytes r"
proof -
  let ?r = "r\<lparr>source := norm_dict (source r), body := norm_dict (body r), signature := s\<rparr>"
  have "map (\<lambda>kv. (fst kv, norm_value (snd kv))) (unsigned_mapping ?r)
      = map (\<lambda>kv. (fst kv, norm_value (snd kv))) (unsigned_mapping r)"
    by (simp add: unsigned_mapping_def norm_dict_idem del: norm_value.simps(2))
  then have "norm_value (PDict (unsigned_mapping ?r)) = norm_value (PDict (unsigned_mapping r))" by simp
  then have "serialize (PDict (unsigned_mapping ?r)) = serialize (PDict (unsigned_mapping r))"
    by (metis serialize_norm_value)
  then show ?thesis by (simp only: record_signing_bytes_def canonicalize_def)
qed

lemma validate_signature_members_cong:
  assumes "record_type r = record_type r'" "tenant_id r = tenant_id r'" "stream_id r = stream_id r'"
  shows "validate_signature_members r sg = validate_signature_members r' sg"
  unfolding validate_signature_members_def validate_continuity_members_def assms ..

lemma norm_signature_object: "norm_dict (signature_object k p d) = signature_object k p d"
proof -
  have "sorted (map (\<lambda>n. item_key (KStr (str n), PNone)) [''alg'', ''key_id'', ''sig'', ''signed_digest''])"
    by code_simp
  then have "sorted (map item_key (map (\<lambda>kv. (fst kv, norm_value (snd kv))) (signature_object k p d)))"
    by (simp add: signature_object_def item_key_def)
  then show ?thesis unfolding norm_dict_def by (simp add: sort_key_id) (simp add: signature_object_def)
qed

lemma signed_record_received:
  assumes v: "validate_record (record_members r) = Inr r" and wf: "wf_value (PDict (record_members r))"
    and auth: "authenticated c reg r k" and type: "record_type r \<noteq> str ''AttestationWindow''"
    and sig: "norm_dict (signature r) = signature r" and raw: "serialize_record r = Inr raw"
  shows "verify_canonical_evidence_record c other raw reg
    = Inr (r\<lparr>source := norm_dict (source r), body := norm_dict (body r)\<rparr>)"
proof -
  let ?d = "norm_dict (record_members r)"
  let ?r = "r\<lparr>source := norm_dict (source r), body := norm_dict (body r)\<rparr>"
  have r': "record_of ?d = ?r" using norm_record [OF wf] sig by simp
  obtain r'' where "validate_record ?d = Inr r''" using validate_record_norm [OF v wf] by blast
  then have valid: "validate_record ?d = Inr ?r" using r' by (metis validate_record_Inr)
  have "json_loads other raw = Inr (PDict ?d)"
    using json_loads_canonical [OF raw [unfolded serialize_record_def] wf] by (simp only: norm_value_PDict)
  then have parse: "parse_record other raw = Inr ?r" using valid by (simp add: parse_record_def)
  have "wf_value (PDict ?d)" using wf_value_norm [OF wf] by (simp only: norm_value_PDict)
  from serialize_validated [OF valid this]
  have bytes: "serialize_record ?r = Inr raw"
    using raw serialize_norm_value [of "PDict (record_members r)"]
    by (simp only: serialize_record_def canonicalize_def norm_value_PDict)
  have sb: "record_signing_bytes ?r = record_signing_bytes r"
    using record_signing_bytes_norm [where r = r and s = "signature r"] by simp
  have "validate_signature_members ?r = validate_signature_members r"
    by (intro ext validate_signature_members_cong) simp_all
  then have "authenticated c reg ?r k"
    using auth sb by (simp add: authenticated_def verify_record_signature_eq)
  then show ?thesis using parse bytes type by (auto simp: verify_canonical_evidence_record_Inr)
qed

lemma portable_assert_json: "portable v \<Longrightarrow> assert_json_value v"
  by (induction v rule: pyval_induct) (auto simp: list_all_iff)

text \<open>The record that signing makes of validated members is such a record.\<close>

lemma sign_record_valid:
  assumes v: "validate_record d = Inr u" and s: "sign_record c u key_id sk None = Inr r"
    and key: "wf_str key_id" "list_all (\<lambda>x. \<not> is_surrogate x) key_id" and c: "crypto_ok c"
  shows "validate_record (record_members r) = Inr r" "norm_dict (signature r) = signature r"
proof -
  obtain p b where r: "r = u\<lparr>signature := signature_object key_id p (digest_text (sha256 c) b)\<rparr>" "byte_string p"
    using s by (rule sign_record_Inr) (use crypto_okD(4) [OF c] in auto)
  have port: "portable (PDict (signature_object key_id p (digest_text (sha256 c) b)))"
    using key by (intro signature_object_value r(2) digest_text_ascii crypto_okD(2) [OF c]) simp_all
  show "norm_dict (signature r) = signature r" by (simp add: r norm_signature_object)
  show "validate_record (record_members r) = Inr r"
    unfolding r(1) by (rule validated_with_signature [OF v portable_assert_json [OF port] port])
qed

lemma str_of_norm [simp]:
  "str_of (map_option norm_value v) = str_of v" "opt_str_of (map_option norm_value v) = opt_str_of v"
  by (auto simp: str_of_def opt_str_of_def split: option.split pyval.split)

lemma map_of_public_keys: "map_of (public_keys_of reg) k = map_option rk_public_key (map_of reg k)"
  by (induction reg) (auto simp: public_keys_of_def)

text \<open>A key that verifies a record alone verifies it in every registry that holds it.\<close>

lemma authenticated_wider:
  assumes "verify_record_origin_signature c r [(k, x)] None = Inr k" and "map_of reg k = Some x"
  shows "authenticated c reg r k"
proof -
  have ns: "primary_signer_namespace (record_type r) = Some (rk_namespace x)"
    and v: "verify_record_signature c r (public_keys_of [(k, x)]) = Inr k"
    using assms(1) by (auto simp: verify_record_origin_signature_def result_simps split: option.splits if_splits)
  have "map_of (public_keys_of reg) k = Some (rk_public_key x)"
    using assms(2) by (simp add: map_of_public_keys)
  then have "verify_record_signature c r (public_keys_of reg) = Inr k"
    using v unfolding verify_record_signature_eq
    by (auto simp: result_simps Let_def map_of_public_keys split: if_splits)
  then show ?thesis using ns assms(2) by (simp add: authenticated_def)
qed

lemma signer_key_text:
  assumes "sign_record c u k sk None = Inr r" and "wf_value (PDict (record_members r))"
    and "serialize_record r = Inr raw"
  shows "wf_str k" "list_all (\<lambda>x. \<not> is_surrogate x) k"
proof -
  have key: "member (signature r) ''key_id'' = Some (PStr k)"
    by (rule sign_record_Inr [OF assms(1)]) (simp add: member_signature_object)
  have "wf_value (PDict (signature r))" using wf_value_member [OF assms(2) member_record_members(12)] .
  from wf_value_member [OF this key] show "wf_str k" by simp
  have "\<exists>s. serialize (PDict (record_members r)) = Inr s"
    using assms(3) unfolding serialize_record_def canonicalize_def rbind_eq_Inr by blast
  then have "portable (PDict (record_members r))" unfolding serialize_ok_iff .
  then have "assert_json_value (PDict (signature r))"
    using assert_json_value_member [OF portable_assert_json member_record_members(12)] by blast
  from assert_json_value_member [OF this key] show "list_all (\<lambda>x. \<not> is_surrogate x) k" by simp
qed

text \<open>Only the key that a proof names matters.\<close>

lemma verify_record_signature_key:
  assumes "verify_record_signature c r ks = Inr k" and "map_of ks' k = map_of ks k"
  shows "verify_record_signature c r ks' = Inr k"
  using assms unfolding verify_record_signature_eq
  by (auto simp: result_simps Let_def split: if_splits)

lemma verify_attestation_counter_signature_key:
  assumes "verify_attestation_counter_signature c r ks = Inr k" and "map_of ks' k = map_of ks k"
  shows "verify_attestation_counter_signature c r ks' = Inr k"
  using assms unfolding verify_attestation_counter_signature_def
  by (auto simp: result_simps Let_def split: if_splits option.splits pyval.splits)

lemma serialize_record_nonempty:
  assumes "serialize_record r = Inr raw"
  shows "raw \<noteq> []"
proof -
  obtain s where s: "serialize (PDict (record_members r)) = Inr s" "raw = utf8 s"
    using assms unfolding serialize_record_def canonicalize_def rbind_eq_Inr by blast
  then obtain t where "s = 123 # t" unfolding serialize_PDict_iff by blast
  then show ?thesis using s(2) by (simp add: utf8_def utf8_char_def)
qed

end
