(* ===== verification/Lifecycle.thy ===== *)
theory Lifecycle
  imports Trust Revocations Py_Parsing
begin

text \<open>
  \<^verbatim>\<open>services/attestation/lifecycle.py\<close> over the relations of \<^verbatim>\<open>services/attestation/schema.py\<close>: issued
  attestations, their revocation and supersession, the notices to relying parties and the derived
  status.  A relation is the list of its rows in the order of their insertion; a transaction that
  fails leaves the database as it was.  UUID columns hold numbers, instants are microseconds since
  the epoch.  The identifier and the clock reading of every new row are arguments.
\<close>

section \<open>Relations\<close>

record attestation_row =
  at_attestation_id :: nat
  at_tenant_id :: pystr
  at_boundary_ref :: pystr
  at_stream_id :: pystr
  at_sequence :: int
  at_window_start :: int
  at_window_end :: int
  at_methodology_version :: pystr
  at_denominator_class :: pystr
  at_coverage_level :: pystr
  at_capped_by_class :: "pyval option"
  at_verification_status :: pystr
  at_coverage_ratio :: "pystr option"
  at_counts :: "pyval option"
  at_assertions :: "pyval option"
  at_exclusions :: "pyval option"
  at_population_record_refs :: "pyval option"
  at_relying_parties :: "pyval option"
  at_purpose :: "pyval option"
  at_validity_from :: int
  at_validity_until :: int
  at_liability_ref :: pystr
  at_evidence_key_id :: pystr
  at_customer_signature :: bytes
  at_issuer_key_id :: pystr
  at_signature :: bytes
  at_canonical_bytes :: bytes
  at_issued_at :: int

datatype notification_status = PENDING | NOTIFIED | FAILED

record revocation_row =
  rv_revocation_id :: nat
  rv_tenant_id :: pystr
  rv_attestation_id :: nat
  rv_superseding_attestation_id :: "nat option"
  rv_stream_id :: pystr
  rv_sequence :: int
  rv_prev_digest :: "bytes option"
  rv_reason :: pystr
  rv_effective_at :: int
  rv_notified_at :: "int option"
  rv_notification_status :: notification_status
  rv_issuer_key_id :: pystr
  rv_signature :: bytes
  rv_canonical_bytes :: bytes
  rv_recorded_at :: int

record lifecycle_db =
  db_keys :: "key_row list"
  db_boundaries :: "(pystr \<times> pystr) list"
  db_attestations :: "attestation_row list"
  db_revocations :: "revocation_row list"

datatype lifecycle_error =
    AttestationLifecycleError
  | LcRecord record_error
  | LcSignature sig_error
  | LcReceipt receipt_error
  | LcCanonical canon_error
  | LcValueError
  | LcInvalidOperation
  | LcDatabase

definition has_key :: "key_row list \<Rightarrow> pystr \<Rightarrow> pystr \<Rightarrow> key_namespace \<Rightarrow> bool" where
  "has_key keys tenant key_id ns \<longleftrightarrow>
     list_ex (\<lambda>k. kr_tenant_id k = tenant \<and> kr_key_id k = key_id \<and> kr_namespace k = ns) keys"

text \<open>The constraints of \<^verbatim>\<open>attestations\<close>.\<close>

definition insert_attestation :: "lifecycle_db \<Rightarrow> attestation_row \<Rightarrow> lifecycle_error + lifecycle_db" where
  "insert_attestation db row =
     (if list_ex (\<lambda>a. at_attestation_id a = at_attestation_id row) (db_attestations db)
         \<or> list_ex (\<lambda>a. at_tenant_id a = at_tenant_id row \<and> at_stream_id a = at_stream_id row
              \<and> at_sequence a = at_sequence row) (db_attestations db)
         \<or> (at_tenant_id row, at_boundary_ref row) \<notin> set (db_boundaries db)
         \<or> \<not> has_key (db_keys db) (at_tenant_id row) (at_evidence_key_id row) Evidence
         \<or> \<not> has_key (db_keys db) (at_tenant_id row) (at_issuer_key_id row) Issuer
         \<or> length (at_customer_signature row) \<noteq> 64 \<or> length (at_signature row) \<noteq> 64
         \<or> at_canonical_bytes row = [] \<or> at_sequence row < 1
         \<or> at_window_end row \<le> at_window_start row \<or> at_validity_until row \<le> at_validity_from row
         \<or> at_verification_status row \<notin> {str ''self_computed'', str ''independently_reproduced''}
      then Inl LcDatabase
      else Inr (db\<lparr>db_attestations := db_attestations db @ [row]\<rparr>))"

definition find_attestation :: "lifecycle_db \<Rightarrow> pystr \<Rightarrow> nat \<Rightarrow> attestation_row option" where
  "find_attestation db tenant i = find (\<lambda>a. at_tenant_id a = tenant \<and> at_attestation_id a = i) (db_attestations db)"

definition revocations_of :: "lifecycle_db \<Rightarrow> pystr \<Rightarrow> nat \<Rightarrow> revocation_row list" where
  "revocations_of db tenant i =
     filter (\<lambda>r. rv_tenant_id r = tenant \<and> rv_attestation_id r = i) (db_revocations db)"

definition REVOCATION_REASONS :: "pystr list" where
  "REVOCATION_REASONS = map str [''discovered_computation_defect'', ''evidence_integrity_failure'',
     ''qualification_invalid'', ''customer_misrepresentation'', ''late_evidence'']"

text \<open>What a lifecycle row says: the trigger admits one such transition per attestation.\<close>

definition transition_of :: "revocation_row \<Rightarrow> pystr \<times> int \<times> nat option" where
  "transition_of r = (rv_reason r, rv_effective_at r, rv_superseding_attestation_id r)"

definition validate_attestation_lifecycle_transition :: "lifecycle_db \<Rightarrow> revocation_row \<Rightarrow> bool" where
  "validate_attestation_lifecycle_transition db new =
     (case find_attestation db (rv_tenant_id new) (rv_attestation_id new) of
        None \<Rightarrow> False
      | Some original \<Rightarrow>
          (case rv_superseding_attestation_id new of
             None \<Rightarrow> True
           | Some s \<Rightarrow>
               s \<noteq> rv_attestation_id new \<and>
               (case find_attestation db (rv_tenant_id new) s of
                  None \<Rightarrow> False
                | Some replacement \<Rightarrow>
                    at_boundary_ref replacement = at_boundary_ref original
                    \<and> at_window_start replacement = at_window_start original
                    \<and> at_window_end replacement = at_window_end original))
          \<and> list_all (\<lambda>r. transition_of r = transition_of new)
              (revocations_of db (rv_tenant_id new) (rv_attestation_id new)))"

text \<open>The constraints of \<^verbatim>\<open>revocations\<close>; the foreign keys to attestations are part of the trigger.\<close>

definition insert_revocation :: "lifecycle_db \<Rightarrow> revocation_row \<Rightarrow> lifecycle_error + lifecycle_db" where
  "insert_revocation db row =
     (if \<not> validate_attestation_lifecycle_transition db row
         \<or> list_ex (\<lambda>r. rv_revocation_id r = rv_revocation_id row) (db_revocations db)
         \<or> list_ex (\<lambda>r. rv_tenant_id r = rv_tenant_id row \<and> rv_stream_id r = rv_stream_id row
              \<and> rv_sequence r = rv_sequence row) (db_revocations db)
         \<or> \<not> has_key (db_keys db) (rv_tenant_id row) (rv_issuer_key_id row) Issuer
         \<or> length (rv_signature row) \<noteq> 64 \<or> rv_canonical_bytes row = [] \<or> rv_sequence row < 1
         \<or> (case rv_prev_digest row of None \<Rightarrow> False | Some d \<Rightarrow> length d \<noteq> 32)
         \<or> rv_reason row \<notin> set REVOCATION_REASONS
         \<or> (rv_superseding_attestation_id row \<noteq> None) \<noteq> (rv_reason row = str ''late_evidence'')
         \<or> (rv_notification_status row = NOTIFIED) \<noteq> (rv_notified_at row \<noteq> None)
      then Inl LcDatabase
      else Inr (db\<lparr>db_revocations := db_revocations db @ [row]\<rparr>))"

section \<open>Signers\<close>

text \<open>\<^verbatim>\<open>SignatureError\<close> and its subclasses are caught and refused; other exceptions pass.\<close>

definition lc_refused :: "sig_error + 'a \<Rightarrow> lifecycle_error + 'a" where
  "lc_refused m =
     (case m of
        Inr x \<Rightarrow> Inr x
      | Inl CompareTypeError \<Rightarrow> Inl (LcSignature CompareTypeError)
      | Inl (RecordNotCanonical e) \<Rightarrow> Inl (LcSignature (RecordNotCanonical e))
      | Inl _ \<Rightarrow> Inl AttestationLifecycleError)"

definition lc_origin :: "receipt_error + 'a \<Rightarrow> lifecycle_error + 'a" where
  "lc_origin m =
     (case m of
        Inr x \<Rightarrow> Inr x
      | Inl (SignatureRefused e) \<Rightarrow> lc_refused (Inl e)
      | Inl e \<Rightarrow> Inl (LcReceipt e))"

definition lc_lift :: "('e \<Rightarrow> lifecycle_error) \<Rightarrow> 'e + 'a \<Rightarrow> lifecycle_error + 'a" where
  "lc_lift f m = (case m of Inl e \<Rightarrow> Inl (f e) | Inr x \<Rightarrow> Inr x)"

definition lc_some :: "lifecycle_error \<Rightarrow> 'a option \<Rightarrow> lifecycle_error + 'a" where
  "lc_some e m = (case m of None \<Rightarrow> Inl e | Some x \<Rightarrow> Inr x)"

definition signature_member :: "pyval option \<Rightarrow> lifecycle_error + pydict" where
  "signature_member v = (case v of Some (PDict d) \<Rightarrow> Inr d | _ \<Rightarrow> Inl AttestationLifecycleError)"

definition key_id_of :: "pydict \<Rightarrow> lifecycle_error + pystr" where
  "key_id_of sg =
     (case member sg ''key_id'' of
        Some (PStr s) \<Rightarrow> if s = [] then Inl AttestationLifecycleError else Inr s
      | _ \<Rightarrow> Inl AttestationLifecycleError)"

text \<open>\<open>b64decode\<close> with the padding restored and every character checked.\<close>

definition proof_bytes :: "pydict \<Rightarrow> lifecycle_error + bytes" where
  "proof_bytes sg =
     (case member sg ''sig'' of
        Some (PStr s) \<Rightarrow> lc_some AttestationLifecycleError (b64_padded_decode s)
      | _ \<Rightarrow> Inl AttestationLifecycleError)"

definition lifecycle_key ::
    "(bytes \<Rightarrow> 'pk option) \<Rightarrow> key_row list \<Rightarrow> pystr \<Rightarrow> pystr \<Rightarrow> key_namespace \<Rightarrow> lifecycle_error + 'pk" where
  "lifecycle_key load keys tenant key_id ns =
     (case find_key keys (\<lambda>k. kr_tenant_id k = tenant \<and> kr_namespace k = ns) key_id of
        None \<Rightarrow> Inl AttestationLifecycleError
      | Some row \<Rightarrow> lc_some AttestationLifecycleError (load (kr_public_key row)))"

definition attestation_signers ::
    "('sk, 'pk) crypto \<Rightarrow> (bytes \<Rightarrow> 'pk option) \<Rightarrow> key_row list \<Rightarrow> evidence_record
     \<Rightarrow> lifecycle_error + pystr \<times> pystr \<times> bytes \<times> bytes" where
  "attestation_signers c load keys r =
     rbind (signature_member (member (signature r) ''issuer'')) (\<lambda>issuer.
     rbind (key_id_of (signature r)) (\<lambda>customer_key_id.
     rbind (key_id_of issuer) (\<lambda>issuer_key_id.
     rbind (lifecycle_key load keys (tenant_id r) customer_key_id Evidence) (\<lambda>customer_key.
     rbind (lifecycle_key load keys (tenant_id r) issuer_key_id Issuer) (\<lambda>issuer_key.
     rbind (lc_refused (verify_attestation_signatures c r [(customer_key_id, customer_key)]
              [(issuer_key_id, issuer_key)])) (\<lambda>_.
     rbind (lc_lift LcSignature (record_signature_bytes r)) (\<lambda>customer_proof.
     rbind (proof_bytes issuer) (\<lambda>issuer_proof.
     Inr (customer_key_id, issuer_key_id, customer_proof, issuer_proof)))))))))"

section \<open>Issued attestations\<close>

definition at_body :: "string \<Rightarrow> evidence_record \<Rightarrow> pystr" where
  "at_body n r = str_of (member (body r) n)"

definition at_time :: "string \<Rightarrow> evidence_record \<Rightarrow> lifecycle_error + int" where
  "at_time n r = lc_lift LcReceipt (parse_timestamp (at_body n r))"

definition attestation_payload :: "evidence_record \<Rightarrow> lifecycle_error + attestation_row" where
  "attestation_payload r =
     rbind (key_id_of (signature r)) (\<lambda>customer_key_id.
     rbind (signature_member (member (signature r) ''issuer'')) (\<lambda>issuer.
     let ratio = opt_str_of (member (body r) ''coverage_ratio'') in
     if \<not> (case ratio of None \<Rightarrow> True | Some s \<Rightarrow> decimal_text s) then Inl LcInvalidOperation
     else
     rbind (lc_some LcValueError (uuid_value (record_id r))) (\<lambda>identifier.
     rbind (at_time ''window_start'' r) (\<lambda>window_start.
     rbind (at_time ''window_end'' r) (\<lambda>window_end.
     rbind (at_time ''validity_from'' r) (\<lambda>validity_from.
     rbind (at_time ''validity_until'' r) (\<lambda>validity_until.
     rbind (lc_lift LcSignature (record_signature_bytes r)) (\<lambda>customer_proof.
     rbind (key_id_of issuer) (\<lambda>issuer_key_id.
     rbind (proof_bytes issuer) (\<lambda>issuer_proof.
     rbind (lc_lift LcCanonical (serialize_record r)) (\<lambda>canonical.
     rbind (at_time ''issued_at'' r) (\<lambda>issued_at.
     Inr \<lparr>at_attestation_id = identifier, at_tenant_id = tenant_id r, at_boundary_ref = boundary_ref r,
          at_stream_id = stream_id r, at_sequence = sequence r,
          at_window_start = window_start, at_window_end = window_end,
          at_methodology_version = at_body ''methodology_version'' r,
          at_denominator_class = ascii_lower (at_body ''denominator_class'' r),
          at_coverage_level = at_body ''coverage_level'' r,
          at_capped_by_class = member (body r) ''capped_by_class'',
          at_verification_status = at_body ''verification_status'' r, at_coverage_ratio = ratio,
          at_counts = member (body r) ''counts'', at_assertions = member (body r) ''assertions'',
          at_exclusions = member (body r) ''exclusions'',
          at_population_record_refs = member (body r) ''population_record_refs'',
          at_relying_parties = member (body r) ''relying_parties'',
          at_purpose = member (body r) ''purpose'',
          at_validity_from = validity_from, at_validity_until = validity_until,
          at_liability_ref = at_body ''liability_ref'' r,
          at_evidence_key_id = customer_key_id, at_customer_signature = customer_proof,
          at_issuer_key_id = issuer_key_id, at_signature = issuer_proof,
          at_canonical_bytes = canonical, at_issued_at = issued_at\<rparr>))))))))))))"

definition record_attestation ::
    "('sk, 'pk) crypto \<Rightarrow> (bytes \<Rightarrow> 'pk option) \<Rightarrow> lifecycle_db \<Rightarrow> evidence_record
     \<Rightarrow> lifecycle_error + lifecycle_db \<times> pystr" where
  "record_attestation c load db r =
     rbind (attestation_signers c load (db_keys db) r) (\<lambda>_.
     rbind (attestation_payload r) (\<lambda>payload.
     case find_attestation db (tenant_id r) (at_attestation_id payload) of
       Some existing \<Rightarrow>
         if at_canonical_bytes existing \<noteq> at_canonical_bytes payload then Inl AttestationLifecycleError
         else Inr (db, record_id r)
     | None \<Rightarrow> rbind (insert_attestation db payload) (\<lambda>db'. Inr (db', record_id r))))"

definition attestation_row_for :: "lifecycle_db \<Rightarrow> pystr \<Rightarrow> pystr \<Rightarrow> lifecycle_error + attestation_row" where
  "attestation_row_for db tenant attestation_id =
     rbind (lc_some AttestationLifecycleError (uuid_value attestation_id)) (\<lambda>i.
     lc_some AttestationLifecycleError (find_attestation db tenant i))"

definition attestation_record ::
    "(bytes \<Rightarrow> pystr option) \<Rightarrow> attestation_row \<Rightarrow> lifecycle_error + evidence_record" where
  "attestation_record other row =
     rbind (lc_lift LcRecord (parse_record other (at_canonical_bytes row))) (\<lambda>r.
     if record_type r \<noteq> str ''AttestationWindow'' then Inl AttestationLifecycleError else Inr r)"

section \<open>Transitions\<close>

text \<open>\<open>_timestamp\<close>\<close>

definition lc_timestamp :: "pydatetime \<Rightarrow> lifecycle_error + pystr" where
  "lc_timestamp t = (case t of Naive _ \<Rightarrow> Inl AttestationLifecycleError | Aware us \<Rightarrow> Inr (utc_milliseconds_text us))"

text \<open>The newest row of the stream and the digest that the next record names.\<close>

definition next_revocation_position ::
    "('sk, 'pk) crypto \<Rightarrow> (bytes \<Rightarrow> pystr option) \<Rightarrow> lifecycle_db \<Rightarrow> pystr \<Rightarrow> pystr
     \<Rightarrow> lifecycle_error + int \<times> pystr option" where
  "next_revocation_position c other db tenant attestation_id =
     rbind (lc_some LcValueError (uuid_value attestation_id)) (\<lambda>i.
     case rev (sort_key rv_sequence (revocations_of db tenant i)) of
       [] \<Rightarrow> Inr (1, None)
     | row # _ \<Rightarrow>
         rbind (lc_lift LcRecord (parse_record other (rv_canonical_bytes row))) (\<lambda>previous.
         if record_type previous \<noteq> str ''RevocationRecord'' then Inl AttestationLifecycleError
         else rbind (lc_lift LcSignature (signing_digest c previous)) (\<lambda>digest.
              Inr (rv_sequence row + 1, Some digest))))"

fun notification_text :: "notification_status \<Rightarrow> pystr" where
  "notification_text PENDING = str ''pending''"
| "notification_text NOTIFIED = str ''notified''"
| "notification_text FAILED = str ''failed''"

record 'sk issuer_signer =
  is_key_id :: pystr
  is_private_key :: 'sk

text \<open>The identifier of a new record and the clock reading at its creation.\<close>

type_synonym seed = "pystr \<times> int"

definition transition_members ::
    "pystr \<Rightarrow> evidence_record \<Rightarrow> pystr \<Rightarrow> int \<Rightarrow> pystr option \<Rightarrow> pystr \<Rightarrow> pystr \<Rightarrow> pystr \<Rightarrow> pystr option
     \<Rightarrow> notification_status \<Rightarrow> pystr \<Rightarrow> pydict" where
  "transition_members tenant original attestation_id seq prev source_time_text reason effective superseding_ref
       status new_id =
     [(KStr (str ''record_id''), PStr new_id),
      (KStr (str ''record_type''), PStr (str ''RevocationRecord'')),
      (KStr (str ''schema_version''), PStr (str ''1.0.0'')),
      (KStr (str ''tenant_id''), PStr tenant),
      (KStr (str ''boundary_ref''), PStr (boundary_ref original)),
      (KStr (str ''stream_id''), PStr (tenant @ str '':lifecycle:'' @ attestation_id)),
      (KStr (str ''sequence''), PInt seq),
      (KStr (str ''prev_digest''), opt_str prev),
      (KStr (str ''source''), PDict [(KStr (str ''service''), PStr (str ''attestation-lifecycle'')),
         (KStr (str ''version''), PStr (str ''0.1.0''))]),
      (KStr (str ''clocks''), PDict [(KStr (str ''source_time''), PStr source_time_text)]),
      (KStr (str ''body''), PDict
         [(KStr (str ''attestation_ref''), PStr attestation_id),
          (KStr (str ''reason''), PStr reason),
          (KStr (str ''issuer''), (case member (body original) ''issuer'' of Some v \<Rightarrow> v | None \<Rightarrow> PNone)),
          (KStr (str ''effective_at''), PStr effective),
          (KStr (str ''superseding_ref''), opt_str superseding_ref),
          (KStr (str ''relying_party_notification_status''), PStr (notification_text status))]),
      (KStr (str ''signature''), PDict [])]"

text \<open>\<open>bytes.fromhex(digest.removeprefix("sha256:"))\<close>\<close>

definition digest_column :: "pystr \<Rightarrow> bytes option" where
  "digest_column d = from_hex (if take 7 d = str ''sha256:'' then drop 7 d else d)"

definition revocation_columns ::
    "evidence_record \<Rightarrow> pystr \<Rightarrow> pystr \<Rightarrow> pystr \<Rightarrow> pystr option \<Rightarrow> notification_status \<Rightarrow> int option
     \<Rightarrow> pystr \<Rightarrow> int \<Rightarrow> lifecycle_error + revocation_row" where
  "revocation_columns r tenant attestation_id reason superseding_ref status notified_at key_id recorded_at =
     rbind (lc_some LcValueError (uuid_value (record_id r))) (\<lambda>revocation_id.
     rbind (lc_some LcValueError (uuid_value attestation_id)) (\<lambda>subject_id.
     rbind (case superseding_ref of
              None \<Rightarrow> Inr None
            | Some s \<Rightarrow> rbind (lc_some LcValueError (uuid_value s)) (\<lambda>i. Inr (Some i))) (\<lambda>superseding.
     rbind (case prev_digest r of
              None \<Rightarrow> Inr None
            | Some d \<Rightarrow> rbind (lc_some LcValueError (digest_column d)) (\<lambda>b. Inr (Some b))) (\<lambda>prev.
     rbind (lc_lift LcReceipt (parse_timestamp (effective_at_of r))) (\<lambda>effective.
     rbind (lc_lift LcSignature (record_signature_bytes r)) (\<lambda>proof.
     rbind (lc_lift LcCanonical (serialize_record r)) (\<lambda>canonical.
     Inr \<lparr>rv_revocation_id = revocation_id, rv_tenant_id = tenant, rv_attestation_id = subject_id,
          rv_superseding_attestation_id = superseding, rv_stream_id = stream_id r, rv_sequence = sequence r,
          rv_prev_digest = prev, rv_reason = reason, rv_effective_at = effective, rv_notified_at = notified_at,
          rv_notification_status = status, rv_issuer_key_id = key_id, rv_signature = proof,
          rv_canonical_bytes = canonical, rv_recorded_at = recorded_at\<rparr>)))))))"

definition record_transition ::
    "('sk, 'pk) crypto \<Rightarrow> (bytes \<Rightarrow> 'pk option) \<Rightarrow> (bytes \<Rightarrow> pystr option) \<Rightarrow> lifecycle_db \<Rightarrow> pystr \<Rightarrow> pystr
     \<Rightarrow> pystr \<Rightarrow> pydatetime \<Rightarrow> 'sk issuer_signer \<Rightarrow> pystr option \<Rightarrow> notification_status \<Rightarrow> int option \<Rightarrow> seed
     \<Rightarrow> lifecycle_error + lifecycle_db \<times> evidence_record" where
  "record_transition c load other db tenant attestation_id reason effective_at signer superseding_ref
       status notified_at seed =
     rbind (attestation_row_for db tenant attestation_id) (\<lambda>row.
     rbind (attestation_record other row) (\<lambda>original.
     rbind (next_revocation_position c other db tenant attestation_id) (\<lambda>(seq, prev).
     rbind (lc_timestamp effective_at) (\<lambda>effective.
     rbind (lc_lift LcRecord (validate_record (transition_members tenant original attestation_id seq prev
              (utc_milliseconds_text (snd seed)) reason effective superseding_ref status (fst seed)))) (\<lambda>unsigned.
     rbind (lc_lift LcSignature (sign_record c unsigned (is_key_id signer) (is_private_key signer) None)) (\<lambda>r.
     rbind (lifecycle_key load (db_keys db) tenant (is_key_id signer) Issuer) (\<lambda>public_key.
     rbind (lc_origin (verify_record_origin_signature c r
              [(is_key_id signer, \<lparr>rk_namespace = Issuer, rk_public_key = public_key\<rparr>)] None)) (\<lambda>_.
     rbind (revocation_columns r tenant attestation_id reason superseding_ref status notified_at
              (is_key_id signer) (snd seed)) (\<lambda>new.
     rbind (insert_revocation db new) (\<lambda>db'.
     Inr (db', r)))))))))))"

section \<open>Notices\<close>

text \<open>The sink answers with the text of the exception it raises, if any; exceptions are recorded, not raised.\<close>

type_synonym notification_sink = "pydict \<Rightarrow> pystr option"

definition notification_errors :: "notification_sink \<Rightarrow> pyval list \<Rightarrow> pystr list" where
  "notification_errors notify parties =
     concat (map (\<lambda>p. case p of
         PDict d \<Rightarrow> (case notify d of None \<Rightarrow> [] | Some e \<Rightarrow> [e])
       | _ \<Rightarrow> [str ''relying party is not an object'']) parties)"

definition notification_result ::
    "pyval list \<Rightarrow> notification_sink option \<Rightarrow> int \<Rightarrow> notification_status \<times> int option \<times> pystr list" where
  "notification_result parties notify now =
     (case notify of
        None \<Rightarrow> (PENDING, None, [])
      | Some f \<Rightarrow>
          let errors = notification_errors f parties
          in if errors \<noteq> [] then (FAILED, None, errors) else (NOTIFIED, Some now, []))"

text \<open>The parties the sink was called for, in order.\<close>

definition notices :: "pyval list \<Rightarrow> pydict list" where
  "notices parties = concat (map (\<lambda>p. case p of PDict d \<Rightarrow> [d] | _ \<Rightarrow> []) parties)"

record lifecycle_transition =
  lt_record :: evidence_record
  lt_delivery_errors :: "pystr list"

text \<open>
  An operation yields the database it leaves, the notices it sent and its result.  The second record
  is appended in a transaction of its own.
\<close>

type_synonym lifecycle_outcome =
  "lifecycle_db \<times> pydict list \<times> (lifecycle_error + lifecycle_transition)"

definition parties_of :: "evidence_record \<Rightarrow> pyval list" where
  "parties_of r = (case member (body r) ''relying_parties'' of Some (PList ps) \<Rightarrow> ps | _ \<Rightarrow> [])"

definition append_delivery ::
    "('sk, 'pk) crypto \<Rightarrow> (bytes \<Rightarrow> 'pk option) \<Rightarrow> (bytes \<Rightarrow> pystr option) \<Rightarrow> lifecycle_db \<Rightarrow> evidence_record
     \<Rightarrow> 'sk issuer_signer \<Rightarrow> notification_status \<times> int option \<times> pystr list \<Rightarrow> seed
     \<Rightarrow> lifecycle_error + lifecycle_db \<times> lifecycle_transition" where
  "append_delivery c load other db first signer delivery seed =
     (case delivery of (status, notified_at, errors) \<Rightarrow>
     rbind (lc_lift LcReceipt (parse_timestamp (effective_at_of first))) (\<lambda>effective.
     rbind (record_transition c load other db (tenant_id first) (str_of (member (body first) ''attestation_ref''))
              (str_of (member (body first) ''reason'')) (Aware effective) signer
              (opt_str_of (member (body first) ''superseding_ref'')) status notified_at seed) (\<lambda>(db', r).
     Inr (db', \<lparr>lt_record = r, lt_delivery_errors = errors\<rparr>))))"

definition deliver_notifications ::
    "('sk, 'pk) crypto \<Rightarrow> (bytes \<Rightarrow> 'pk option) \<Rightarrow> (bytes \<Rightarrow> pystr option) \<Rightarrow> lifecycle_db \<Rightarrow> evidence_record
     \<Rightarrow> 'sk issuer_signer \<Rightarrow> notification_sink option \<Rightarrow> seed \<Rightarrow> lifecycle_outcome" where
  "deliver_notifications c load other db first signer notify seed =
     (case notify of
        None \<Rightarrow> (db, [], Inr \<lparr>lt_record = first, lt_delivery_errors = []\<rparr>)
      | Some _ \<Rightarrow>
          if \<not> list_ex (\<lambda>r. rv_tenant_id r = tenant_id first \<and> Some (rv_revocation_id r) = uuid_value (record_id first))
                 (db_revocations db)
          then (db, [], Inl AttestationLifecycleError)
          else
          (case rbind (attestation_row_for db (tenant_id first) (str_of (member (body first) ''attestation_ref'')))
                  (attestation_record other) of
             Inl e \<Rightarrow> (db, [], Inl e)
           | Inr original \<Rightarrow>
               (case append_delivery c load other db first signer
                       (notification_result (parties_of original) notify (snd seed)) seed of
                  Inl e \<Rightarrow> (db, notices (parties_of original), Inl e)
                | Inr (db', t) \<Rightarrow> (db', notices (parties_of original), Inr t))))"

section \<open>Operations\<close>

datatype revocation_ground =
    DISCOVERED_COMPUTATION_DEFECT | EVIDENCE_INTEGRITY_FAILURE | QUALIFICATION_INVALID | CUSTOMER_MISREPRESENTATION

fun ground_text :: "revocation_ground \<Rightarrow> pystr" where
  "ground_text DISCOVERED_COMPUTATION_DEFECT = str ''discovered_computation_defect''"
| "ground_text EVIDENCE_INTEGRITY_FAILURE = str ''evidence_integrity_failure''"
| "ground_text QUALIFICATION_INVALID = str ''qualification_invalid''"
| "ground_text CUSTOMER_MISREPRESENTATION = str ''customer_misrepresentation''"

definition revoke_attestation ::
    "('sk, 'pk) crypto \<Rightarrow> (bytes \<Rightarrow> 'pk option) \<Rightarrow> (bytes \<Rightarrow> pystr option) \<Rightarrow> lifecycle_db \<Rightarrow> pystr \<Rightarrow> pystr
     \<Rightarrow> revocation_ground \<Rightarrow> pydatetime \<Rightarrow> 'sk issuer_signer \<Rightarrow> notification_sink option \<Rightarrow> seed \<Rightarrow> seed
     \<Rightarrow> lifecycle_outcome" where
  "revoke_attestation c load other db tenant attestation_id ground effective_at signer notify seed delivery_seed =
     (case record_transition c load other db tenant attestation_id (ground_text ground) effective_at signer None
             PENDING None seed of
        Inl e \<Rightarrow> (db, [], Inl e)
      | Inr (db', r) \<Rightarrow> deliver_notifications c load other db' r signer notify delivery_seed)"

text \<open>The first transaction of a supersession: both rows or none.\<close>

definition record_supersession ::
    "('sk, 'pk) crypto \<Rightarrow> (bytes \<Rightarrow> 'pk option) \<Rightarrow> (bytes \<Rightarrow> pystr option) \<Rightarrow> lifecycle_db \<Rightarrow> pystr \<Rightarrow> pystr
     \<Rightarrow> evidence_record \<Rightarrow> pydatetime \<Rightarrow> 'sk issuer_signer \<Rightarrow> seed \<Rightarrow> lifecycle_error + lifecycle_db \<times> evidence_record"
where
  "record_supersession c load other db tenant original_id replacement effective_at signer seed =
     rbind (attestation_row_for db tenant original_id) (\<lambda>row.
     rbind (attestation_record other row) (\<lambda>original.
     if tenant_id replacement \<noteq> tenant then Inl AttestationLifecycleError
     else if boundary_ref replacement \<noteq> boundary_ref original then Inl AttestationLifecycleError
     else if at_body ''window_start'' replacement \<noteq> at_body ''window_start'' original
        \<or> at_body ''window_end'' replacement \<noteq> at_body ''window_end'' original then Inl AttestationLifecycleError
     else if record_id replacement = record_id original then Inl AttestationLifecycleError
     else
     rbind (record_attestation c load db replacement) (\<lambda>(db', _).
     record_transition c load other db' tenant original_id (str ''late_evidence'') effective_at signer
       (Some (record_id replacement)) PENDING None seed)))"

definition supersede_attestation ::
    "('sk, 'pk) crypto \<Rightarrow> (bytes \<Rightarrow> 'pk option) \<Rightarrow> (bytes \<Rightarrow> pystr option) \<Rightarrow> lifecycle_db \<Rightarrow> pystr \<Rightarrow> pystr
     \<Rightarrow> evidence_record \<Rightarrow> pydatetime \<Rightarrow> 'sk issuer_signer \<Rightarrow> notification_sink option \<Rightarrow> seed \<Rightarrow> seed
     \<Rightarrow> lifecycle_outcome" where
  "supersede_attestation c load other db tenant original_id replacement effective_at signer notify seed delivery_seed =
     (case record_supersession c load other db tenant original_id replacement effective_at signer seed of
        Inl e \<Rightarrow> (db, [], Inl e)
      | Inr (db', r) \<Rightarrow> deliver_notifications c load other db' r signer notify delivery_seed)"

section \<open>Status\<close>

datatype lifecycle_status = NOT_YET_VALID | VALID | EXPIRED | REVOKED | SUPERSEDED

text \<open>Rows ordered by effective instant and sequence; the last one decides whether it is a supersession.\<close>

definition effective_order :: "revocation_row \<Rightarrow> int list" where
  "effective_order r = [rv_effective_at r, rv_sequence r]"

definition attestation_status ::
    "lifecycle_db \<Rightarrow> pystr \<Rightarrow> pystr \<Rightarrow> pydatetime \<Rightarrow> lifecycle_error + lifecycle_status" where
  "attestation_status db tenant attestation_id as_of =
     (case as_of of
        Naive _ \<Rightarrow> Inl AttestationLifecycleError
      | Aware now \<Rightarrow>
          rbind (attestation_row_for db tenant attestation_id) (\<lambda>row.
          rbind (lc_some LcValueError (uuid_value attestation_id)) (\<lambda>i.
          let effective = filter (\<lambda>r. rv_effective_at r \<le> now) (revocations_of db tenant i);
              latest = (case rev (sort_key effective_order effective) of
                          [] \<Rightarrow> None | r # _ \<Rightarrow> rv_superseding_attestation_id r)
          in if latest \<noteq> None then Inr SUPERSEDED
             else if effective \<noteq> [] then Inr REVOKED
             else if now < at_validity_from row then Inr NOT_YET_VALID
             else if at_validity_until row \<le> now then Inr EXPIRED
             else Inr VALID)))"

section \<open>The database over time\<close>

text \<open>
  The steps the code takes; keys and boundaries are registered elsewhere and never removed while a row
  refers to them, a key identifier is never reused.
\<close>

inductive lifecycle_step ::
    "('sk, 'pk) crypto \<Rightarrow> (bytes \<Rightarrow> 'pk option) \<Rightarrow> (bytes \<Rightarrow> pystr option) \<Rightarrow> lifecycle_db \<Rightarrow> lifecycle_db \<Rightarrow> bool"
  for c load other where
  step_record: "record_attestation c load db r = Inr (db', i) \<Longrightarrow> lifecycle_step c load other db db'"
| step_revoke:
    "revoke_attestation c load other db t i g e signer notify s s' = (db', ns, out) \<Longrightarrow> lifecycle_step c load other db db'"
| step_supersede:
    "supersede_attestation c load other db t i r e signer notify s s' = (db', ns, out) \<Longrightarrow> lifecycle_step c load other db db'"
| step_register:
    "kr_key_id k \<notin> kr_key_id ` set (db_keys db) \<Longrightarrow>
     lifecycle_step c load other db (db\<lparr>db_keys := db_keys db @ [k], db_boundaries := b # db_boundaries db\<rparr>)"

inductive lifecycle_reachable ::
    "('sk, 'pk) crypto \<Rightarrow> (bytes \<Rightarrow> 'pk option) \<Rightarrow> (bytes \<Rightarrow> pystr option) \<Rightarrow> lifecycle_db \<Rightarrow> bool"
  for c load other where
  reachable_empty:
    "lifecycle_reachable c load other
       \<lparr>db_keys = keys, db_boundaries = boundaries, db_attestations = [], db_revocations = []\<rparr>"
| reachable_step:
    "lifecycle_reachable c load other db \<Longrightarrow> lifecycle_step c load other db db' \<Longrightarrow>
     lifecycle_reachable c load other db'"

section \<open>What the operations leave\<close>

lemma lc_some_Inr [simp]: "lc_some e m = Inr x \<longleftrightarrow> m = Some x"
  by (cases m) (simp_all add: lc_some_def)

lemma lc_lift_Inr [simp]: "lc_lift f m = Inr x \<longleftrightarrow> m = Inr x"
  by (cases m) (simp_all add: lc_lift_def)

lemma lc_refused_Inr [simp]: "lc_refused m = Inr x \<longleftrightarrow> m = Inr x"
  by (auto simp: lc_refused_def split: sum.splits sig_error.splits)

lemma lc_origin_Inr [simp]: "lc_origin m = Inr x \<longleftrightarrow> m = Inr x"
  by (auto simp: lc_origin_def lc_refused_def split: sum.splits receipt_error.splits sig_error.splits)

lemma lc_timestamp_Inr: "lc_timestamp t = Inr s \<longleftrightarrow> (\<exists>us. t = Aware us \<and> s = utc_milliseconds_text us)"
  by (cases t) (auto simp: lc_timestamp_def)

lemma insert_attestation_Inr:
  "insert_attestation db row = Inr db' \<Longrightarrow>
     db' = db\<lparr>db_attestations := db_attestations db @ [row]\<rparr>
     \<and> (\<forall>a \<in> set (db_attestations db). at_attestation_id a \<noteq> at_attestation_id row)
     \<and> at_validity_from row < at_validity_until row"
  by (auto simp: insert_attestation_def list_ex_iff split: if_splits)

lemma insert_revocation_Inr:
  "insert_revocation db row = Inr db' \<Longrightarrow>
     db' = db\<lparr>db_revocations := db_revocations db @ [row]\<rparr>
     \<and> validate_attestation_lifecycle_transition db row
     \<and> (rv_superseding_attestation_id row \<noteq> None) = (rv_reason row = str ''late_evidence'')"
  by (auto simp: insert_revocation_def split: if_splits)

lemma attestation_row_for_Inr:
  "attestation_row_for db tenant text = Inr row \<longleftrightarrow>
     (\<exists>i. uuid_value text = Some i \<and> find_attestation db tenant i = Some row)"
  by (simp add: attestation_row_for_def rbind_eq_Inr)

lemma record_attestation_Inr:
  "record_attestation c load db r = Inr (db', i) \<Longrightarrow>
     i = record_id r \<and> (db' = db \<or> (\<exists>row. attestation_payload r = Inr row \<and> insert_attestation db row = Inr db'))"
  by (auto simp: record_attestation_def rbind_eq_Inr split: option.splits if_splits)

lemma transition_fields:
  assumes "d = transition_members tenant original ref seq prev now reason effective superseding status new_id"
  shows "sequence (record_of d) = seq" "prev_digest (record_of d) = prev" "tenant_id (record_of d) = tenant"
    "record_id (record_of d) = new_id" "record_type (record_of d) = str ''RevocationRecord''"
    "schema_version (record_of d) = str ''1.0.0''" "stream_id (record_of d) = tenant @ str '':lifecycle:'' @ ref"
    "member (body (record_of d)) ''attestation_ref'' = Some (PStr ref)"
    "member (body (record_of d)) ''reason'' = Some (PStr reason)"
    "member (body (record_of d)) ''superseding_ref'' = Some (opt_str superseding)"
    "effective_at_of (record_of d) = effective"
  unfolding assms transition_members_def effective_at_of_def
  by (simp_all add: record_of_def member_Cons str_of_def int_of_val_def dict_of_def opt_str_of_def opt_str_def
      split: option.splits)

lemma opt_str_of_opt_str [simp]: "opt_str_of (Some (opt_str v)) = v"
  by (cases v) (simp_all add: opt_str_of_def opt_str_def)

text \<open>What a transition that is recorded consists of.\<close>

lemma record_transition_Inr:
  assumes "record_transition c load other db tenant ref reason effective_at signer superseding status notified_at seed
    = Inr (db', r)"
  obtains new i row original seq prev effective where
    "uuid_value ref = Some i" "find_attestation db tenant i = Some row" "attestation_record other row = Inr original"
    "next_revocation_position c other db tenant ref = Inr (seq, prev)"
    "effective_at = Aware effective"
    "insert_revocation db new = Inr db'"
    "rv_tenant_id new = tenant" "rv_attestation_id new = i" "rv_sequence new = seq" "rv_reason new = reason"
    "case prev of None \<Rightarrow> rv_prev_digest new = None
       | Some d \<Rightarrow> rv_prev_digest new = digest_column d \<and> digest_column d \<noteq> None"
    "uuid_value (record_id r) = Some (rv_revocation_id new)"
    "case superseding of None \<Rightarrow> rv_superseding_attestation_id new = None
       | Some s \<Rightarrow> rv_superseding_attestation_id new = uuid_value s \<and> uuid_value s \<noteq> None"
    "parse_timestamp (effective_at_of r) = Inr (rv_effective_at new)"
    "serialize_record r = Inr (rv_canonical_bytes new)"
    "effective_at_of r = utc_milliseconds_text effective"
    "tenant_id r = tenant" "record_type r = str ''RevocationRecord''" "schema_version r = str ''1.0.0''"
    "member (body r) ''attestation_ref'' = Some (PStr ref)" "member (body r) ''reason'' = Some (PStr reason)"
    "opt_str_of (member (body r) ''superseding_ref'') = superseding"
    "\<exists>pk. lifecycle_key load (db_keys db) tenant (is_key_id signer) Issuer = Inr pk
       \<and> verify_record_origin_signature c r [(is_key_id signer, \<lparr>rk_namespace = Issuer, rk_public_key = pk\<rparr>)] None
           = Inr (is_key_id signer)"
    "\<exists>unsigned. validate_record (transition_members tenant original ref seq prev
        (utc_milliseconds_text (snd seed)) reason (utc_milliseconds_text effective) superseding status (fst seed)) = Inr unsigned
        \<and> sign_record c unsigned (is_key_id signer) (is_private_key signer) None = Inr r"
    "rv_notification_status new = status"
proof -
  obtain i row original seq prev effective unsigned sg pk key new where
    row: "uuid_value ref = Some i" "find_attestation db tenant i = Some row" "attestation_record other row = Inr original"
    and position: "next_revocation_position c other db tenant ref = Inr (seq, prev)"
    and time: "effective_at = Aware effective"
    and valid: "validate_record (transition_members tenant original ref seq prev
        (utc_milliseconds_text (snd seed)) reason (utc_milliseconds_text effective) superseding status (fst seed)) = Inr unsigned"
    and signed: "sign_record c unsigned (is_key_id signer) (is_private_key signer) None = Inr r"
    and key: "lifecycle_key load (db_keys db) tenant (is_key_id signer) Issuer = Inr pk"
    and origin: "verify_record_origin_signature c r
        [(is_key_id signer, \<lparr>rk_namespace = Issuer, rk_public_key = pk\<rparr>)] None = Inr key"
    and cols: "revocation_columns r tenant ref reason superseding status notified_at (is_key_id signer) (snd seed) = Inr new"
    and ins: "insert_revocation db new = Inr db'"
    using assms unfolding record_transition_def rbind_eq_Inr
    by (simp only: attestation_row_for_Inr lc_timestamp_Inr lc_lift_Inr lc_origin_Inr split_paired_Ex
        prod.case Inr_inject prod.inject rbind_eq_Inr) blast
  obtain sg where r: "r = unsigned\<lparr>signature := sg\<rparr>" using signed by (rule sign_record_Inr) blast
  have u: "unsigned = record_of (transition_members tenant original ref seq prev
        (utc_milliseconds_text (snd seed)) reason (utc_milliseconds_text effective) superseding status (fst seed))"
    using valid by (rule validate_record_Inr) blast
  note fields = transition_fields [OF refl, of tenant original ref seq prev "utc_milliseconds_text (snd seed)" reason
      "utc_milliseconds_text effective" superseding status "fst seed", folded u]
  have same: "effective_at_of (unsigned\<lparr>signature := sg\<rparr>) = effective_at_of unsigned"
    by (simp add: effective_at_of_def)
  have "key = is_key_id signer"
    using origin by (auto simp: verify_record_origin_signature_def rbind_eq_Inr split: option.splits if_splits)
  moreover have "rv_tenant_id new = tenant" "rv_attestation_id new = i" "rv_sequence new = sequence r"
      "rv_reason new = reason" "rv_notification_status new = status"
      "uuid_value (record_id r) = Some (rv_revocation_id new)"
      "parse_timestamp (effective_at_of r) = Inr (rv_effective_at new)" "serialize_record r = Inr (rv_canonical_bytes new)"
      "case prev_digest r of None \<Rightarrow> rv_prev_digest new = None
       | Some d \<Rightarrow> rv_prev_digest new = digest_column d \<and> digest_column d \<noteq> None"
      "case superseding of None \<Rightarrow> rv_superseding_attestation_id new = None
       | Some s \<Rightarrow> rv_superseding_attestation_id new = uuid_value s \<and> uuid_value s \<noteq> None"
    using cols row(1) by (auto simp: revocation_columns_def rbind_eq_Inr split: option.splits)
  ultimately show thesis
    using row position time valid r signed key origin ins fields
    by (intro that [of i row original seq prev effective new]) (auto simp: same)
qed

section \<open>The invariant\<close>

text \<open>The digest that a successor of a stored row names: of the signed part of its record.\<close>

definition stored_digest ::
    "('sk, 'pk) crypto \<Rightarrow> (bytes \<Rightarrow> pystr option) \<Rightarrow> revocation_row \<Rightarrow> bytes option" where
  "stored_digest c other row =
     (case parse_record other (rv_canonical_bytes row) of
        Inl _ \<Rightarrow> None
      | Inr p \<Rightarrow> (case signing_digest c p of Inl _ \<Rightarrow> None | Inr d \<Rightarrow> digest_column d))"

definition supersession_ok :: "lifecycle_db \<Rightarrow> revocation_row \<Rightarrow> bool" where
  "supersession_ok db r \<longleftrightarrow>
     (\<exists>a. find_attestation db (rv_tenant_id r) (rv_attestation_id r) = Some a
        \<and> (\<forall>s. rv_superseding_attestation_id r = Some s \<longrightarrow>
             s \<noteq> rv_attestation_id r
             \<and> (\<exists>p. find_attestation db (rv_tenant_id r) s = Some p
                  \<and> at_boundary_ref p = at_boundary_ref a \<and> at_window_start p = at_window_start a
                  \<and> at_window_end p = at_window_end a)))"

definition history_ok :: "('sk, 'pk) crypto \<Rightarrow> (bytes \<Rightarrow> pystr option) \<Rightarrow> revocation_row list \<Rightarrow> bool" where
  "history_ok c other rows \<longleftrightarrow>
     linked rv_sequence rv_prev_digest (stored_digest c other) rows
     \<and> (rows \<noteq> [] \<longrightarrow> rv_sequence (hd rows) = 1 \<and> rv_prev_digest (hd rows) = None)
     \<and> (\<forall>r \<in> set rows. transition_of r = transition_of (hd rows))"

definition lifecycle_ok :: "('sk, 'pk) crypto \<Rightarrow> (bytes \<Rightarrow> pystr option) \<Rightarrow> lifecycle_db \<Rightarrow> bool" where
  "lifecycle_ok c other db \<longleftrightarrow>
     (\<forall>r \<in> set (db_revocations db). supersession_ok db r
        \<and> (rv_superseding_attestation_id r \<noteq> None) = (rv_reason r = str ''late_evidence''))
     \<and> (\<forall>t i. history_ok c other (revocations_of db t i))
     \<and> (\<forall>a \<in> set (db_attestations db). at_validity_from a < at_validity_until a)"

lemma find_attestation_fresh:
  assumes "\<forall>a \<in> set (db_attestations db). at_attestation_id a \<noteq> at_attestation_id row"
  shows "find_attestation (db\<lparr>db_attestations := db_attestations db @ [row]\<rparr>) t i =
    (if t = at_tenant_id row \<and> i = at_attestation_id row then Some row else find_attestation db t i)"
proof -
  have "find P (xs @ [x]) = (case find P xs of None \<Rightarrow> if P x then Some x else None | Some y \<Rightarrow> Some y)"
    for P :: "attestation_row \<Rightarrow> bool" and xs x by (induction xs) auto
  moreover have "find_attestation db t i = None" if "i = at_attestation_id row"
    using assms that by (auto simp: find_attestation_def find_None_iff)
  ultimately show ?thesis by (auto simp: find_attestation_def split: option.splits)
qed

lemma find_attestation_Some:
  "find_attestation db t i = Some a \<Longrightarrow> a \<in> set (db_attestations db) \<and> at_tenant_id a = t \<and> at_attestation_id a = i"
  by (auto simp: find_attestation_def find_Some_iff)

lemma revocations_of_append:
  "revocations_of (db\<lparr>db_revocations := db_revocations db @ [new]\<rparr>) t i =
     revocations_of db t i @ (if rv_tenant_id new = t \<and> rv_attestation_id new = i then [new] else [])"
  by (simp add: revocations_of_def)

lemma supersession_ok_mono:
  assumes "supersession_ok db r" and "\<And>t i a. find_attestation db t i = Some a \<Longrightarrow> find_attestation db' t i = Some a"
  shows "supersession_ok db' r"
  using assms unfolding supersession_ok_def by meson

lemma insert_attestation_ok:
  assumes "lifecycle_ok c other db" and "insert_attestation db row = Inr db'"
  shows "lifecycle_ok c other db'"
proof -
  have ins: "db' = db\<lparr>db_attestations := db_attestations db @ [row]\<rparr>"
    "\<forall>a \<in> set (db_attestations db). at_attestation_id a \<noteq> at_attestation_id row"
    "at_validity_from row < at_validity_until row"
    using insert_attestation_Inr [OF assms(2)] by simp_all
  have keep: "find_attestation db' t i = Some a" if "find_attestation db t i = Some a" for t i a
    using find_attestation_Some [OF that] that ins(2)
    unfolding ins(1) find_attestation_fresh [OF ins(2)] by auto
  have "revocations_of db' t i = revocations_of db t i" "db_revocations db' = db_revocations db" for t i
    by (simp_all add: revocations_of_def ins(1))
  then show ?thesis
    using assms(1) ins(3) supersession_ok_mono [OF _ keep] by (auto simp: lifecycle_ok_def ins(1))
qed

lemma next_revocation_position_Inr:
  assumes "next_revocation_position c other db tenant ref = Inr (seq, prev)" and "uuid_value ref = Some i"
    and "history_ok c other (revocations_of db tenant i)"
  shows "revocations_of db tenant i = [] \<Longrightarrow> seq = 1 \<and> prev = None"
    and "revocations_of db tenant i \<noteq> [] \<Longrightarrow> seq = rv_sequence (last (revocations_of db tenant i)) + 1
      \<and> (\<exists>d. prev = Some d \<and> stored_digest c other (last (revocations_of db tenant i)) = digest_column d)"
proof -
  let ?rows = "revocations_of db tenant i"
  have "sorted (map rv_sequence ?rows)"
    using assms(3) linked_sequence [of rv_sequence rv_prev_digest "stored_digest c other" "hd ?rows" "tl ?rows"]
    by (cases ?rows) (auto simp: history_ok_def)
  then have id: "sort_key rv_sequence ?rows = ?rows" by (rule sort_key_id)
  show "?rows = [] \<Longrightarrow> seq = 1 \<and> prev = None"
    using assms(1,2) by (auto simp: next_revocation_position_def lc_some_def id)
  assume "?rows \<noteq> []"
  then obtain rs row where rows: "?rows = rs @ [row]" by (metis append_butlast_last_id)
  then have "rev (sort_key rv_sequence ?rows) = row # rev rs" "last ?rows = row" using id by simp_all
  then show "seq = rv_sequence (last ?rows) + 1
      \<and> (\<exists>d. prev = Some d \<and> stored_digest c other (last ?rows) = digest_column d)"
    using assms(1,2)
    by (auto simp: next_revocation_position_def lc_some_def rbind_eq_Inr stored_digest_def split: if_splits)
qed

lemma record_transition_ok:
  assumes ok: "lifecycle_ok c other db"
    and step: "record_transition c load other db tenant ref reason effective_at signer superseding status at seed
      = Inr (db', r)"
  shows "lifecycle_ok c other db'"
proof -
  obtain new i seq prev where
    i: "uuid_value ref = Some i" and position: "next_revocation_position c other db tenant ref = Inr (seq, prev)"
    and ins: "insert_revocation db new = Inr db'"
    and new: "rv_tenant_id new = tenant" "rv_attestation_id new = i" "rv_sequence new = seq"
      "case prev of None \<Rightarrow> rv_prev_digest new = None
         | Some d \<Rightarrow> rv_prev_digest new = digest_column d \<and> digest_column d \<noteq> None"
    by (rule record_transition_Inr [OF step]) blast
  let ?rows = "revocations_of db tenant i"
  have db': "db' = db\<lparr>db_revocations := db_revocations db @ [new]\<rparr>"
    and valid: "validate_attestation_lifecycle_transition db new"
    and reason: "(rv_superseding_attestation_id new \<noteq> None) = (rv_reason new = str ''late_evidence'')"
    using insert_revocation_Inr [OF ins] by simp_all
  have find: "find_attestation db' = find_attestation db" by (intro ext) (simp add: find_attestation_def db')
  then have sup: "supersession_ok db' = supersession_ok db" by (intro ext) (simp add: supersession_ok_def)
  have "supersession_ok db new"
    using valid by (auto simp: supersession_ok_def validate_attestation_lifecycle_transition_def split: option.splits)
  moreover have same: "\<forall>x \<in> set ?rows. transition_of x = transition_of new"
    using valid new(1,2) by (auto simp: validate_attestation_lifecycle_transition_def list_all_iff split: option.splits)
  have hist: "history_ok c other ?rows" using ok by (simp add: lifecycle_ok_def)
  have "history_ok c other (?rows @ [new])"
  proof (cases "?rows = []")
    case True
    then show ?thesis
      using next_revocation_position_Inr(1) [OF position i hist True] new by (simp add: history_ok_def)
  next
    case False
    then show ?thesis
      using next_revocation_position_Inr(2) [OF position i hist False] new hist same
      by (auto simp: history_ok_def linked_snoc)
  qed
  then have "history_ok c other (revocations_of db' t j)" for t j
    using ok new(1,2) unfolding db' revocations_of_append by (auto simp: lifecycle_ok_def)
  ultimately show ?thesis
    using ok reason unfolding lifecycle_ok_def sup by (simp add: db')
qed

text \<open>Every step is a sequence of appended rows and registrations.\<close>

inductive row_step ::
    "('sk, 'pk) crypto \<Rightarrow> (bytes \<Rightarrow> 'pk option) \<Rightarrow> (bytes \<Rightarrow> pystr option) \<Rightarrow> lifecycle_db \<Rightarrow> lifecycle_db \<Rightarrow> bool"
  for c load other where
  row_attestation: "attestation_payload r = Inr row \<Longrightarrow> insert_attestation db row = Inr db' \<Longrightarrow> row_step c load other db db'"
| row_transition:
    "record_transition c load other db t i reason e signer s status at seed = Inr (db', r) \<Longrightarrow> row_step c load other db db'"
| row_register:
    "row_step c load other db (db\<lparr>db_keys := db_keys db @ [k], db_boundaries := b # db_boundaries db\<rparr>)"

abbreviation row_steps where
  "row_steps c load other \<equiv> (row_step c load other)\<^sup>*\<^sup>*"

lemma append_delivery_rows:
  "append_delivery c load other db first signer delivery seed = Inr (db', t) \<Longrightarrow> row_step c load other db db'"
  by (auto simp: append_delivery_def rbind_eq_Inr split: prod.splits intro: row_transition)

lemma deliver_notifications_rows:
  assumes "deliver_notifications c load other db first signer notify seed = (db', ns, out)"
  shows "row_steps c load other db db'"
  using assms
  by (auto simp: deliver_notifications_def split: option.splits if_splits sum.splits prod.splits
      intro: append_delivery_rows)

lemma record_attestation_rows:
  assumes "record_attestation c load db r = Inr (db', i)"
  shows "row_steps c load other db db'"
  using record_attestation_Inr [OF assms] by (auto intro: row_attestation)

lemma record_supersession_rows:
  assumes "record_supersession c load other db t i replacement e signer seed = Inr (db', r)"
  shows "row_steps c load other db db'"
proof -
  obtain db1 k where "record_attestation c load db replacement = Inr (db1, k)"
    "record_transition c load other db1 t i (str ''late_evidence'') e signer (Some (record_id replacement))
       PENDING None seed = Inr (db', r)"
    using assms by (auto simp: record_supersession_def rbind_eq_Inr split: if_splits)
  then show ?thesis by (meson record_attestation_rows row_transition rtranclp.rtrancl_into_rtrancl)
qed

lemma lifecycle_step_rows: "lifecycle_step c load other db db' \<Longrightarrow> row_steps c load other db db'"
proof (induction rule: lifecycle_step.induct)
  case (step_record db r db' i)
  then show ?case by (rule record_attestation_rows)
next
  case (step_revoke db t i g e signer notify s s' db' ns out)
  show ?case
  proof (cases "record_transition c load other db t i (ground_text g) e signer None PENDING None s")
    case (Inr x)
    then have first: "row_step c load other db (fst x)" by (cases x) (auto intro: row_transition)
    have "deliver_notifications c load other (fst x) (snd x) signer notify s' = (db', ns, out)"
      using step_revoke Inr by (cases x) (simp add: revoke_attestation_def)
    from first deliver_notifications_rows [OF this] show ?thesis by (rule converse_rtranclp_into_rtranclp)
  qed (use step_revoke in \<open>simp add: revoke_attestation_def\<close>)
next
  case (step_supersede db t i r e signer notify s s' db' ns out)
  show ?case
  proof (cases "record_supersession c load other db t i r e signer s")
    case (Inr x)
    then have first: "row_steps c load other db (fst x)" by (cases x) (auto intro: record_supersession_rows)
    have "deliver_notifications c load other (fst x) (snd x) signer notify s' = (db', ns, out)"
      using step_supersede Inr by (cases x) (simp add: supersede_attestation_def)
    from first deliver_notifications_rows [OF this] show ?thesis by (rule rtranclp_trans)
  qed (use step_supersede in \<open>simp add: supersede_attestation_def\<close>)
next
  case (step_register k db b)
  then show ?case by (auto intro: row_register)
qed

lemma row_step_ok: "row_step c load other db db' \<Longrightarrow> lifecycle_ok c other db \<Longrightarrow> lifecycle_ok c other db'"
proof (induction rule: row_step.induct)
  case (row_attestation r row db db')
  then show ?case by (simp add: insert_attestation_ok)
next
  case (row_transition db t i reason e signer s status at seed db' r)
  then show ?case by (rule_tac record_transition_ok)
next
  case (row_register db k b)
  then show ?case by (simp add: lifecycle_ok_def supersession_ok_def find_attestation_def revocations_of_def)
qed

lemma row_steps_ok: "row_steps c load other db db' \<Longrightarrow> lifecycle_ok c other db \<Longrightarrow> lifecycle_ok c other db'"
  by (induction rule: rtranclp_induct) (auto intro: row_step_ok)

lemma lifecycle_reachable_ok: "lifecycle_reachable c load other db \<Longrightarrow> lifecycle_ok c other db"
proof (induction rule: lifecycle_reachable.induct)
  case (reachable_empty keys boundaries)
  then show ?case by (simp add: lifecycle_ok_def revocations_of_def history_ok_def)
next
  case (reachable_step db db')
  then show ?case using row_steps_ok [OF lifecycle_step_rows] by blast
qed

end
