(* ===== verification/Lifecycle_Facts.thy ===== *)
theory Lifecycle_Facts
  imports Lifecycle Signed_Wire Bundles
begin

text \<open>
  What the lifecycle of \<^verbatim>\<open>services/attestation/lifecycle.py\<close> promises: it refines a lifecycle in which an
  attestation ends at most once, and what it records is what the revocation protocol reads.
\<close>

section \<open>The abstract lifecycle\<close>

text \<open>
  What an attestation is to a relying party: a validity period and at most one transition, the instant
  it takes effect at and the attestation that replaces it, if any.
\<close>

record life =
  lf_from :: int
  lf_until :: int
  lf_ended :: "(int \<times> nat option) option"

type_synonym lives = "pystr \<times> nat \<Rightarrow> life option"

inductive life_step :: "lives \<Rightarrow> lives \<Rightarrow> bool" where
  life_issue: "m k = None \<Longrightarrow> from < until \<Longrightarrow>
    life_step m (m(k \<mapsto> \<lparr>lf_from = from, lf_until = until, lf_ended = None\<rparr>))"
| life_end: "m (t, i) = Some l \<Longrightarrow> lf_ended l = None \<Longrightarrow>
    (case s of None \<Rightarrow> True | Some j \<Rightarrow> j \<noteq> i \<and> m (t, j) \<noteq> None) \<Longrightarrow>
    life_step m (m((t, i) \<mapsto> l\<lparr>lf_ended := Some (e, s)\<rparr>))"

definition life_status :: "life \<Rightarrow> int \<Rightarrow> lifecycle_status" where
  "life_status l now =
     (case lf_ended l of
        Some (e, s) \<Rightarrow>
          if e \<le> now then (if s = None then REVOKED else SUPERSEDED)
          else if now < lf_from l then NOT_YET_VALID else if lf_until l \<le> now then EXPIRED else VALID
      | None \<Rightarrow> if now < lf_from l then NOT_YET_VALID else if lf_until l \<le> now then EXPIRED else VALID)"

definition lives_of :: "lifecycle_db \<Rightarrow> lives" where
  "lives_of db = (\<lambda>(t, i). map_option (\<lambda>a.
     \<lparr>lf_from = at_validity_from a, lf_until = at_validity_until a,
      lf_ended = (case revocations_of db t i of
                    [] \<Rightarrow> None | r # _ \<Rightarrow> Some (rv_effective_at r, rv_superseding_attestation_id r))\<rparr>)
     (find_attestation db t i))"

lemma lives_of_attestation:
  assumes "lifecycle_ok c other db" "insert_attestation db row = Inr db'"
  shows "life_step (lives_of db) (lives_of db')"
proof -
  have ins: "db' = db\<lparr>db_attestations := db_attestations db @ [row]\<rparr>"
    "\<forall>a \<in> set (db_attestations db). at_attestation_id a \<noteq> at_attestation_id row"
    "at_validity_from row < at_validity_until row"
    using insert_attestation_Inr [OF assms(2)] by simp_all
  let ?k = "(at_tenant_id row, at_attestation_id row)"
  have none: "find_attestation db (at_tenant_id row) (at_attestation_id row) = None"
    using ins(2) by (auto simp: find_attestation_def find_None_iff)
  then have empty: "revocations_of db (at_tenant_id row) (at_attestation_id row) = []"
    using assms(1) by (fastforce simp: lifecycle_ok_def supersession_ok_def revocations_of_def filter_empty_conv)
  have rev: "revocations_of db' = revocations_of db" by (intro ext) (simp add: revocations_of_def ins(1))
  have "lives_of db' = (lives_of db)(?k \<mapsto>
      \<lparr>lf_from = at_validity_from row, lf_until = at_validity_until row, lf_ended = None\<rparr>)"
    using empty by (auto simp: lives_of_def rev find_attestation_fresh [OF ins(2), folded ins(1)] fun_eq_iff)
  moreover have "lives_of db ?k = None" by (simp add: lives_of_def none)
  ultimately show ?thesis using ins(3) by (simp add: life_issue)
qed

lemma lives_of_transition:
  assumes ok: "lifecycle_ok c other db"
    and step: "record_transition c load other db tenant ref reason effective_at signer superseding status at seed
      = Inr (db', r)"
  shows "lives_of db' = lives_of db \<or> life_step (lives_of db) (lives_of db')"
proof -
  obtain new where ins: "insert_revocation db new = Inr db'" by (rule record_transition_Inr [OF step]) blast
  let ?t = "rv_tenant_id new" and ?i = "rv_attestation_id new"
  have db': "db' = db\<lparr>db_revocations := db_revocations db @ [new]\<rparr>"
    and valid: "validate_attestation_lifecycle_transition db new"
    using insert_revocation_Inr [OF ins] by simp_all
  have find: "find_attestation db' = find_attestation db" by (intro ext) (simp add: find_attestation_def db')
  obtain a where a: "find_attestation db ?t ?i = Some a"
    using valid by (auto simp: validate_attestation_lifecycle_transition_def split: option.splits)
  show ?thesis
  proof (cases "revocations_of db ?t ?i")
    case (Cons x xs)
    have "revocations_of db' t i = (if t = ?t \<and> i = ?i then x # xs @ [new] else revocations_of db t i)" for t i
      using Cons unfolding db' revocations_of_append by auto
    then have "lives_of db' = lives_of db" using Cons by (auto simp: lives_of_def find fun_eq_iff)
    then show ?thesis by simp
  next
    case Nil
    let ?s = "rv_superseding_attestation_id new"
    let ?l = "\<lparr>lf_from = at_validity_from a, lf_until = at_validity_until a, lf_ended = None\<rparr>"
    have rev: "revocations_of db' t i = (if t = ?t \<and> i = ?i then [new] else revocations_of db t i)" for t i
      using Nil unfolding db' revocations_of_append by auto
    have "lives_of db (?t, ?i) = Some ?l" by (simp add: lives_of_def a Nil)
    moreover have "case ?s of None \<Rightarrow> True | Some j \<Rightarrow> j \<noteq> ?i \<and> lives_of db (?t, j) \<noteq> None"
      using valid a by (auto simp: validate_attestation_lifecycle_transition_def lives_of_def split: option.splits)
    ultimately have "life_step (lives_of db)
        ((lives_of db)((?t, ?i) \<mapsto> ?l\<lparr>lf_ended := Some (rv_effective_at new, ?s)\<rparr>))"
      by (intro life_end) simp_all
    moreover have "lives_of db' = (lives_of db)((?t, ?i) \<mapsto> ?l\<lparr>lf_ended := Some (rv_effective_at new, ?s)\<rparr>)"
      using a by (auto simp: lives_of_def find rev fun_eq_iff)
    ultimately show ?thesis by simp
  qed
qed

lemma row_step_lives:
  assumes "row_step c load other db db'" "lifecycle_ok c other db"
  shows "life_step\<^sup>*\<^sup>* (lives_of db) (lives_of db')"
  using assms
proof (induction rule: row_step.induct)
  case (row_attestation r row db db')
  then show ?case using lives_of_attestation by blast
next
  case (row_transition db t i reason e signer s status at seed db' r)
  then show ?case using lives_of_transition by (metis r_into_rtranclp rtranclp.rtrancl_refl)
next
  case (row_register db b k)
  have "lives_of (db\<lparr>db_keys := db_keys db @ [k], db_boundaries := b # db_boundaries db\<rparr>) = lives_of db"
    by (simp add: lives_of_def find_attestation_def revocations_of_def)
  then show ?case by simp
qed

lemma row_steps_lives:
  assumes "row_steps c load other db db'" "lifecycle_ok c other db"
  shows "life_step\<^sup>*\<^sup>* (lives_of db) (lives_of db')"
  using assms
proof (induction rule: rtranclp_induct)
  case (step y z)
  then show ?case using row_step_lives row_steps_ok by (meson rtranclp_trans)
qed simp

lemma attestation_status_lives:
  assumes "lifecycle_ok c other db"
  shows "attestation_status db tenant ref (Aware now) =
    (case uuid_value ref of
       None \<Rightarrow> Inl AttestationLifecycleError
     | Some i \<Rightarrow> (case lives_of db (tenant, i) of
         None \<Rightarrow> Inl AttestationLifecycleError | Some l \<Rightarrow> Inr (life_status l now)))"
proof (cases "uuid_value ref")
  case (Some i)
  show ?thesis
  proof (cases "find_attestation db tenant i")
    case (Some a)
    let ?rows = "revocations_of db tenant i"
    have same: "rv_effective_at r = rv_effective_at (hd ?rows)
        \<and> rv_superseding_attestation_id r = rv_superseding_attestation_id (hd ?rows)" if "r \<in> set ?rows" for r
      using assms that by (fastforce simp: lifecycle_ok_def history_ok_def transition_of_def)
    have "?rows = [] \<or> (\<exists>x xs. ?rows = x # xs \<and> (rv_effective_at x \<le> now \<or> now < rv_effective_at x))"
      using not_le by (cases ?rows) blast+
    then consider "?rows = []" | x xs where "?rows = x # xs" "rv_effective_at x \<le> now"
      | x xs where "?rows = x # xs" "now < rv_effective_at x"
      by blast
    then show ?thesis
    proof cases
      case 1
      then show ?thesis using Some \<open>uuid_value ref = Some i\<close>
        by (simp add: attestation_status_def attestation_row_for_def lc_some_def lives_of_def life_status_def)
    next
      case 2
      have "rv_effective_at r \<le> now" if "r \<in> set ?rows" for r using same [OF that] 2 by simp
      then have all: "filter (\<lambda>r. rv_effective_at r \<le> now) ?rows = ?rows" by (simp add: filter_id_conv)
      obtain y ys where y: "rev (sort_key effective_order ?rows) = y # ys"
        using 2 by (cases "rev (sort_key effective_order ?rows)") (auto dest: arg_cong [of _ _ set])
      have "set (y # ys) = set ?rows" unfolding y [symmetric] by simp
      then have "y \<in> set ?rows" by auto
      from same [OF this] have "rv_superseding_attestation_id y = rv_superseding_attestation_id x" by (simp add: 2)
      then show ?thesis using Some \<open>uuid_value ref = Some i\<close> 2 y all
        by (simp add: attestation_status_def attestation_row_for_def lc_some_def lives_of_def life_status_def Let_def)
    next
      case 3
      have "\<not> rv_effective_at r \<le> now" if "r \<in> set ?rows" for r using same [OF that] 3 by simp
      then have none: "filter (\<lambda>r. rv_effective_at r \<le> now) ?rows = []" by (simp add: filter_empty_conv)
      show ?thesis using Some \<open>uuid_value ref = Some i\<close> 3 none
        by (simp add: attestation_status_def attestation_row_for_def lc_some_def lives_of_def life_status_def Let_def)
    qed
  qed (use Some in \<open>simp add: attestation_status_def attestation_row_for_def lc_some_def lives_of_def\<close>)
qed (simp add: attestation_status_def attestation_row_for_def lc_some_def)

lemma life_step_ended:
  assumes "life_step\<^sup>*\<^sup>* m m'" "m k = Some l" "lf_ended l \<noteq> None"
  shows "m' k = Some l"
  using assms(1)
proof (induction rule: rtranclp_induct)
  case (step y z)
  then show ?case using assms(3) by (auto elim!: life_step.cases)
qed (rule assms(2))

lemma life_step_dom:
  assumes "life_step\<^sup>*\<^sup>* m m'" "m k \<noteq> None"
  shows "m' k \<noteq> None"
  using assms(1)
proof (induction rule: rtranclp_induct)
  case (step y z)
  then show ?case by (auto elim!: life_step.cases)
qed (rule assms(2))

section \<open>Properties\<close>

text \<open>C36: The lifecycle tables refine the abstract lifecycle.  In every reachable database, every operation, failed
  ones included, is a sequence of abstract steps, which issue an attestation or end one once and for
  all; and the status computed from the rows is the status of the abstract attestation.\<close>

theorem lifecycle_refines_abstract:
  assumes "lifecycle_reachable c load other db"
  shows "(\<forall>db'. lifecycle_step c load other db db' \<longrightarrow> life_step\<^sup>*\<^sup>* (lives_of db) (lives_of db'))
    \<and> attestation_status db tenant ref (Aware now) =
        (case uuid_value ref of
           None \<Rightarrow> Inl AttestationLifecycleError
         | Some i \<Rightarrow> (case lives_of db (tenant, i) of
             None \<Rightarrow> Inl AttestationLifecycleError | Some l \<Rightarrow> Inr (life_status l now)))"
  using lifecycle_reachable_ok [OF assms] lifecycle_step_rows
  by (intro conjI allI impI attestation_status_lives row_steps_lives) blast+

text \<open>C37: Revocation and supersession are final.  An attestation once reported revoked or superseded is reported
  so at every later instant, whatever operations are performed in between.\<close>

theorem ended_attestation_stays_ended:
  assumes "lifecycle_reachable c load other db" and "(lifecycle_step c load other)\<^sup>*\<^sup>* db db'"
    and "attestation_status db tenant ref (Aware now) = Inr s" and "s = REVOKED \<or> s = SUPERSEDED" and "now \<le> now'"
  shows "attestation_status db' tenant ref (Aware now') = Inr s"
proof -
  have ok: "lifecycle_ok c other db" by (rule lifecycle_reachable_ok [OF assms(1)])
  have rows: "row_steps c load other db db'"
    using assms(2) by (induction rule: rtranclp_induct) (auto intro: rtranclp_trans lifecycle_step_rows)
  obtain i l where l: "uuid_value ref = Some i" "lives_of db (tenant, i) = Some l" "life_status l now = s"
    using assms(3) attestation_status_lives [OF ok] by (auto split: option.splits)
  then obtain e r where ended: "lf_ended l = Some (e, r)" "e \<le> now"
    using assms(4) by (auto simp: life_status_def split: option.splits if_splits)
  have "lives_of db' (tenant, i) = Some l"
    using life_step_ended [OF row_steps_lives [OF rows ok] l(2)] ended(1) by simp
  moreover have "life_status l now' = s" using ended l(3) assms(5) by (simp add: life_status_def)
  ultimately show ?thesis using attestation_status_lives [OF row_steps_ok [OF rows ok]] l(1) by simp
qed

text \<open>C38: In every reachable database the revocation rows of an attestation are one transition repeated: the same
  reason, instant and replacement, numbered from one without gaps, each naming the digest of the signed
  part of the record before it; a replacement exists, is another attestation of the same tenant, and
  keeps boundary and window.\<close>

theorem lifecycle_history_invariant:
  assumes "lifecycle_reachable c load other db" and "revocations_of db tenant i \<noteq> []"
  shows "map rv_sequence (revocations_of db tenant i) = [1..int (length (revocations_of db tenant i))]
    \<and> rv_prev_digest (hd (revocations_of db tenant i)) = None
    \<and> (\<forall>n. Suc n < length (revocations_of db tenant i) \<longrightarrow>
         rv_prev_digest (revocations_of db tenant i ! Suc n) = stored_digest c other (revocations_of db tenant i ! n)
         \<and> stored_digest c other (revocations_of db tenant i ! n) \<noteq> None)
    \<and> (\<forall>r \<in> set (revocations_of db tenant i). transition_of r = transition_of (hd (revocations_of db tenant i))
         \<and> supersession_ok db r)"
proof -
  let ?rows = "revocations_of db tenant i"
  have ok: "lifecycle_ok c other db" by (rule lifecycle_reachable_ok [OF assms(1)])
  then have h: "history_ok c other ?rows" by (simp add: lifecycle_ok_def)
  obtain x xs where x: "?rows = x # xs" using assms(2) by (cases ?rows) auto
  have "rv_sequence x = 1" "rv_prev_digest (hd ?rows) = None"
    and link: "linked rv_sequence rv_prev_digest (stored_digest c other) ?rows"
    and same: "\<forall>r \<in> set ?rows. transition_of r = transition_of (hd ?rows)"
    using h x by (simp_all add: history_ok_def)
  moreover have "map rv_sequence ?rows = [rv_sequence x .. rv_sequence x + int (length xs)]"
    using linked_sequence [OF link [unfolded x]] unfolding x .
  moreover have "int (length ?rows) = 1 + int (length xs)" unfolding x by simp
  moreover have "\<forall>r \<in> set ?rows. supersession_ok db r"
    using ok by (auto simp: lifecycle_ok_def revocations_of_def)
  moreover note linked_nth [OF link]
  ultimately show ?thesis using same by metis
qed

section \<open>Notices and readers\<close>

lemma insert_same_transition:
  assumes "insert_revocation db p = Inr db1" "insert_revocation db1 q = Inr db2"
    and "rv_tenant_id q = rv_tenant_id p" "rv_attestation_id q = rv_attestation_id p"
  shows "transition_of q = transition_of p"
proof -
  have "p \<in> set (revocations_of db1 (rv_tenant_id q) (rv_attestation_id q))"
    using insert_revocation_Inr [OF assms(1)] assms(3,4) by (simp add: revocations_of_def)
  then show ?thesis
    using insert_revocation_Inr [OF assms(2)]
    by (auto simp: validate_attestation_lifecycle_transition_def list_all_iff split: option.splits)
qed

lemma append_delivery_Inr:
  assumes "append_delivery c load other db first signer (status, notified_at, errors) seed = Inr (db', t)"
  shows "\<exists>e r. record_transition c load other db (tenant_id first) (str_of (member (body first) ''attestation_ref''))
      (str_of (member (body first) ''reason'')) (Aware e) signer (opt_str_of (member (body first) ''superseding_ref''))
      status notified_at seed = Inr (db', r) \<and> t = \<lparr>lt_record = r, lt_delivery_errors = errors\<rparr>"
  using assms by (auto simp: append_delivery_def rbind_eq_Inr)

lemma deliver_notifications_cases:
  assumes "deliver_notifications c load other db r signer notify seed = (db', ns, out)"
  obtains (unsent) "notify \<noteq> None" "db' = db" "ns = []" "\<exists>e. out = Inl e"
  | (silent) "notify = None" "db' = db" "ns = []" "out = Inr \<lparr>lt_record = r, lt_delivery_errors = []\<rparr>"
  | (sent) original f where "notify = Some f" "ns = notices (parties_of original)" "db' = db" "\<exists>e. out = Inl e"
  | (delivered) original f e r' where "notify = Some f" "ns = notices (parties_of original)"
      "out = Inr \<lparr>lt_record = r', lt_delivery_errors = notification_errors f (parties_of original)\<rparr>"
      "record_transition c load other db (tenant_id r) (str_of (member (body r) ''attestation_ref''))
         (str_of (member (body r) ''reason'')) (Aware e) signer (opt_str_of (member (body r) ''superseding_ref''))
         (if notification_errors f (parties_of original) = [] then NOTIFIED else FAILED)
         (if notification_errors f (parties_of original) = [] then Some (snd seed) else None) seed = Inr (db', r')"
proof (cases notify)
  case None
  then show thesis using assms silent by (simp add: deliver_notifications_def)
next
  case (Some f)
  show thesis
  proof (cases "(db', ns, out) = (db, [], Inl AttestationLifecycleError)")
    case True
    then show thesis using unsent Some by auto
  next
    case False
    show thesis
    proof (cases "rbind (attestation_row_for db (tenant_id r) (str_of (member (body r) ''attestation_ref'')))
        (attestation_record other)")
      case (Inl e)
      then show thesis using assms Some False unsent by (auto simp: deliver_notifications_def split: if_splits)
    next
      case (Inr original)
      note unfolded = assms [unfolded deliver_notifications_def]
      show thesis
      proof (cases "append_delivery c load other db r signer
          (notification_result (parties_of original) notify (snd seed)) seed")
        case (Inl e)
        then show thesis
          using unfolded Some False \<open>rbind _ _ = Inr original\<close> sent by (auto split: if_splits)
      next
        case (Inr x)
        then have out: "db' = fst x" "ns = notices (parties_of original)" "out = Inr (snd x)"
          using unfolded Some False \<open>rbind _ _ = Inr original\<close> by (auto split: if_splits prod.splits)
        have "append_delivery c load other db r signer
            (if notification_errors f (parties_of original) = [] then NOTIFIED else FAILED,
             if notification_errors f (parties_of original) = [] then Some (snd seed) else None,
             notification_errors f (parties_of original)) seed = Inr (fst x, snd x)"
          using Inr Some by (simp add: notification_result_def Let_def split: if_splits)
        from append_delivery_Inr [OF this] show thesis using delivered [OF Some out(2)] out by metis
      qed
    qed
  qed
qed

text \<open>
  What delivery does once a pending row is committed: the attestation is found again, the sink is called
  for its relying parties, and the outcome goes into one further row.
\<close>

lemma delivery_after_commit:
  assumes y: "record_transition c load other db tenant ref reason e signer superseding PENDING None s = Inr (db1, r)"
    and del: "deliver_notifications c load other db1 r signer notify s' = (db', ns, out)"
  obtains p row original where
    "db_revocations db1 = db_revocations db @ [p]" "rv_tenant_id p = tenant" "uuid_value ref = Some (rv_attestation_id p)"
    "rv_notification_status p = PENDING" "rv_reason p = reason"
    "rv_superseding_attestation_id p = (case superseding of None \<Rightarrow> None | Some x \<Rightarrow> uuid_value x)"
    "attestation_row_for db1 tenant ref = Inr row" "attestation_record other row = Inr original"
    "notify = None \<longrightarrow> db' = db1 \<and> ns = [] \<and> out = Inr \<lparr>lt_record = r, lt_delivery_errors = []\<rparr>"
    "\<forall>f. notify = Some f \<longrightarrow> ns = notices (parties_of original)
       \<and> ((\<exists>x. out = Inl x) \<and> db' = db1
          \<or> (\<exists>q t. db_revocations db' = db_revocations db1 @ [q] \<and> out = Inr t \<and> transition_of q = transition_of p
               \<and> lt_delivery_errors t = notification_errors f (parties_of original)
               \<and> rv_notification_status q = (if notification_errors f (parties_of original) = [] then NOTIFIED else FAILED)))"
proof -
  obtain p i row original where ins: "insert_revocation db p = Inr db1"
    and p: "rv_tenant_id p = tenant" "rv_attestation_id p = i" "rv_reason p = reason" "rv_notification_status p = PENDING"
      "rv_superseding_attestation_id p = (case superseding of None \<Rightarrow> None | Some x \<Rightarrow> uuid_value x)"
      "uuid_value (record_id r) = Some (rv_revocation_id p)"
    and found: "uuid_value ref = Some i" "find_attestation db tenant i = Some row" "attestation_record other row = Inr original"
    and r: "tenant_id r = tenant" "member (body r) ''attestation_ref'' = Some (PStr ref)"
    by (rule record_transition_Inr [OF y]) (auto split: option.splits)
  have rows: "db_revocations db1 = db_revocations db @ [p]" using insert_revocation_Inr [OF ins] by simp
  have "find_attestation db1 tenant i = Some row"
    using insert_revocation_Inr [OF ins] found(2) by (simp add: find_attestation_def)
  then have again: "attestation_row_for db1 tenant ref = Inr row" using found(1) by (simp add: attestation_row_for_Inr)
  have visible: "list_ex (\<lambda>r'. rv_tenant_id r' = tenant_id r \<and> Some (rv_revocation_id r') = uuid_value (record_id r))
      (db_revocations db1)" using rows p r by (simp add: list_ex_iff)
  have unfold: "deliver_notifications c load other db1 r signer (Some f) s' =
      (case append_delivery c load other db1 r signer (notification_result (parties_of original) (Some f) (snd s')) s' of
         Inl e \<Rightarrow> (db1, notices (parties_of original), Inl e)
       | Inr (db', t) \<Rightarrow> (db', notices (parties_of original), Inr t))" for f
    using visible again found(3) r by (simp add: deliver_notifications_def str_of_def)
  have some: "ns = notices (parties_of original)
       \<and> ((\<exists>x. out = Inl x) \<and> db' = db1
          \<or> (\<exists>q t. db_revocations db' = db_revocations db1 @ [q] \<and> out = Inr t \<and> transition_of q = transition_of p
               \<and> lt_delivery_errors t = notification_errors f (parties_of original)
               \<and> rv_notification_status q = (if notification_errors f (parties_of original) = [] then NOTIFIED else FAILED)))"
    if f: "notify = Some f" for f
  proof (cases "append_delivery c load other db1 r signer (notification_result (parties_of original) (Some f) (snd s')) s'")
    case (Inl x)
    then show ?thesis using del f unfold [of f] by auto
  next
    case (Inr z)
    then have out: "db' = fst z" "ns = notices (parties_of original)" "out = Inr (snd z)"
      using del f unfold [of f] by (auto split: prod.splits)
    let ?st = "if notification_errors f (parties_of original) = [] then NOTIFIED else FAILED"
      and ?at = "if notification_errors f (parties_of original) = [] then Some (snd s') else None"
    have "append_delivery c load other db1 r signer (?st, ?at, notification_errors f (parties_of original)) s' = Inr (fst z, snd z)"
      using Inr by (simp add: notification_result_def Let_def split: if_splits)
    from append_delivery_Inr [OF this] obtain e' r' where
      tr: "record_transition c load other db1 tenant ref (str_of (member (body r) ''reason'')) (Aware e') signer
        (opt_str_of (member (body r) ''superseding_ref'')) ?st ?at s' = Inr (fst z, r')"
      and t: "snd z = \<lparr>lt_record = r', lt_delivery_errors = notification_errors f (parties_of original)\<rparr>"
      using r by (auto simp: str_of_def)
    obtain q where q: "insert_revocation db1 q = Inr (fst z)" "rv_tenant_id q = tenant" "rv_attestation_id q = i"
        "rv_notification_status q = ?st"
      by (rule record_transition_Inr [OF tr]) (use found(1) in auto)
    have "transition_of q = transition_of p" using insert_same_transition [OF ins q(1)] q p by simp
    moreover have "db_revocations (fst z) = db_revocations db1 @ [q]" using insert_revocation_Inr [OF q(1)] by simp
    ultimately show ?thesis using out t q(4) by auto
  qed
  have "notify = None \<longrightarrow> db' = db1 \<and> ns = [] \<and> out = Inr \<lparr>lt_record = r, lt_delivery_errors = []\<rparr>"
    using del by (auto simp: deliver_notifications_def)
  with that [OF rows p(1) _ p(4,3,5) again found(3)] some found(1) p(2) show thesis by blast
qed

text \<open>The parties that are objects, and the errors in the order of the parties.\<close>

lemma notices_objects: "map PDict (notices ps) = filter (\<lambda>p. \<exists>d. p = PDict d) ps"
  by (induction ps) (auto simp: notices_def split: pyval.splits)

lemma notification_errors_each:
  "notification_errors f ps = List.map_filter (\<lambda>p. case p of PDict d \<Rightarrow> f d | _ \<Rightarrow> Some (str ''relying party is not an object'')) ps"
  by (induction ps) (auto simp: notification_errors_def map_filter_simps split: pyval.splits option.splits)

lemma record_supersession_Inr:
  assumes "record_supersession c load other db tenant ref replacement e signer s = Inr y"
  obtains db0 where "db_revocations db0 = db_revocations db"
    "record_transition c load other db0 tenant ref (str ''late_evidence'') e signer (Some (record_id replacement)) PENDING None s
      = Inr (fst y, snd y)"
proof -
  obtain db0 i where a: "record_attestation c load db replacement = Inr (db0, i)"
    and t: "record_transition c load other db0 tenant ref (str ''late_evidence'') e signer (Some (record_id replacement)) PENDING None s
      = Inr y"
    using assms by (auto simp: record_supersession_def rbind_eq_Inr split: if_splits)
  have "db_revocations db0 = db_revocations db"
    using record_attestation_Inr [OF a] by (auto simp: insert_attestation_def split: if_splits)
  with t that show thesis by simp
qed

lemma delivery_described:
  assumes none: "notify = None \<longrightarrow> db' = db1 \<and> ns = [] \<and> out = Inr \<lparr>lt_record = r, lt_delivery_errors = []\<rparr>"
    and some: "\<forall>f. notify = Some f \<longrightarrow> ns = notices ps
       \<and> ((\<exists>x. out = Inl x) \<and> db' = db1
          \<or> (\<exists>q t. db_revocations db' = db_revocations db1 @ [q] \<and> out = Inr t \<and> transition_of q = transition_of p
               \<and> lt_delivery_errors t = notification_errors f ps
               \<and> rv_notification_status q = (if notification_errors f ps = [] then NOTIFIED else FAILED)))"
  shows "case notify of
      None \<Rightarrow> db' = db1 \<and> ns = [] \<and> (\<exists>t. out = Inr t \<and> lt_delivery_errors t = [])
    | Some f \<Rightarrow>
        map PDict ns = filter (\<lambda>p. \<exists>d. p = PDict d) ps
        \<and> ((\<exists>x. out = Inl x) \<and> db' = db1
           \<or> (\<exists>q t. db_revocations db' = db_revocations db1 @ [q] \<and> out = Inr t \<and> transition_of q = transition_of p
                \<and> lt_delivery_errors t = List.map_filter (\<lambda>p. case p of PDict d \<Rightarrow> f d
                      | _ \<Rightarrow> Some (str ''relying party is not an object'')) ps
                \<and> rv_notification_status q = (if lt_delivery_errors t = [] then NOTIFIED else FAILED)))"
proof (cases notify)
  case None
  with none show ?thesis by simp
next
  case (Some f)
  then have ns: "ns = notices ps"
    and d: "(\<exists>x. out = Inl x) \<and> db' = db1
      \<or> (\<exists>q t. db_revocations db' = db_revocations db1 @ [q] \<and> out = Inr t \<and> transition_of q = transition_of p
           \<and> lt_delivery_errors t = notification_errors f ps
           \<and> rv_notification_status q = (if lt_delivery_errors t = [] then NOTIFIED else FAILED))"
    using some by fastforce+
  show ?thesis unfolding Some option.case ns notices_objects using d unfolding notification_errors_each by simp
qed

text \<open>C39: Notices follow the commit, for a revocation and for a supersession alike.  An operation that fails to
  record its transition leaves the table alone and notifies nobody.  Otherwise a pending row is in the
  table before any notice is sent.  Without a sink that is all; with one, the sink is called once for
  each relying party of the attestation that is an object, in order, and unless the second
  transaction fails exactly one further row is appended: it repeats the transition, and it says
  notified if and only if every party is an object for which the sink raised nothing, the texts
  raised being returned otherwise.\<close>

theorem notices_follow_commit:
  assumes "revoke_attestation c load other db tenant ref g e signer notify s s' = (db', ns, out)
    \<or> supersede_attestation c load other db tenant ref replacement e signer notify s s' = (db', ns, out)"
  shows "(db' = db \<and> ns = [] \<and> (\<exists>x. out = Inl x))
    \<or> (\<exists>db1 p row original. db_revocations db1 = db_revocations db @ [p]
        \<and> rv_tenant_id p = tenant \<and> uuid_value ref = Some (rv_attestation_id p) \<and> rv_notification_status p = PENDING
        \<and> (rv_reason p = ground_text g \<and> rv_superseding_attestation_id p = None
           \<or> rv_reason p = str ''late_evidence'' \<and> rv_superseding_attestation_id p = uuid_value (record_id replacement))
        \<and> attestation_row_for db1 tenant ref = Inr row \<and> attestation_record other row = Inr original
        \<and> (case notify of
             None \<Rightarrow> db' = db1 \<and> ns = [] \<and> (\<exists>t. out = Inr t \<and> lt_delivery_errors t = [])
           | Some f \<Rightarrow>
               map PDict ns = filter (\<lambda>p. \<exists>d. p = PDict d) (parties_of original)
               \<and> ((\<exists>x. out = Inl x) \<and> db' = db1
                  \<or> (\<exists>q t. db_revocations db' = db_revocations db1 @ [q] \<and> out = Inr t \<and> transition_of q = transition_of p
                       \<and> lt_delivery_errors t = List.map_filter (\<lambda>p. case p of PDict d \<Rightarrow> f d
                             | _ \<Rightarrow> Some (str ''relying party is not an object'')) (parties_of original)
                       \<and> rv_notification_status q = (if lt_delivery_errors t = [] then NOTIFIED else FAILED)))))"
  using assms
proof
  assume op: "revoke_attestation c load other db tenant ref g e signer notify s s' = (db', ns, out)"
  show ?thesis
  proof (cases "record_transition c load other db tenant ref (ground_text g) e signer None PENDING None s")
    case (Inl x)
    then show ?thesis using op by (auto simp: revoke_attestation_def)
  next
    case (Inr y)
    then have y: "record_transition c load other db tenant ref (ground_text g) e signer None PENDING None s = Inr (fst y, snd y)"
      by simp
    have "deliver_notifications c load other (fst y) (snd y) signer notify s' = (db', ns, out)"
      using op Inr by (simp add: revoke_attestation_def split: prod.splits)
    then obtain p row original where
      p: "db_revocations (fst y) = db_revocations db @ [p]" "rv_tenant_id p = tenant" "uuid_value ref = Some (rv_attestation_id p)"
        "rv_notification_status p = PENDING"
      and ground: "rv_reason p = ground_text g" "rv_superseding_attestation_id p = (case None of None \<Rightarrow> None | Some x \<Rightarrow> uuid_value x)"
      and found: "attestation_row_for (fst y) tenant ref = Inr row" "attestation_record other row = Inr original"
      and none: "notify = None \<longrightarrow> db' = fst y \<and> ns = [] \<and> out = Inr \<lparr>lt_record = snd y, lt_delivery_errors = []\<rparr>"
      and some: "\<forall>f. notify = Some f \<longrightarrow> ns = notices (parties_of original)
       \<and> ((\<exists>x. out = Inl x) \<and> db' = fst y
          \<or> (\<exists>q t. db_revocations db' = db_revocations (fst y) @ [q] \<and> out = Inr t \<and> transition_of q = transition_of p
               \<and> lt_delivery_errors t = notification_errors f (parties_of original)
               \<and> rv_notification_status q = (if notification_errors f (parties_of original) = [] then NOTIFIED else FAILED)))"
      by (rule delivery_after_commit [OF y]) blast
    show ?thesis
      using p ground found delivery_described [OF none some]
      by (intro disjI2 exI [of _ "fst y"] exI [of _ p] exI [of _ row] exI [of _ original]) simp
  qed
next
  assume op: "supersede_attestation c load other db tenant ref replacement e signer notify s s' = (db', ns, out)"
  show ?thesis
  proof (cases "record_supersession c load other db tenant ref replacement e signer s")
    case (Inl x)
    then show ?thesis using op by (auto simp: supersede_attestation_def)
  next
    case (Inr y)
    then obtain db0 where same: "db_revocations db0 = db_revocations db"
      and y: "record_transition c load other db0 tenant ref (str ''late_evidence'') e signer (Some (record_id replacement))
        PENDING None s = Inr (fst y, snd y)"
      by (rule record_supersession_Inr)
    have "deliver_notifications c load other (fst y) (snd y) signer notify s' = (db', ns, out)"
      using op Inr by (simp add: supersede_attestation_def split: prod.splits)
    then obtain p row original where
      p: "db_revocations (fst y) = db_revocations db @ [p]" "rv_tenant_id p = tenant" "uuid_value ref = Some (rv_attestation_id p)"
        "rv_notification_status p = PENDING"
      and ground: "rv_reason p = str ''late_evidence''" "rv_superseding_attestation_id p = (case Some (record_id replacement) of None \<Rightarrow> None | Some x \<Rightarrow> uuid_value x)"
      and found: "attestation_row_for (fst y) tenant ref = Inr row" "attestation_record other row = Inr original"
      and none: "notify = None \<longrightarrow> db' = fst y \<and> ns = [] \<and> out = Inr \<lparr>lt_record = snd y, lt_delivery_errors = []\<rparr>"
      and some: "\<forall>f. notify = Some f \<longrightarrow> ns = notices (parties_of original)
       \<and> ((\<exists>x. out = Inl x) \<and> db' = fst y
          \<or> (\<exists>q t. db_revocations db' = db_revocations (fst y) @ [q] \<and> out = Inr t \<and> transition_of q = transition_of p
               \<and> lt_delivery_errors t = notification_errors f (parties_of original)
               \<and> rv_notification_status q = (if notification_errors f (parties_of original) = [] then NOTIFIED else FAILED)))"
      by (rule delivery_after_commit [OF y, unfolded same]) blast
    show ?thesis
      using p ground found delivery_described [OF none some]
      by (intro disjI2 exI [of _ "fst y"] exI [of _ p] exI [of _ row] exI [of _ original]) simp
  qed
qed

text \<open>Whichever of the two records is returned, a transition of the attestation was recorded with it.\<close>

lemma revoke_attestation_Inr:
  assumes "revoke_attestation c load other db tenant ref g e signer notify s s' = (db', ns, Inr t)"
  obtains db0 db1 e' status at seed where
    "record_transition c load other db0 tenant ref (ground_text g) e' signer None status at seed = Inr (db1, lt_record t)"
    "db_keys db0 = db_keys db" "set (db_revocations db1) \<subseteq> set (db_revocations db')"
proof (cases "record_transition c load other db tenant ref (ground_text g) e signer None PENDING None s")
  case (Inl x)
  then show thesis using assms by (auto simp: revoke_attestation_def)
next
  case (Inr y)
  then obtain db1 r where y: "record_transition c load other db tenant ref (ground_text g) e signer None PENDING None s
      = Inr (db1, r)" by (cases y) simp
  then have del: "deliver_notifications c load other db1 r signer notify s' = (db', ns, Inr t)"
    using assms by (simp add: revoke_attestation_def)
  have r: "tenant_id r = tenant" "member (body r) ''attestation_ref'' = Some (PStr ref)"
    "member (body r) ''reason'' = Some (PStr (ground_text g))" "opt_str_of (member (body r) ''superseding_ref'') = None"
    by - (rule record_transition_Inr [OF y]; simp)+
  have keys: "db_keys db1 = db_keys db"
    by (rule record_transition_Inr [OF y]) (auto dest: insert_revocation_Inr)
  show thesis
    using del
  proof (cases rule: deliver_notifications_cases)
    case silent
    then show thesis using that [OF _ refl] y by simp
  next
    case (delivered original f e' r')
    then show thesis using that [of db1 _ _ _ _ db'] keys r by (simp add: str_of_def)
  qed simp_all
qed

text \<open>C40: What is recorded is what relying parties read, if the attestation was named in its own spelling.  The
  record a revocation returns is stored in canonical bytes; a verifier that registers the issuer key and
  is served those bytes reports the attestation revoked from the effective instant on and pending
  before.  But a UUID has many spellings: the service accepts them all for the row and copies the given
  one into the record, and under any other spelling than the attestation's own the verifier
  reports that the revocation could not be checked.\<close>

theorem revocation_seen_iff_spelled:
  assumes "revoke_attestation c load other db tenant ref g e signer notify s s' = (db', ns, Inr t)"
    and "crypto_ok c" and "wf_value (PDict (record_members (lt_record t)))"
    and "lifecycle_key load (db_keys db) tenant (is_key_id signer) Issuer = Inr pk"
    and "map_of reg (is_key_id signer) = Some \<lparr>rk_namespace = Issuer, rk_public_key = pk\<rparr>"
    and "parse_instant (effective_at_of (lt_record t)) = Inr effective"
  shows "\<exists>row \<in> set (db_revocations db'). serialize_record (lt_record t) = Inr (rv_canonical_bytes row)
    \<and> uuid_value ref = Some (rv_attestation_id row)
    \<and> (transport (revocation_url endpoint a) = Some \<lparr>status_code = 200, resp_body = Some (rv_canonical_bytes row)\<rparr> \<longrightarrow>
        (\<exists>out. check_revocation c other' a endpoint transport reg (Inl now) = Inr out
          \<and> ro_status out =
              (if ref \<noteq> record_id a then RS_UNCHECKED
               else if epoch_nanoseconds now < epoch_nanoseconds effective then RS_VALID else RS_REVOKED)))"
proof -
  obtain db0 db1 e' status at seed where
    step: "record_transition c load other db0 tenant ref (ground_text g) e' signer None status at seed = Inr (db1, lt_record t)"
    and keys: "db_keys db0 = db_keys db" and sub: "set (db_revocations db1) \<subseteq> set (db_revocations db')"
    by (rule revoke_attestation_Inr [OF assms(1)])
  let ?r = "lt_record t" and ?k = "is_key_id signer"
  let ?r' = "?r\<lparr>source := norm_dict (source ?r), body := norm_dict (body ?r)\<rparr>"
  obtain new unsigned d where ins: "insert_revocation db0 new = Inr db1" and i: "uuid_value ref = Some (rv_attestation_id new)"
    and raw: "serialize_record ?r = Inr (rv_canonical_bytes new)"
    and r: "record_type ?r = str ''RevocationRecord''" "schema_version ?r = str ''1.0.0''"
      "member (body ?r) ''attestation_ref'' = Some (PStr ref)" "opt_str_of (member (body ?r) ''superseding_ref'') = None"
    and origin: "\<exists>pk. lifecycle_key load (db_keys db0) tenant ?k Issuer = Inr pk
       \<and> verify_record_origin_signature c ?r [(?k, \<lparr>rk_namespace = Issuer, rk_public_key = pk\<rparr>)] None = Inr ?k"
    and valid: "validate_record d = Inr unsigned" "sign_record c unsigned ?k (is_private_key signer) None = Inr ?r"
    by (rule record_transition_Inr [OF step]) auto
  have auth: "authenticated c reg ?r ?k"
    using authenticated_wider origin assms(4,5) keys by fastforce
  have k: "wf_str ?k" "list_all (\<lambda>x. \<not> is_surrogate x) ?k"
    using signer_key_text [OF valid(2) assms(3) raw] by auto
  note signed = sign_record_valid [OF valid k assms(2)]
  have received: "verify_canonical_evidence_record c o' (rv_canonical_bytes new) reg = Inr ?r'" for o'
    by (rule signed_record_received [OF signed(1) assms(3) auth _ signed(2) raw]) (simp add: r(1))
  have wfb: "wf_value (PDict (body ?r))" using wf_value_member [OF assms(3) member_record_members(11)] .
  have mem: "member (body ?r') n = map_option norm_value (member (body ?r) n)" for n
    using member_norm_dict [OF wfb] by simp
  have eff: "effective_at_of ?r' = effective_at_of ?r"
    unfolding effective_at_of_def mem by simp
  have sup: "in_effect_of ?r' = RS_REVOKED"
    unfolding in_effect_of_def mem using r(4) by simp
  have "\<exists>out. check_revocation c other' a endpoint transport reg (Inl now) = Inr out
      \<and> ro_status out = (if ref \<noteq> record_id a then RS_UNCHECKED
           else if epoch_nanoseconds now < epoch_nanoseconds effective then RS_VALID else RS_REVOKED)"
    if t: "transport (revocation_url endpoint a) = Some \<lparr>status_code = 200, resp_body = Some (rv_canonical_bytes new)\<rparr>"
  proof (cases "ref = record_id a")
    case True
    then have "published c other' a endpoint transport reg = Some ?r'"
      using t received r(1-3) mem by (auto simp: published_Some)
    then show ?thesis
      using True assms(6) by (simp add: check_revocation_published classify_revocation_eq eff sup)
  next
    case False
    then have "published c other' a endpoint transport reg = None"
      using t received r(3) mem by (auto simp: published_def authenticate_def OK_def split: sum.splits)
    then show ?thesis using False t by (simp add: check_revocation_published NOT_FOUND_def unchecked_outcome_def)
  qed
  then show ?thesis using sub insert_revocation_Inr [OF ins] raw i by auto
qed

lemma issued_authenticated: "authenticated const_crypto window_registry window_record (str ''k'')"
  using window_record_signed by (simp add: authenticated_def window_record_def
      window_registry_def primary_signer_namespace_def PRIMARY_SIGNER_NAMESPACE_def)

lemma window_record_wire:
  "\<exists>raw. serialize_record window_record = Inr raw \<and> (\<forall>other. parse_record other raw = Inr window_record)"
  by (rule received_canonical [OF window_record_valid window_record_wf window_record_portable window_record_norm issued_authenticated])
    (use window_record_counter_signed in \<open>auto simp: window_registry_def\<close>)

lemma issued_keys:
  "lifecycle_key example_load example_keys (str ''t'') (str ''k'') Evidence = Inr 5"
  "lifecycle_key example_load example_keys (str ''t'') (str ''i'') Issuer = Inr 6"
  "public_keys_of window_registry = [(str ''k'', 5), (str ''i'', 6)]"
  by code_simp+

lemma issued_proofs:
  "key_id_of (signature window_record) = Inr (str ''k'')"
  "rbind (signature_member (member (signature window_record) ''issuer'')) key_id_of = Inr (str ''i'')"
  "rbind (signature_member (member (signature window_record) ''issuer'')) proof_bytes = Inr (plain_sign 6 (replicate 32 0))"
  "record_signature_bytes window_record = Inr (plain_sign 5 (replicate 32 0))"
  "tenant_id window_record = str ''t''"
  by code_simp+

lemma issued_signers:
  "\<exists>x. attestation_signers const_crypto example_load example_keys window_record = Inr x"
proof -
  have "verify_record_signature const_crypto window_record [(str ''k'', 5)] = Inr (str ''k'')"
    by (rule verify_record_signature_key [OF window_record_signed]) (simp add: issued_keys)
  moreover have "verify_attestation_counter_signature const_crypto window_record [(str ''i'', 6)] = Inr (str ''i'')"
    by (rule verify_attestation_counter_signature_key [OF window_record_counter_signed]) (simp add: issued_keys)
  ultimately show ?thesis
    using issued_proofs issued_keys
    by (auto simp: attestation_signers_def rbind_eq_Inr verify_attestation_signatures_def)
qed

definition open_db :: lifecycle_db where
  "open_db = \<lparr>db_keys = example_keys, db_boundaries = [(str ''t'', str ''b'')], db_attestations = [],
     db_revocations = []\<rparr>"

definition issued_id :: nat where "issued_id = 0x01890a5dac96774bbcceb302099a8057"

lemma issued_columns:
  "uuid_value (record_id window_record) = Some issued_id"
  "at_time ''window_start'' window_record = Inr 1767225600000000"
  "at_time ''window_end'' window_record = Inr 1769904000000000"
  "at_time ''validity_from'' window_record = Inr 1767225600000000"
  "at_time ''validity_until'' window_record = Inr 1769904000000000"
  "at_time ''issued_at'' window_record = Inr 1767225600000000"
  "opt_str_of (member (body window_record) ''coverage_ratio'') = None"
  "at_body ''verification_status'' window_record = str ''self_computed''"
  "boundary_ref window_record = str ''b''" "tenant_id window_record = str ''t''" "sequence window_record = 1"
  "length (plain_sign 5 (replicate 32 0)) = 64" "length (plain_sign 6 (replicate 32 0)) = 64"
  "record_type window_record = str ''AttestationWindow''"
  by code_simp+

lemma issued:
  obtains row db where
    "record_attestation const_crypto example_load open_db window_record = Inr (db, record_id window_record)"
    "db = open_db\<lparr>db_attestations := [row]\<rparr>" "find_attestation db (str ''t'') issued_id = Some row"
    "attestation_record (\<lambda>_. None) row = Inr window_record"
    "at_validity_from row = 1767225600000000" "at_validity_until row = 1769904000000000"
proof -
  obtain raw where raw: "serialize_record window_record = Inr raw" "\<And>other. parse_record other raw = Inr window_record"
    using window_record_wire by blast
  have "raw \<noteq> []" by (rule serialize_record_nonempty [OF raw(1)])
  obtain x where x: "attestation_signers const_crypto example_load (db_keys open_db) window_record = Inr x"
    using issued_signers by (auto simp: open_db_def)
  obtain row where row: "attestation_payload window_record = Inr row"
    and f: "at_attestation_id row = issued_id" "at_tenant_id row = str ''t''" "at_boundary_ref row = str ''b''"
      "at_sequence row = 1" "at_window_start row = 1767225600000000" "at_window_end row = 1769904000000000"
      "at_validity_from row = 1767225600000000" "at_validity_until row = 1769904000000000"
      "at_evidence_key_id row = str ''k''" "at_issuer_key_id row = str ''i''"
      "at_customer_signature row = plain_sign 5 (replicate 32 0)" "at_signature row = plain_sign 6 (replicate 32 0)"
      "at_canonical_bytes row = raw" "at_verification_status row = str ''self_computed''"
    using issued_columns issued_proofs raw(1) by (auto simp: attestation_payload_def rbind_eq_Inr Let_def)
  let ?db = "open_db\<lparr>db_attestations := [row]\<rparr>"
  have "has_key example_keys (str ''t'') (str ''k'') Evidence" "has_key example_keys (str ''t'') (str ''i'') Issuer"
    by code_simp+
  then have ins: "insert_attestation open_db row = Inr ?db"
    using f issued_columns \<open>raw \<noteq> []\<close> by (simp add: insert_attestation_def open_db_def)
  have "record_attestation const_crypto example_load open_db window_record = Inr (?db, record_id window_record)"
    using x row ins f(1) by (simp add: record_attestation_def find_attestation_def open_db_def)
  moreover have "find_attestation ?db (str ''t'') issued_id = Some row"
    using f(1,2) by (simp add: find_attestation_def open_db_def)
  moreover have "attestation_record (\<lambda>_. None) row = Inr window_record"
    using f(13) raw(2) issued_columns by (simp add: attestation_record_def rbind_eq_Inr)
  ultimately show thesis using that f(7,8) by blast
qed

section \<open>A revocation\<close>

definition sample_signer :: "nat issuer_signer" where
  "sample_signer = \<lparr>is_key_id = str ''i'', is_private_key = 6\<rparr>"

definition sample_seed :: seed where
  "sample_seed = (str ''01890a5d-ac96-774b-bcce-b302099a8058'', 1767225600000000)"

text \<open>Two spellings of the identifier.\<close>

definition spelled :: "bool \<Rightarrow> pystr" where
  "spelled own = (if own then str ''01890a5d-ac96-774b-bcce-b302099a8057''
     else str ''01890A5D-AC96-774B-BCCE-B302099A8057'')"

definition sample_members :: "bool \<Rightarrow> pydict" where
  "sample_members own = transition_members (str ''t'') window_record (spelled own) 1 None
     (str ''2026-01-01T00:00:00.000Z'') (str ''evidence_integrity_failure'') (str ''2026-03-01T00:00:00.000Z'') None
     PENDING (str ''01890a5d-ac96-774b-bcce-b302099a8058'')"

lemma sample_texts:
  "utc_milliseconds_text 1767225600000000 = str ''2026-01-01T00:00:00.000Z''"
  "utc_milliseconds_text 1772323200000000 = str ''2026-03-01T00:00:00.000Z''"
  "parse_timestamp (str ''2026-03-01T00:00:00.000Z'') = Inr 1772323200000000"
  "uuid_value (str ''01890a5d-ac96-774b-bcce-b302099a8058'') = Some (issued_id + 1)"
  "lifecycle_key example_load example_keys (str ''t'') (str ''i'') Issuer = Inr 6"
  "has_key example_keys (str ''t'') (str ''i'') Issuer"
  by code_simp+

lemma spelled_uuid: "uuid_value (spelled own) = Some issued_id"
  by (cases own; simp only:; code_simp)

lemma sample_members_valid: "validate_record (sample_members own) = Inr (record_of (sample_members own))"
  by (cases own; simp only:; code_simp)

lemma sample_unsigned_value:
  "portable (PDict (unsigned_mapping (record_of (sample_members own))))"
  "wf_value (PDict (unsigned_mapping (record_of (sample_members own))))"
  "signature (record_of (sample_members own)) = []"
  by (cases own; simp only:; code_simp)+

text \<open>The revocation in each spelling.\<close>

lemma sample_revoked:
  obtains db row new t where
    "record_attestation const_crypto example_load open_db window_record = Inr (db, record_id window_record)"
    "find_attestation db (str ''t'') issued_id = Some row" "db_keys db = example_keys"
    "revoke_attestation const_crypto example_load (\<lambda>_. None) db (str ''t'') (spelled own) EVIDENCE_INTEGRITY_FAILURE
       (Aware 1772323200000000) sample_signer None sample_seed sample_seed
       = (db\<lparr>db_revocations := [new]\<rparr>, [], Inr t)"
    "rv_tenant_id new = str ''t''" "rv_attestation_id new = issued_id" "rv_effective_at new = 1772323200000000"
    "rv_superseding_attestation_id new = None"
    "wf_value (PDict (record_members (lt_record t)))" "effective_at_of (lt_record t) = str ''2026-03-01T00:00:00.000Z''"
proof -
  obtain row db where issue: "record_attestation const_crypto example_load open_db window_record = Inr (db, record_id window_record)"
    and db: "db = open_db\<lparr>db_attestations := [row]\<rparr>" and row: "find_attestation db (str ''t'') issued_id = Some row"
    and rec: "attestation_record (\<lambda>_. None) row = Inr window_record"
    by (rule issued)
  let ?u = "record_of (sample_members own)"
  let ?sg = "signature_object (str ''i'') (plain_sign 6 (replicate 32 0)) zero_digest"
  let ?r = "?u\<lparr>signature := ?sg\<rparr>"
  have const: "sha256 const_crypto x = replicate 32 0" "ed_sign const_crypto = plain_sign" "ed_public const_crypto 6 = 6"
    "digest_text (sha256 const_crypto) x = zero_digest" for x
    by (simp_all add: const_crypto_def plain_crypto_def digest_text_def zero_digest_def)
  have fields: "tenant_id ?u = str ''t''" "record_id ?u = str ''01890a5d-ac96-774b-bcce-b302099a8058''"
    "record_type ?u = str ''RevocationRecord''" "sequence ?u = 1" "prev_digest ?u = None"
    "effective_at_of ?u = str ''2026-03-01T00:00:00.000Z''"
    using transition_fields [OF sample_members_def [of own]] by simp_all
  have signed: "sign_record const_crypto ?u (str ''i'') 6 None = Inr ?r"
    using sign_record_ok [OF const_crypto_ok sample_unsigned_value(3) _ sample_unsigned_value(1), of "str ''i''" own 6]
    by (auto simp: const)
  have v: "verify_record_signature const_crypto ?r [(str ''i'', 6)] = Inr (str ''i'')"
    by (rule sign_then_verify [OF const_crypto_ok signed]) (simp add: const)
  then have origin: "verify_record_origin_signature const_crypto ?r [(str ''i'', \<lparr>rk_namespace = Issuer, rk_public_key = 6\<rparr>)] None
      = Inr (str ''i'')"
    by (simp add: verify_record_origin_signature_def public_keys_of_def fields primary_signer_namespace_def
        PRIMARY_SIGNER_NAMESPACE_def sig_result_def)
  have sgv: "portable (PDict ?sg)" "wf_value (PDict ?sg)"
    using signature_object_value [of "plain_sign 6 (replicate 32 0)" "str ''i''" zero_digest]
      digest_text_ascii [of "sha256 const_crypto" "[]"] crypto_okD(2,4) [OF const_crypto_ok] const
    by (simp_all del: portable.simps wf_value.simps)
  have val: "portable (PDict (record_members ?r))" "wf_value (PDict (record_members ?r))"
    using sample_unsigned_value sgv by (auto intro!: record_members_value simp del: portable.simps wf_value.simps)
  obtain raw where raw: "serialize_record ?r = Inr raw"
    using val(1) serialize_ok_iff [of "PDict (record_members ?r)"] by (auto simp: serialize_record_def canonicalize_def)
  have "raw \<noteq> []" by (rule serialize_record_nonempty [OF raw])
  have "decode_base64url (Some (PStr (encode_base64url (plain_sign 6 (replicate 32 0))))) 64
      = Some (plain_sign 6 (replicate 32 0))" by code_simp
  then have pb: "record_signature_bytes ?r = Inr (plain_sign 6 (replicate 32 0))"
    by (simp add: record_signature_bytes_def validate_signature_members_def closed_signature_object
        member_signature_object fields)
  obtain new where cols: "revocation_columns ?r (str ''t'') (spelled own) (str ''evidence_integrity_failure'') None PENDING
      None (str ''i'') 1767225600000000 = Inr new"
    and new: "rv_revocation_id new = issued_id + 1" "rv_tenant_id new = str ''t''" "rv_attestation_id new = issued_id"
      "rv_superseding_attestation_id new = None" "rv_sequence new = 1" "rv_prev_digest new = None"
      "rv_reason new = str ''evidence_integrity_failure''" "rv_effective_at new = 1772323200000000"
      "rv_notified_at new = None" "rv_notification_status new = PENDING" "rv_issuer_key_id new = str ''i''"
      "rv_signature new = plain_sign 6 (replicate 32 0)" "rv_canonical_bytes new = raw"
    using fields raw pb by (simp add: revocation_columns_def lc_some_def lc_lift_def spelled_uuid sample_texts effective_at_of_def)
  have reason: "str ''evidence_integrity_failure'' \<in> set REVOCATION_REASONS" by (simp add: REVOCATION_REASONS_def)
  have empty: "db_revocations db = []" "db_keys db = example_keys" by (simp_all add: db open_db_def)
  have "insert_revocation db new = Inr (db\<lparr>db_revocations := [new]\<rparr>)"
    using new row empty reason \<open>raw \<noteq> []\<close> sample_texts(6) issued_columns
    by (simp add: insert_revocation_def validate_attestation_lifecycle_transition_def revocations_of_def)
  moreover have "validate_record (transition_members (str ''t'') window_record (spelled own) 1 None
      (utc_milliseconds_text (snd sample_seed)) (ground_text EVIDENCE_INTEGRITY_FAILURE)
      (utc_milliseconds_text 1772323200000000) None PENDING (fst sample_seed)) = Inr ?u"
    using sample_members_valid [of own] by (simp add: sample_members_def sample_seed_def sample_texts)
  ultimately have "record_transition const_crypto example_load (\<lambda>_. None) db (str ''t'') (spelled own)
      (ground_text EVIDENCE_INTEGRITY_FAILURE) (Aware 1772323200000000) sample_signer None PENDING None sample_seed
      = Inr (db\<lparr>db_revocations := [new]\<rparr>, ?r)"
    using row rec signed origin cols empty
    by (simp add: record_transition_def attestation_row_for_def next_revocation_position_def revocations_of_def
        lc_some_def lc_lift_def lc_timestamp_def lc_origin_def spelled_uuid sample_signer_def sample_seed_def sample_texts)
  then have "revoke_attestation const_crypto example_load (\<lambda>_. None) db (str ''t'') (spelled own) EVIDENCE_INTEGRITY_FAILURE
       (Aware 1772323200000000) sample_signer None sample_seed sample_seed
       = (db\<lparr>db_revocations := [new]\<rparr>, [], Inr \<lparr>lt_record = ?r, lt_delivery_errors = []\<rparr>)"
    by (simp add: revoke_attestation_def deliver_notifications_def)
  then show thesis
    using issue row empty(2) new val(2) fields(6) by (intro that) (auto simp: effective_at_of_def)
qed

lemma sample_reached:
  obtains db db' new where
    "lifecycle_reachable const_crypto example_load (\<lambda>_. None) db"
    "lifecycle_step const_crypto example_load (\<lambda>_. None) db db'"
    "lifecycle_reachable const_crypto example_load (\<lambda>_. None) db'"
    "db_revocations db' = [new]" "rv_tenant_id new = str ''t''" "rv_attestation_id new = issued_id"
    "rv_effective_at new = 1772323200000000" "rv_superseding_attestation_id new = None"
    "find_attestation db' (str ''t'') issued_id \<noteq> None"
proof -
  obtain db row new t where issue: "record_attestation const_crypto example_load open_db window_record = Inr (db, record_id window_record)"
    and row: "find_attestation db (str ''t'') issued_id = Some row"
    and revoke: "revoke_attestation const_crypto example_load (\<lambda>_. None) db (str ''t'') (spelled False) EVIDENCE_INTEGRITY_FAILURE
       (Aware 1772323200000000) sample_signer None sample_seed sample_seed = (db\<lparr>db_revocations := [new]\<rparr>, [], Inr t)"
    and new: "rv_tenant_id new = str ''t''" "rv_attestation_id new = issued_id" "rv_effective_at new = 1772323200000000"
      "rv_superseding_attestation_id new = None"
    by (rule sample_revoked [of False])
  have "lifecycle_reachable const_crypto example_load (\<lambda>_. None) open_db"
    unfolding open_db_def by (rule reachable_empty)
  then have db: "lifecycle_reachable const_crypto example_load (\<lambda>_. None) db"
    using reachable_step step_record [OF issue] by metis
  have step: "lifecycle_step const_crypto example_load (\<lambda>_. None) db (db\<lparr>db_revocations := [new]\<rparr>)"
    by (rule step_revoke [OF revoke])
  show thesis
    by (rule that [OF db step reachable_step [OF db step] _ new]) (use row in \<open>simp_all add: find_attestation_def\<close>)
qed

lemma sample_status:
  assumes "lifecycle_reachable c load other db" "db_revocations db = [new]" "rv_tenant_id new = str ''t''"
    "rv_attestation_id new = issued_id" "rv_effective_at new = 1772323200000000"
    "rv_superseding_attestation_id new = None" "find_attestation db (str ''t'') issued_id \<noteq> None"
  shows "attestation_status db (str ''t'') (spelled own) (Aware 1772323200000000) = Inr REVOKED"
  using assms(2-) attestation_status_lives [OF lifecycle_reachable_ok [OF assms(1)]]
  by (auto simp: spelled_uuid lives_of_def life_status_def revocations_of_def)

theorem lifecycle_refines_abstract_witness:
  "\<exists>db. lifecycle_reachable const_crypto example_load (\<lambda>_. None) db
     \<and> attestation_status db (str ''t'') (spelled False) (Aware 1772323200000000) = Inr REVOKED"
proof -
  obtain db db' new where r: "lifecycle_reachable const_crypto example_load (\<lambda>_. None) db'"
    and new: "db_revocations db' = [new]" "rv_tenant_id new = str ''t''" "rv_attestation_id new = issued_id"
      "rv_effective_at new = 1772323200000000" "rv_superseding_attestation_id new = None"
      "find_attestation db' (str ''t'') issued_id \<noteq> None"
    by (rule sample_reached)
  have "attestation_status db' (str ''t'') (spelled False) (Aware 1772323200000000) = Inr REVOKED"
    using lifecycle_refines_abstract [OF r] new
    by (auto simp: spelled_uuid lives_of_def life_status_def revocations_of_def)
  with r show ?thesis by (intro exI conjI)
qed

theorem ended_attestation_stays_ended_witness:
  "\<exists>db. lifecycle_reachable const_crypto example_load (\<lambda>_. None) db
     \<and> attestation_status db (str ''t'') (spelled True) (Aware 1772323200000001) = Inr REVOKED"
proof -
  obtain db db' new where r: "lifecycle_reachable const_crypto example_load (\<lambda>_. None) db'"
    and new: "db_revocations db' = [new]" "rv_tenant_id new = str ''t''" "rv_attestation_id new = issued_id"
      "rv_effective_at new = 1772323200000000" "rv_superseding_attestation_id new = None"
      "find_attestation db' (str ''t'') issued_id \<noteq> None"
    by (rule sample_reached)
  have before: "attestation_status db' (str ''t'') (spelled True) (Aware 1772323200000000) = Inr REVOKED"
    by (rule sample_status [OF r new])
  have later: "(1772323200000000 :: int) \<le> 1772323200000001" by simp
  have steps: "(lifecycle_step const_crypto example_load (\<lambda>_. None))\<^sup>*\<^sup>* db' db'" by simp
  have "attestation_status db' (str ''t'') (spelled True) (Aware 1772323200000001) = Inr REVOKED"
    using ended_attestation_stays_ended [OF r steps before disjI1 [OF refl] later] .
  with r show ?thesis by (intro exI conjI)
qed

theorem lifecycle_history_invariant_witness:
  "\<exists>db. lifecycle_reachable const_crypto example_load (\<lambda>_. None) db
     \<and> map rv_sequence (revocations_of db (str ''t'') issued_id) = [1]"
proof -
  obtain db db' new where r: "lifecycle_reachable const_crypto example_load (\<lambda>_. None) db'"
    and new: "db_revocations db' = [new]" "rv_tenant_id new = str ''t''" "rv_attestation_id new = issued_id"
    by (rule sample_reached)
  have rows: "revocations_of db' (str ''t'') issued_id = [new]" using new by (simp add: revocations_of_def)
  have "map rv_sequence (revocations_of db' (str ''t'') issued_id)
      = [1..int (length (revocations_of db' (str ''t'') issued_id))]"
    by (rule conjunct1 [OF lifecycle_history_invariant [OF r]]) (simp add: rows)
  then have "map rv_sequence (revocations_of db' (str ''t'') issued_id) = [1]" by (simp add: rows)
  with r show ?thesis by (intro exI conjI)
qed

theorem notices_follow_commit_witness:
  "\<exists>db db' t p. revoke_attestation const_crypto example_load (\<lambda>_. None) db (str ''t'') (spelled True)
       EVIDENCE_INTEGRITY_FAILURE (Aware 1772323200000000) sample_signer None sample_seed sample_seed = (db', [], Inr t)
     \<and> db_revocations db' = db_revocations db @ [p] \<and> rv_notification_status p = PENDING"
proof -
  obtain db row new t where revoke: "revoke_attestation const_crypto example_load (\<lambda>_. None) db (str ''t'') (spelled True)
      EVIDENCE_INTEGRITY_FAILURE (Aware 1772323200000000) sample_signer None sample_seed sample_seed
      = (db\<lparr>db_revocations := [new]\<rparr>, [], Inr t)"
    by (rule sample_revoked [of True])
  let ?db = "db\<lparr>db_revocations := [new]\<rparr>"
  from notices_follow_commit [OF disjI1, OF revoke] obtain p where
    "db_revocations ?db = db_revocations db @ [p]" "rv_notification_status p = PENDING"
    by (simp only: option.case sum.distinct simp_thms) blast
  with revoke show ?thesis by (intro exI conjI)
qed

text \<open>Served to a verifier of the attestation, the two spellings are answered differently.\<close>

theorem revocation_seen_iff_spelled_witness:
  "\<exists>raw out raw' out'.
     check_revocation const_crypto (\<lambda>_. None) window_record []
       (\<lambda>_. Some \<lparr>status_code = 200, resp_body = Some raw\<rparr>) fixed_issuer (Inl march) = Inr out \<and> ro_status out = RS_REVOKED
     \<and> check_revocation const_crypto (\<lambda>_. None) window_record []
       (\<lambda>_. Some \<lparr>status_code = 200, resp_body = Some raw'\<rparr>) fixed_issuer (Inl march) = Inr out' \<and> ro_status out' = RS_UNCHECKED"
proof -
  have march: "parse_instant (str ''2026-03-01T00:00:00.000Z'') = Inr march"
    using withdrawn_effective by (simp add: effective_at_of_def withdrawal_def member_Cons str_of_def)
  have key: "map_of fixed_issuer (is_key_id sample_signer) = Some \<lparr>rk_namespace = Issuer, rk_public_key = 6\<rparr>"
    by (simp add: fixed_issuer_def sample_signer_def)
  have "\<exists>raw out. check_revocation const_crypto (\<lambda>_. None) window_record []
      (\<lambda>_. Some \<lparr>status_code = 200, resp_body = Some raw\<rparr>) fixed_issuer (Inl march) = Inr out
      \<and> ro_status out = (if own then RS_REVOKED else RS_UNCHECKED)" for own
  proof -
    obtain db row new t where keys: "db_keys db = example_keys"
      and revoke: "revoke_attestation const_crypto example_load (\<lambda>_. None) db (str ''t'') (spelled own)
        EVIDENCE_INTEGRITY_FAILURE (Aware 1772323200000000) sample_signer None sample_seed sample_seed
        = (db\<lparr>db_revocations := [new]\<rparr>, [], Inr t)"
      and wf: "wf_value (PDict (record_members (lt_record t)))"
      and eff: "effective_at_of (lt_record t) = str ''2026-03-01T00:00:00.000Z''"
      by (rule sample_revoked [of own])
    have pk: "lifecycle_key example_load (db_keys db) (str ''t'') (is_key_id sample_signer) Issuer = Inr 6"
      using sample_texts(5) by (simp add: keys sample_signer_def)
    have "parse_instant (effective_at_of (lt_record t)) = Inr march" using march eff by simp
    note seen = revocation_seen_iff_spelled [OF revoke const_crypto_ok wf pk key this, of _ _ window_record]
    obtain raw where raw: "serialize_record (lt_record t) = Inr raw" using seen by blast
    then obtain out where "check_revocation const_crypto (\<lambda>_. None) window_record []
        (\<lambda>_. Some \<lparr>status_code = 200, resp_body = Some raw\<rparr>) fixed_issuer (Inl march) = Inr out"
      and "ro_status out = (if spelled own \<noteq> record_id window_record then RS_UNCHECKED
         else if epoch_nanoseconds march < epoch_nanoseconds march then RS_VALID else RS_REVOKED)"
      using seen [of "\<lambda>_. Some \<lparr>status_code = 200, resp_body = Some raw\<rparr>" "[]" "\<lambda>_. None" march] by auto
    moreover have "spelled own = record_id window_record \<longleftrightarrow> own" by (cases own) (simp_all add: spelled_def window_record_def)
    ultimately show ?thesis by (intro exI [of _ raw] exI [of _ out]) simp
  qed
  from this [of True] this [of False] show ?thesis by auto
qed

end
