(* ===== verification/Buffers.thy ===== *)
theory Buffers
  imports Ecp_Prelude
begin

text \<open>
  The bounded local buffer of the client (\<^verbatim>\<open>sdk_python/client/buffer.py\<close>): a first-in-first-out queue
  with a hard bound that refuses the newest record and never evicts one.  The interface
  \<open>bounded_fifo\<close> says what the client relies on; the buffer of the code interprets it.
\<close>

record buffered_record =
  br_record_id :: pystr
  br_record_type :: pystr
  br_stream_id :: pystr
  br_sequence :: int
  br_signed_at :: pystr
  br_canonical_bytes :: bytes

text \<open>\<^verbatim>\<open>BufferedRecord.__post_init__\<close>.\<close>

definition buffered_record_ok :: "buffered_record \<Rightarrow> bool" where
  "buffered_record_ok r \<longleftrightarrow> br_canonical_bytes r \<noteq> [] \<and> 1 \<le> br_sequence r"

datatype buffer_error = BufferBound | BufferFullError

record bounded_buffer =
  bb_bound :: int
  bb_items :: "buffered_record list"
  bb_refused :: int

definition new_buffer :: "int \<Rightarrow> buffer_error + bounded_buffer" where
  "new_buffer bound =
     (if bound < 1 then Inl BufferBound else Inr \<lparr>bb_bound = bound, bb_items = [], bb_refused = 0\<rparr>)"

definition is_full :: "bounded_buffer \<Rightarrow> bool" where
  "is_full b \<longleftrightarrow> bb_bound b \<le> int (length (bb_items b))"

definition buffer_append :: "bounded_buffer \<Rightarrow> buffered_record \<Rightarrow> buffer_error + bounded_buffer" where
  "buffer_append b r =
     (if is_full b then Inl BufferFullError else Inr (b\<lparr>bb_items := bb_items b @ [r]\<rparr>))"

definition record_refusal :: "bounded_buffer \<Rightarrow> bounded_buffer" where
  "record_refusal b = b\<lparr>bb_refused := bb_refused b + 1\<rparr>"

definition drain :: "bounded_buffer \<Rightarrow> buffered_record list \<times> bounded_buffer" where
  "drain b = (bb_items b, b\<lparr>bb_items := []\<rparr>)"

text \<open>\<^verbatim>\<open>deque.extendleft\<close> puts the elements in front one by one; the list is reversed before.\<close>

definition restore :: "bounded_buffer \<Rightarrow> buffered_record list \<Rightarrow> bounded_buffer" where
  "restore b rs = b\<lparr>bb_items := fold (#) (rev rs) (bb_items b)\<rparr>"

lemma fold_Cons_rev: "fold (#) (rev xs) ys = xs @ ys"
  by (induction xs arbitrary: ys) simp_all

text \<open>
  What a client of the queue relies on.  \<open>held\<close> is the content in the order of arrival.
\<close>

locale bounded_fifo =
  fixes held :: "'q \<Rightarrow> 'r list" and bound :: "'q \<Rightarrow> int" and full :: "'q \<Rightarrow> bool"
    and put :: "'q \<Rightarrow> 'r \<Rightarrow> 'e + 'q" and take_all :: "'q \<Rightarrow> 'r list \<times> 'q" and put_back :: "'q \<Rightarrow> 'r list \<Rightarrow> 'q"
  assumes full_at_bound: "full q \<longleftrightarrow> bound q \<le> int (length (held q))"
    and put_refuses: "full q \<Longrightarrow> \<exists>e. put q r = Inl e"
    and put_appends: "\<not> full q \<Longrightarrow> \<exists>q'. put q r = Inr q' \<and> held q' = held q @ [r] \<and> bound q' = bound q"
    and take_all_drains: "held (snd (take_all q)) = []" "fst (take_all q) = held q" "bound (snd (take_all q)) = bound q"
    and put_back_front: "held (put_back q rs) = rs @ held q" "bound (put_back q rs) = bound q"
begin

text \<open>Admission never goes over the bound and never touches what is held.\<close>

lemma put_Inr:
  assumes "put q r = Inr q'"
  shows "held q' = held q @ [r]" "bound q' = bound q" "int (length (held q')) \<le> bound q'"
  using assms put_refuses [of q r] put_appends [of q r] full_at_bound [of q] by force+

text \<open>A round of flushing keeps the rest in order and within the bound.\<close>

lemma flush_round:
  assumes "int (length (held q)) \<le> bound q" and "rest = filter P (held q)"
  shows "held (put_back (snd (take_all q)) rest) = rest"
    "bound (put_back (snd (take_all q)) rest) = bound q"
    "int (length (held (put_back (snd (take_all q)) rest))) \<le> bound q"
proof -
  show held: "held (put_back (snd (take_all q)) rest) = rest" by (simp add: take_all_drains put_back_front)
  show "bound (put_back (snd (take_all q)) rest) = bound q" by (simp add: take_all_drains put_back_front)
  have "int (length rest) \<le> int (length (held q))" by (simp add: assms(2))
  then show "int (length (held (put_back (snd (take_all q)) rest))) \<le> bound q"
    using assms(1) by (simp only: held)
qed

end

interpretation bf: bounded_fifo bb_items bb_bound is_full buffer_append drain restore
  by unfold_locales (simp_all add: is_full_def buffer_append_def drain_def restore_def fold_Cons_rev)

end
