(* ===== verification/Client_Config.thy ===== *)
theory Client_Config
  imports Receipts
begin

text \<open>
  Configuration of the collector client (\<^verbatim>\<open>sdk_python/client/config.py\<close>): the fail behaviour of every
  action family with its attribution, the audit record of a change, and the client's bounds.  There is
  no default behaviour.  The clock readings of the constructors are arguments.
\<close>

datatype fail_behaviour = Fail_Open | Fail_Closed

datatype config_error = ClientConfigurationError | UnconfiguredFamilyError

definition FAIL_CLOSED_TRADE_OFF :: pystr where
  "FAIL_CLOSED_TRADE_OFF =
     str ''fail_closed: when evidence collection is unavailable, the action is refused. Our outage becomes your outage for this action family.''"

record policy_change =
  pc_action_family :: pystr
  pc_previous :: fail_behaviour
  pc_current :: fail_behaviour
  pc_changed_by :: pystr
  pc_reason :: pystr
  pc_changed_at :: pydatetime

record family_policy =
  fp_behaviour :: fail_behaviour
  fp_acknowledged_by :: pystr
  fp_reason :: pystr
  fp_acknowledged_at :: pydatetime
  fp_trade_off_acknowledged :: "pystr option"

definition require_attribution :: "pystr \<Rightarrow> pystr \<Rightarrow> config_error + unit" where
  "require_attribution who reason = require (who \<noteq> [] \<and> reason \<noteq> []) ClientConfigurationError"

text \<open>The checks of the two \<^verbatim>\<open>__post_init__\<close> methods.\<close>

definition policy_change_checked :: "policy_change \<Rightarrow> config_error + policy_change" where
  "policy_change_checked p =
     (if pc_action_family p = [] \<or> pc_previous p = pc_current p then Inl ClientConfigurationError
      else rbind (require_attribution (pc_changed_by p) (pc_reason p)) (\<lambda>_. Inr p))"

definition family_policy_checked :: "family_policy \<Rightarrow> config_error + family_policy" where
  "family_policy_checked p =
     rbind (require_attribution (fp_acknowledged_by p) (fp_reason p)) (\<lambda>_.
     if fp_behaviour p = Fail_Closed then
       if fp_trade_off_acknowledged p \<noteq> Some FAIL_CLOSED_TRADE_OFF then Inl ClientConfigurationError else Inr p
     else if fp_trade_off_acknowledged p \<noteq> None then Inl ClientConfigurationError
     else Inr p)"

definition fail_open :: "pydatetime \<Rightarrow> pystr \<Rightarrow> pystr \<Rightarrow> config_error + family_policy" where
  "fail_open now who reason =
     family_policy_checked \<lparr>fp_behaviour = Fail_Open, fp_acknowledged_by = who, fp_reason = reason,
       fp_acknowledged_at = now, fp_trade_off_acknowledged = None\<rparr>"

definition fail_closed :: "pydatetime \<Rightarrow> pystr \<Rightarrow> pystr \<Rightarrow> pystr \<Rightarrow> config_error + family_policy" where
  "fail_closed now who reason trade_off =
     family_policy_checked \<lparr>fp_behaviour = Fail_Closed, fp_acknowledged_by = who, fp_reason = reason,
       fp_acknowledged_at = now, fp_trade_off_acknowledged = Some trade_off\<rparr>"

text \<open>A change returns the new policy and its audit record together, or neither.\<close>

definition changed_to ::
    "family_policy \<Rightarrow> fail_behaviour \<Rightarrow> pystr \<Rightarrow> pystr \<Rightarrow> pystr \<Rightarrow> pystr option \<Rightarrow> pydatetime \<Rightarrow> pydatetime
     \<Rightarrow> config_error + family_policy \<times> policy_change" where
  "changed_to p behaviour family who reason trade_off now now' =
     rbind (if behaviour = Fail_Closed
            then fail_closed now who reason (case trade_off of None \<Rightarrow> [] | Some t \<Rightarrow> t)
            else fail_open now who reason) (\<lambda>replacement.
     rbind (policy_change_checked \<lparr>pc_action_family = family, pc_previous = fp_behaviour p, pc_current = behaviour,
              pc_changed_by = who, pc_reason = reason, pc_changed_at = now'\<rparr>) (\<lambda>change.
     Inr (replacement, change)))"

record client_config =
  cc_tenant_id :: pystr
  cc_boundary_ref :: pystr
  cc_collector_id :: pystr
  cc_deployment :: pystr
  cc_buffer_bound :: int
  cc_families :: "(pystr \<times> family_policy) list"
  cc_silence_threshold_seconds :: "int option"

definition client_config_checked :: "client_config \<Rightarrow> config_error + client_config" where
  "client_config_checked cfg =
     (if [] \<in> set [cc_tenant_id cfg, cc_boundary_ref cfg, cc_collector_id cfg, cc_deployment cfg]
         \<or> cc_buffer_bound cfg < 1 \<or> cc_families cfg = []
         \<or> (case cc_silence_threshold_seconds cfg of None \<Rightarrow> False | Some n \<Rightarrow> n < 1)
      then Inl ClientConfigurationError else Inr cfg)"

definition policy_for :: "client_config \<Rightarrow> pystr \<Rightarrow> config_error + family_policy" where
  "policy_for cfg family =
     (case map_of (cc_families cfg) family of None \<Rightarrow> Inl UnconfiguredFamilyError | Some p \<Rightarrow> Inr p)"

text \<open>A policy that a constructor returns and its change are attributed; fail-closed is acknowledged verbatim.\<close>

lemma family_policy_checked_Inr:
  "family_policy_checked p = Inr q \<longleftrightarrow> q = p \<and> fp_acknowledged_by p \<noteq> [] \<and> fp_reason p \<noteq> []
     \<and> fp_trade_off_acknowledged p = (if fp_behaviour p = Fail_Closed then Some FAIL_CLOSED_TRADE_OFF else None)"
  by (auto simp: family_policy_checked_def require_attribution_def rbind_eq_Inr require_eq_Inr split: if_splits)

lemma changed_to_audited:
  assumes "changed_to p behaviour family who reason trade_off now now' = Inr (q, change)"
  shows "fp_behaviour q = behaviour" "pc_previous change = fp_behaviour p" "pc_current change = fp_behaviour q"
    "fp_behaviour q \<noteq> fp_behaviour p" "pc_changed_by change = fp_acknowledged_by q" "pc_reason change = fp_reason q"
    "behaviour = Fail_Closed \<Longrightarrow> trade_off = Some FAIL_CLOSED_TRADE_OFF"
proof -
  have "FAIL_CLOSED_TRADE_OFF \<noteq> []" by (simp add: FAIL_CLOSED_TRADE_OFF_def)
  then have *: "fp_behaviour q = behaviour \<and> pc_previous change = fp_behaviour p \<and> pc_current change = fp_behaviour q
    \<and> fp_behaviour q \<noteq> fp_behaviour p \<and> pc_changed_by change = fp_acknowledged_by q \<and> pc_reason change = fp_reason q
    \<and> (behaviour = Fail_Closed \<longrightarrow> trade_off = Some FAIL_CLOSED_TRADE_OFF)"
    using assms
    by (cases behaviour; cases trade_off)
      (auto simp: changed_to_def fail_open_def fail_closed_def policy_change_checked_def rbind_eq_Inr
        family_policy_checked_Inr split: if_splits)
  then show "fp_behaviour q = behaviour" "pc_previous change = fp_behaviour p" "pc_current change = fp_behaviour q"
    "fp_behaviour q \<noteq> fp_behaviour p" "pc_changed_by change = fp_acknowledged_by q" "pc_reason change = fp_reason q"
    "behaviour = Fail_Closed \<Longrightarrow> trade_off = Some FAIL_CLOSED_TRADE_OFF" by blast+
qed

end
