(* ===== verification/Record_Ids.thy ===== *)
theory Record_Ids
  imports Receipts
begin

text \<open>
  UUIDv7 record identifiers (\<^verbatim>\<open>new_record_id\<close> of \<^verbatim>\<open>sdk_python/client/records.py\<close>, copied as
  \<^verbatim>\<open>_uuid7\<close> in \<^verbatim>\<open>services/computation/population.py\<close> and
  \<^verbatim>\<open>services/attestation/lifecycle.py\<close>).  The milliseconds go through two binary64 operations, which
  are modelled to the bit: \<^verbatim>\<open>timestamp()\<close> is the correctly rounded quotient of the microseconds by
  10^6, and the product with 1000 is rounded again before \<^verbatim>\<open>int\<close> truncates it.
\<close>

section \<open>Binary64 rounding\<close>

function bit_length :: "int \<Rightarrow> int" where
  "bit_length n = (if n \<le> 0 then 0 else 1 + bit_length (n div 2))"
  by pat_completeness auto
termination by (relation "measure nat") auto

declare bit_length.simps [simp del]

text \<open>Integer division to nearest, ties to even.\<close>

definition div_even :: "int \<Rightarrow> int \<Rightarrow> int" where
  "div_even n d =
     (let q = n div d; r = n mod d
      in if 2 * r < d then q else if d < 2 * r then q + 1 else q + q mod 2)"

text \<open>
  The binary64 value nearest to n / d as a mantissa and an exponent, within the normal range.
\<close>

definition round_binary64 :: "int \<Rightarrow> int \<Rightarrow> int \<times> int" where
  "round_binary64 n d =
     (if n = 0 then (0, 0)
      else let k = bit_length n - bit_length d;
               top = (if d * 2 ^ nat k \<le> n * 2 ^ nat (- k) then k else k - 1);
               e = top - 52
           in (div_even (n * 2 ^ nat (- e)) (d * 2 ^ nat e), e))"

text \<open>\<^verbatim>\<open>int(at.timestamp() * 1_000)\<close> for an instant in microseconds; rounding is symmetric, \<^verbatim>\<open>int\<close> truncates.\<close>

definition magnitude_ms :: "int \<Rightarrow> int" where
  "magnitude_ms us =
     (let (m, e) = round_binary64 us 1000000;
          (m', e') = round_binary64 (m * 1000 * 2 ^ nat e) (2 ^ nat (- e))
      in m' * 2 ^ nat e' div 2 ^ nat (- e'))"

definition unix_ms :: "int \<Rightarrow> int" where
  "unix_ms us = (if us < 0 then - magnitude_ms (- us) else magnitude_ms us)"

section \<open>Identifiers\<close>

definition ms_bytes :: "int \<Rightarrow> bytes" where
  "ms_bytes n = map (\<lambda>i. nat (n div 256 ^ i mod 256)) [5, 4, 3, 2, 1, 0]"

text \<open>\<^verbatim>\<open>str(uuid.UUID(bytes=value))\<close>.\<close>

definition uuid_text :: "bytes \<Rightarrow> pystr" where
  "uuid_text b =
     (let h = hexdigest b
      in take 8 h @ [45] @ take 4 (drop 8 h) @ [45] @ take 4 (drop 12 h) @ [45]
         @ take 4 (drop 16 h) @ [45] @ drop 20 h)"

text \<open>The version and the variant replace the high bits of two random bytes.\<close>

definition uuid7_bytes :: "int \<Rightarrow> bytes \<Rightarrow> bytes" where
  "uuid7_bytes ms random =
     ms_bytes ms @ [112 + random ! 0 mod 16, random ! 1, 128 + random ! 2 mod 64] @ take 7 (drop 3 random)"

definition new_record_id :: "int \<Rightarrow> bytes \<Rightarrow> pystr option" where
  "new_record_id us random =
     (let ms = unix_ms us
      in if 0 \<le> ms \<and> ms < 2 ^ 48 then Some (uuid_text (uuid7_bytes ms random)) else None)"

text \<open>The source time of the first fixture, and an instant where the two roundings lose a millisecond.\<close>

lemma unix_ms_examples: "unix_ms 1767225600000000 = 1767225600000" "unix_ms 1001000 = 1000"
  by code_simp+

lemma hexdigest_Cons: "hexdigest (b # bs) = hex_digit (b div 16) # hex_digit (b mod 16) # hexdigest bs"
  by (simp add: hexdigest_def)

lemma hexdigest_Nil: "hexdigest [] = []"
  by (simp add: hexdigest_def)

lemma hex_digit_lower: "d < 16 \<Longrightarrow> is_lower_hex (hex_digit d)"
  by (auto simp: is_lower_hex_def hex_digit_def)

lemma ten_bytes:
  assumes "byte_string random" "length random = 10"
  obtains a b c d e f g h i j where "random = [a, b, c, d, e, f, g, h, i, j]"
    "list_all (\<lambda>x. x < 256) [a, b, c, d, e, f, g, h, i, j]"
  using assms by (auto simp: byte_string_def numeral_eq_Suc length_Suc_conv list_all_iff)

text \<open>C24: Every identifier the client draws is a UUIDv7 in the schema's sense, whatever the clock reads within
  the 48-bit range and whatever the ten random bytes are; so a record is never refused for its
  identifier.\<close>

theorem new_record_id_valid:
  assumes "new_record_id us random = Some i" and "byte_string random" "length random = 10"
  shows "uuid7 i \<and> conforms TUuid7 (PStr i)"
proof -
  obtain a b c d e f g h k j where r: "random = [a, b, c, d, e, f, g, h, k, j]"
    and small: "list_all (\<lambda>x. x < 256) [a, b, c, d, e, f, g, h, k, j]"
    by (rule ten_bytes [OF assms(2,3)])
  have i: "i = uuid_text (uuid7_bytes (unix_ms us) random)"
    using assms(1) by (auto simp: new_record_id_def Let_def split: if_splits)
  have low: "is_lower_hex (hex_digit (x mod 16))" for x by (rule hex_digit_lower) simp
  have byte: "x < 256 \<Longrightarrow> is_lower_hex (hex_digit (x div 16))" for x by (rule hex_digit_lower) simp
  have ms: "list_all (\<lambda>x. x < 256) (ms_bytes n)" for n by (simp add: ms_bytes_def nat_less_iff)
  obtain m0 m1 m2 m3 m4 m5 where m: "ms_bytes (unix_ms us) = [m0, m1, m2, m3, m4, m5]"
    by (simp add: ms_bytes_def)
  have m_small: "list_all (\<lambda>x. x < 256) [m0, m1, m2, m3, m4, m5]" using ms [of "unix_ms us"] by (simp only: m)
  have "x < 16 \<Longrightarrow> (112 + x) div 16 = 7" "(128 + x) div 16 = 8 + x div 16" for x :: nat by presburger+
  then have version: "hex_digit ((112 + a mod 16) div 16) = 55"
    and variant: "(128 + c mod 64) div 16 = 8 + c mod 64 div 16" by (simp_all add: hex_digit_def)
  have variant_digit: "hex_digit (8 + c mod 64 div 16) \<in> {56, 57, 97, 98}"
  proof -
    have "c mod 64 div 16 \<in> {0, 1, 2, 3}" by auto
    then show ?thesis by (auto simp: hex_digit_def)
  qed
  have variant_low: "is_lower_hex (hex_digit (8 + c mod 64 div 16))"
    using variant_digit by (auto simp: is_lower_hex_def)
  have i: "i = [hex_digit (m0 div 16), hex_digit (m0 mod 16), hex_digit (m1 div 16), hex_digit (m1 mod 16),
      hex_digit (m2 div 16), hex_digit (m2 mod 16), hex_digit (m3 div 16), hex_digit (m3 mod 16), 45,
      hex_digit (m4 div 16), hex_digit (m4 mod 16), hex_digit (m5 div 16), hex_digit (m5 mod 16), 45,
      55, hex_digit ((112 + a mod 16) mod 16), hex_digit (b div 16), hex_digit (b mod 16), 45,
      hex_digit (8 + c mod 64 div 16), hex_digit ((128 + c mod 64) mod 16), hex_digit (d div 16), hex_digit (d mod 16), 45,
      hex_digit (e div 16), hex_digit (e mod 16), hex_digit (f div 16), hex_digit (f mod 16),
      hex_digit (g div 16), hex_digit (g mod 16), hex_digit (h div 16), hex_digit (h mod 16),
      hex_digit (k div 16), hex_digit (k mod 16), hex_digit (j div 16), hex_digit (j mod 16)]"
    unfolding i uuid_text_def uuid7_bytes_def m r by (simp add: hexdigest_Cons hexdigest_Nil Let_def version variant)
  have positions: "[0..<36] = [0, 1, 2, 3, 4, 5, 6, 7, 8, 9, 10, 11, 12, 13, 14, 15, 16, 17, 18, 19, 20, 21, 22, 23, 24, 25, 26, 27,
      28, 29, 30, 31, 32, 33, 34, 35]" by code_simp
  have digit: "is_lower_hex 55" by (simp add: is_lower_hex_def)
  have "uuid7 i"
    unfolding i uuid7_def positions using small m_small variant_digit variant_low digit by (simp add: low byte)
  then show ?thesis by simp
qed

text \<open>A clock reading and ten bytes.\<close>

lemma sample_record_id:
  "new_record_id 1767225600000000 [0, 1, 2, 3, 4, 5, 6, 7, 8, 255] = Some (str ''019b76da-a800-7001-8203-0405060708ff'')"
  by code_simp

theorem new_record_id_valid_witness: "uuid7 (str ''019b76da-a800-7001-8203-0405060708ff'')"
  using new_record_id_valid [OF sample_record_id] by (simp add: byte_string_def)

end
