(* ===== verification/Client.thy ===== *)
theory Client
  imports Buffers Client_Config Record_Ids
begin

text \<open>
  The collector client (\<^verbatim>\<open>sdk_python/client/client.py\<close> with \<^verbatim>\<open>records.py\<close>, \<^verbatim>\<open>gaps.py\<close>,
  \<^verbatim>\<open>identity.py\<close> and \<^verbatim>\<open>transport.py\<close>): it signs evidence locally, submits it or holds it in the
  bounded buffer, and accounts for what it refuses by signed gap records.  Sequence numbers and
  previous digests are assigned when a record is authored.  The clock, the random bytes and the answers
  of the ingestion service are inputs of an operation.
\<close>

section \<open>Transport\<close>

text \<open>What \<^verbatim>\<open>urlopen\<close> does; anything but the listed exceptions passes through.\<close>

datatype urlopen_result =
    Responds int "pystr option"
  | HttpError int "pystr option"
  | Unreachable
  | OtherException

datatype submit_outcome = Submitted | Unavailable | Rejected int pystr | SubmitRaises

definition http_submit :: "urlopen_result \<Rightarrow> submit_outcome" where
  "http_submit u =
     (case u of
        Responds status reason \<Rightarrow>
          if 400 \<le> status then Rejected status (case reason of None \<Rightarrow> [] | Some t \<Rightarrow> t) else Submitted
      | HttpError code reason \<Rightarrow> Rejected code (case reason of None \<Rightarrow> [] | Some t \<Rightarrow> t)
      | Unreachable \<Rightarrow> Unavailable
      | OtherException \<Rightarrow> SubmitRaises)"

section \<open>Envelopes and local signing\<close>

datatype client_error =
    NotCustomerOrigin
  | ClConfig config_error
  | ClValueError
  | ClTypeError
  | ClRecord record_error
  | SigningUnavailableError
  | ClCanonical canon_error
  | RecordRejectedError int pystr
  | FailClosedError
  | ClBufferFull
  | ClTransportRaises

record 'sk signing_identity =
  si_key_id :: pystr
  si_private_key :: 'sk

definition rfc3339 :: "pydatetime \<Rightarrow> client_error + pystr" where
  "rfc3339 t = (case t of Naive _ \<Rightarrow> Inl ClValueError | Aware us \<Rightarrow> Inr (utc_milliseconds_text us))"

text \<open>
  A clock reading and the random bytes drawn with it.  A naive reading is refused with a \<^verbatim>\<open>ValueError\<close>
  by \<^verbatim>\<open>rfc3339\<close> at the latest.
\<close>

type_synonym draw = "pydatetime \<times> bytes"

definition record_id_at :: "draw \<Rightarrow> client_error + pystr" where
  "record_id_at d =
     (case fst d of
        Naive _ \<Rightarrow> Inl ClValueError
      | Aware us \<Rightarrow> (case new_record_id us (snd d) of None \<Rightarrow> Inl ClValueError | Some i \<Rightarrow> Inr i))"

definition SDK_SCHEMA_VERSION :: pystr where "SDK_SCHEMA_VERSION = str ''1.0.0''"

definition client_stream_id :: "client_config \<Rightarrow> pystr" where
  "client_stream_id cfg = cc_tenant_id cfg @ [58] @ cc_collector_id cfg @ str '':1''"

definition envelope_members ::
    "client_config \<Rightarrow> pystr \<Rightarrow> pydict \<Rightarrow> pystr \<Rightarrow> int \<Rightarrow> pystr option \<Rightarrow> pystr \<Rightarrow> pydict" where
  "envelope_members cfg rtype rbody rid seq prev now =
     [(KStr (str ''record_id''), PStr rid),
      (KStr (str ''record_type''), PStr rtype),
      (KStr (str ''schema_version''), PStr SDK_SCHEMA_VERSION),
      (KStr (str ''tenant_id''), PStr (cc_tenant_id cfg)),
      (KStr (str ''boundary_ref''), PStr (cc_boundary_ref cfg)),
      (KStr (str ''stream_id''), PStr (client_stream_id cfg)),
      (KStr (str ''sequence''), PInt seq),
      (KStr (str ''prev_digest''), opt_str prev),
      (KStr (str ''source''), PDict
        [(KStr (str ''collector_id''), PStr (cc_collector_id cfg)),
         (KStr (str ''implementation''), PStr (str ''sdk-python'')),
         (KStr (str ''version''), PStr (str ''0.1.0'')),
         (KStr (str ''deployment''), PStr (cc_deployment cfg))]),
      (KStr (str ''clocks''), PDict [(KStr (str ''source_time''), PStr now)]),
      (KStr (str ''body''), PDict rbody),
      (KStr (str ''signature''), PDict [])]"

definition build_envelope ::
    "client_config \<Rightarrow> pystr \<Rightarrow> pydict \<Rightarrow> int \<Rightarrow> pystr option \<Rightarrow> draw \<Rightarrow> client_error + pydict" where
  "build_envelope cfg rtype rbody seq prev d =
     rbind (record_id_at d) (\<lambda>rid.
     rbind (rfc3339 (fst d)) (\<lambda>now.
     Inr (envelope_members cfg rtype rbody rid seq prev now)))"

text \<open>
  \<^verbatim>\<open>sign_locally\<close>: only signing itself is wrapped; a refused envelope and a failing serialization
  escape as they are.
\<close>

definition sign_locally ::
    "('sk, 'pk) crypto \<Rightarrow> 'sk signing_identity \<Rightarrow> pydict \<Rightarrow> client_error + buffered_record \<times> pystr" where
  "sign_locally c identity envelope =
     (case validate_record envelope of
        Inl e \<Rightarrow> Inl (ClRecord e)
      | Inr unsigned \<Rightarrow>
     (case sign_record c unsigned (si_key_id identity) (si_private_key identity) None of
        Inl _ \<Rightarrow> Inl SigningUnavailableError
      | Inr signed \<Rightarrow>
     (case serialize_record signed of
        Inl e \<Rightarrow> Inl (ClCanonical e)
      | Inr raw \<Rightarrow>
     let b = \<lparr>br_record_id = record_id signed, br_record_type = record_type signed, br_stream_id = stream_id signed,
              br_sequence = sequence signed, br_signed_at = source_time (record_clocks signed),
              br_canonical_bytes = raw\<rparr>
     in if \<not> buffered_record_ok b then Inl ClValueError
        else (case record_digest (sha256 c) signed of
                Inl e \<Rightarrow> Inl (ClCanonical e)
              | Inr digest \<Rightarrow> Inr (b, digest)))))"

text \<open>Comparing an aware with a naive reading raises \<^verbatim>\<open>TypeError\<close>.\<close>

definition earlier :: "pydatetime \<Rightarrow> pydatetime \<Rightarrow> client_error + bool" where
  "earlier a b =
     (case (a, b) of
        (Aware x, Aware y) \<Rightarrow> Inr (x < y)
      | (Naive x, Naive y) \<Rightarrow> Inr (x < y)
      | _ \<Rightarrow> Inl ClTypeError)"

definition affected_scope :: "client_config \<Rightarrow> pystr \<Rightarrow> pydict" where
  "affected_scope cfg family =
     [(KStr (str ''action_family''), PStr family),
      (KStr (str ''collector''), PStr (cc_collector_id cfg)),
      (KStr (str ''stream_id''), PStr (client_stream_id cfg))]"

definition gap_members :: "pydict \<Rightarrow> pystr \<Rightarrow> pystr \<Rightarrow> pystr \<Rightarrow> pystr \<Rightarrow> int option \<Rightarrow> pystr \<Rightarrow> pydict" where
  "gap_members scope gap_start gap_end cause exposure actions detection =
     [(KStr (str ''gap_start''), PStr gap_start),
      (KStr (str ''gap_end''), PStr gap_end),
      (KStr (str ''affected_scope''), PDict scope),
      (KStr (str ''cause''), PStr cause),
      (KStr (str ''detection_source''), PStr detection),
      (KStr (str ''exposure''), PStr exposure),
      (KStr (str ''actions_during_gap''), case actions of None \<Rightarrow> PNone | Some n \<Rightarrow> PInt n)]"

definition build_coverage_gap ::
    "('sk, 'pk) crypto \<Rightarrow> client_config \<Rightarrow> 'sk signing_identity \<Rightarrow> int \<Rightarrow> pystr option \<Rightarrow> pydatetime \<Rightarrow> draw
     \<Rightarrow> pydict \<Rightarrow> pystr \<Rightarrow> pystr \<Rightarrow> int option \<Rightarrow> pystr \<Rightarrow> client_error + buffered_record \<times> pystr" where
  "build_coverage_gap c cfg identity seq prev gap_start d scope cause exposure actions detection =
     rbind (earlier (fst d) gap_start) (\<lambda>backwards.
     if backwards then Inl ClValueError
     else
     rbind (rfc3339 gap_start) (\<lambda>s.
     rbind (rfc3339 (fst d)) (\<lambda>e.
     rbind (build_envelope cfg (str ''CoverageGap'') (gap_members scope s e cause exposure actions detection)
              seq prev d) (\<lambda>envelope.
     sign_locally c identity envelope))))"

section \<open>The client\<close>

record client =
  cl_buffer :: bounded_buffer
  cl_gaps :: "buffered_record list"
  cl_sequence :: int
  cl_prev_digest :: "pystr option"
  cl_unreachable_since :: "pydatetime option"
  cl_exhausted_since :: "pydatetime option"
  cl_uncaptured :: int

definition new_client :: "client_config \<Rightarrow> client" where
  "new_client cfg =
     \<lparr>cl_buffer = \<lparr>bb_bound = cc_buffer_bound cfg, bb_items = [], bb_refused = 0\<rparr>, cl_gaps = [], cl_sequence = 0,
      cl_prev_digest = None, cl_unreachable_since = None, cl_exhausted_since = None, cl_uncaptured = 0\<rparr>"

text \<open>Everything awaiting submission, in authored order.\<close>

definition pending :: "client \<Rightarrow> buffered_record list" where
  "pending s = sort_key br_sequence (bb_items (cl_buffer s) @ cl_gaps s)"

definition CUSTOMER_RECORD_TYPES :: "pystr list" where
  "CUSTOMER_RECORD_TYPES = map str [''AssuranceBoundary'', ''QualificationRecord'', ''AgentIdentity'',
     ''ActionProposal'', ''AuthorityDecision'', ''HumanReview'', ''ExecutionReceipt'', ''FinalityRecord'',
     ''OutcomeRecord'', ''CoverageGap'']"

record emission_result =
  er_record_id :: pystr
  er_record_type :: pystr
  er_sequence :: "int option"
  er_submitted :: bool
  er_buffered :: bool

definition captured :: "emission_result \<Rightarrow> bool" where
  "captured r \<longleftrightarrow> er_submitted r \<or> er_buffered r"

text \<open>The inputs of one emission: draws for the record and the gap, the clock when absence is noted, the transport.\<close>

record emission_inputs =
  ei_record :: draw
  ei_gap :: draw
  ei_absent_at :: pydatetime
  ei_submit :: "bytes \<Rightarrow> submit_outcome"

text \<open>\<^verbatim>\<open>_author\<close>.  The sequence is taken before anything can fail and is not given back.\<close>

definition author ::
    "('sk, 'pk) crypto \<Rightarrow> client_config \<Rightarrow> 'sk signing_identity \<Rightarrow> client \<Rightarrow> pystr \<Rightarrow> pydict \<Rightarrow> draw
     \<Rightarrow> client \<times> (client_error + buffered_record)" where
  "author c cfg identity s rtype rbody d =
     (let s' = s\<lparr>cl_sequence := cl_sequence s + 1\<rparr> in
      case rbind (build_envelope cfg rtype rbody (cl_sequence s') (cl_prev_digest s') d) (sign_locally c identity) of
        Inl e \<Rightarrow> (s', Inl e)
      | Inr (b, digest) \<Rightarrow> (s'\<lparr>cl_prev_digest := Some digest\<rparr>, Inr b))"

text \<open>\<^verbatim>\<open>_emit_gap\<close> with the cause and the count of its two callers; the start is kept even if signing fails.\<close>

definition emit_gap ::
    "('sk, 'pk) crypto \<Rightarrow> client_config \<Rightarrow> 'sk signing_identity \<Rightarrow> client \<Rightarrow> draw \<Rightarrow> pystr \<Rightarrow> pystr \<Rightarrow> int option
     \<Rightarrow> client \<times> (client_error + buffered_record)" where
  "emit_gap c cfg identity s d cause family actions =
     (let since = (case cl_exhausted_since s of None \<Rightarrow> fst d | Some t \<Rightarrow> t);
          s' = s\<lparr>cl_exhausted_since := Some since, cl_sequence := cl_sequence s + 1\<rparr>;
          exposure = (if actions = None then str ''unknown'' else str ''known'') in
      case build_coverage_gap c cfg identity (cl_sequence s') (cl_prev_digest s') since d
             (affected_scope cfg family) cause exposure actions (str ''python-sdk-client'') of
        Inl e \<Rightarrow> (s', Inl e)
      | Inr (gap, digest) \<Rightarrow>
          (s'\<lparr>cl_prev_digest := Some digest, cl_gaps := cl_gaps s' @ [gap]\<rparr>, Inr gap))"

definition note_unreachable :: "client \<Rightarrow> pydatetime \<Rightarrow> client" where
  "note_unreachable s now =
     (if cl_unreachable_since s = None then s\<lparr>cl_unreachable_since := Some now\<rparr> else s)"

definition emitted :: "buffered_record \<Rightarrow> int option \<Rightarrow> bool \<Rightarrow> bool \<Rightarrow> emission_result" where
  "emitted b seq submitted buffered =
     \<lparr>er_record_id = br_record_id b, er_record_type = br_record_type b, er_sequence = seq,
      er_submitted = submitted, er_buffered = buffered\<rparr>"

text \<open>An operation yields the client it leaves, the bytes the service accepted and its outcome.\<close>

type_synonym emission = "client \<times> bytes list \<times> (client_error + emission_result)"

definition buffer_or_gap ::
    "('sk, 'pk) crypto \<Rightarrow> client_config \<Rightarrow> 'sk signing_identity \<Rightarrow> client \<Rightarrow> buffered_record \<Rightarrow> family_policy
     \<Rightarrow> pystr \<Rightarrow> int \<times> pystr option \<Rightarrow> draw \<Rightarrow> emission" where
  "buffer_or_gap c cfg identity s b policy family anchor d =
     (if \<not> is_full (cl_buffer s) then
        (case buffer_append (cl_buffer s) b of
           Inl _ \<Rightarrow> (s, [], Inl ClBufferFull)
         | Inr q \<Rightarrow> (s\<lparr>cl_buffer := q\<rparr>, [], Inr (emitted b (Some (br_sequence b)) False True)))
      else
     let s = s\<lparr>cl_sequence := fst anchor, cl_prev_digest := snd anchor\<rparr> in
     if fp_behaviour policy = Fail_Closed then
       (case emit_gap c cfg identity s d (str ''collector_unreachable'') family (Some 0) of
          (s, Inl e) \<Rightarrow> (s, [], Inl e)
        | (s, Inr _) \<Rightarrow> (s, [], Inl FailClosedError))
     else
       let s = s\<lparr>cl_uncaptured := cl_uncaptured s + 1\<rparr> in
       (case emit_gap c cfg identity s d (str ''collector_unreachable'') family (Some (cl_uncaptured s)) of
          (s, Inl e) \<Rightarrow> (s, [], Inl e)
        | (s, Inr _) \<Rightarrow>
            (s\<lparr>cl_buffer := record_refusal (cl_buffer s)\<rparr>, [], Inr (emitted b None False False))))"

definition deliver ::
    "('sk, 'pk) crypto \<Rightarrow> client_config \<Rightarrow> 'sk signing_identity \<Rightarrow> client \<Rightarrow> buffered_record \<Rightarrow> family_policy
     \<Rightarrow> pystr \<Rightarrow> int \<times> pystr option \<Rightarrow> emission_inputs \<Rightarrow> emission" where
  "deliver c cfg identity s b policy family anchor inp =
     (case ei_submit inp (br_canonical_bytes b) of
        Unavailable \<Rightarrow>
          buffer_or_gap c cfg identity (note_unreachable s (ei_absent_at inp)) b policy family anchor (ei_gap inp)
      | Rejected status detail \<Rightarrow>
          (s\<lparr>cl_sequence := fst anchor, cl_prev_digest := snd anchor\<rparr>, [], Inl (RecordRejectedError status detail))
      | SubmitRaises \<Rightarrow> (s, [], Inl ClTransportRaises)
      | Submitted \<Rightarrow>
          (s\<lparr>cl_unreachable_since := None\<rparr>, [br_canonical_bytes b], Inr (emitted b (Some (br_sequence b)) True False)))"

definition emit ::
    "('sk, 'pk) crypto \<Rightarrow> client_config \<Rightarrow> 'sk signing_identity \<Rightarrow> client \<Rightarrow> pystr \<Rightarrow> pydict \<Rightarrow> pystr
     \<Rightarrow> emission_inputs \<Rightarrow> emission" where
  "emit c cfg identity s rtype rbody family inp =
     (if rtype \<notin> set CUSTOMER_RECORD_TYPES then (s, [], Inl NotCustomerOrigin)
      else case policy_for cfg family of
        Inl e \<Rightarrow> (s, [], Inl (ClConfig e))
      | Inr policy \<Rightarrow>
     let anchor = (cl_sequence s, cl_prev_digest s) in
     (case author c cfg identity s rtype rbody (ei_record inp) of
        (s, Inl e) \<Rightarrow> (s, [], Inl e)
      | (s, Inr b) \<Rightarrow> deliver c cfg identity s b policy family anchor inp))"

section \<open>Flushing\<close>

record flush_result =
  fr_record_id :: pystr
  fr_record_type :: pystr
  fr_sequence :: int
  fr_canonical_bytes :: bytes
  fr_accepted :: bool

definition flushed :: "buffered_record \<Rightarrow> flush_result" where
  "flushed b =
     \<lparr>fr_record_id = br_record_id b, fr_record_type = br_record_type b, fr_sequence = br_sequence b,
      fr_canonical_bytes = br_canonical_bytes b, fr_accepted = True\<rparr>"

text \<open>The loop: what was sent, what is left, and the exception that ended it, if any.\<close>

fun submit_all ::
    "(bytes \<Rightarrow> submit_outcome) \<Rightarrow> buffered_record list
     \<Rightarrow> buffered_record list \<times> buffered_record list \<times> client_error option" where
  "submit_all submit [] = ([], [], None)"
| "submit_all submit (b # bs) =
     (case submit (br_canonical_bytes b) of
        Submitted \<Rightarrow> (let (sent, unsent, e) = submit_all submit bs in (b # sent, unsent, e))
      | Unavailable \<Rightarrow> (let (sent, unsent, e) = submit_all submit bs in (sent, b # unsent, e))
      | Rejected status detail \<Rightarrow> ([], [], Some (RecordRejectedError status detail))
      | SubmitRaises \<Rightarrow> ([], [], Some ClTransportRaises))"

text \<open>What the service accepted is returned beside the outcome; an exception leaves the client as it was.\<close>

definition flush ::
    "client \<Rightarrow> (bytes \<Rightarrow> submit_outcome) \<Rightarrow> client \<times> bytes list \<times> (client_error + flush_result list)" where
  "flush s submit =
     (let (sent, unsent, e) = submit_all submit (pending s) in
      case e of
        Some x \<Rightarrow> (s, map br_canonical_bytes sent, Inl x)
      | None \<Rightarrow>
     let sent_ids = map br_record_id sent;
         (_, q) = drain (cl_buffer s);
         q = restore q (filter (\<lambda>b. br_record_type b \<noteq> str ''CoverageGap'') unsent);
         s = s\<lparr>cl_buffer := q, cl_gaps := filter (\<lambda>g. br_record_id g \<notin> set sent_ids) (cl_gaps s)\<rparr>;
         s = (if unsent = [] then s\<lparr>cl_unreachable_since := None\<rparr> else s);
         s = (if \<not> is_full q then s\<lparr>cl_exhausted_since := None, cl_uncaptured := 0\<rparr> else s)
     in (s, map br_canonical_bytes sent, Inr (map flushed sent)))"

end
