(* ===== verification/Client_Facts.thy ===== *)
theory Client_Facts
  imports Client Chain Signed_Wire Trust
begin

text \<open>
  What the collector client guarantees.  The records it authors are followed as a ghost sequence: the
  invariant says that this sequence is one hash-linked chain and that every record of it is with
  the service, in the buffer or among the gaps.
\<close>

section \<open>What the operations leave\<close>

text \<open>A signed record and the form it is held in.\<close>

definition held_as :: "evidence_record \<Rightarrow> buffered_record \<Rightarrow> bool" where
  "held_as r b \<longleftrightarrow> serialize_record r = Inr (br_canonical_bytes b) \<and> br_record_id b = record_id r
     \<and> br_record_type b = record_type r \<and> br_sequence b = sequence r"

definition authored ::
    "('sk, 'pk) crypto \<Rightarrow> client_config \<Rightarrow> 'sk signing_identity \<Rightarrow> evidence_record \<Rightarrow> bool" where
  "authored c cfg identity r \<longleftrightarrow> record_type r \<in> set CUSTOMER_RECORD_TYPES
     \<and> stream_id r = client_stream_id cfg \<and> digest_opt c r \<noteq> None
     \<and> (\<exists>u. sign_record c u (si_key_id identity) (si_private_key identity) None = Inr r)"

lemma sign_locally_Inr:
  assumes "sign_locally c identity (envelope_members cfg rtype rbody rid seq prev now) = Inr (b, digest)"
    and "rtype \<in> set CUSTOMER_RECORD_TYPES"
  obtains r where "authored c cfg identity r" "held_as r b" "record_type r = rtype" "record_id r = rid"
    "sequence r = seq" "prev_digest r = prev" "digest_opt c r = Some digest" "1 \<le> seq"
proof -
  obtain u r where v: "validate_record (envelope_members cfg rtype rbody rid seq prev now) = Inr u"
    and s: "sign_record c u (si_key_id identity) (si_private_key identity) None = Inr r"
    and raw: "serialize_record r = Inr (br_canonical_bytes b)" and d: "record_digest (sha256 c) r = Inr digest"
    and b: "br_record_id b = record_id r" "br_record_type b = record_type r" "br_sequence b = sequence r"
      "1 \<le> sequence r"
    using assms by (auto simp: sign_locally_def Let_def buffered_record_ok_def split: sum.splits if_splits)
  have u: "u = record_of (envelope_members cfg rtype rbody rid seq prev now)" using v by (rule validate_record_Inr)
  have "record_type u = rtype" "record_id u = rid" "sequence u = seq" "prev_digest u = prev"
    "stream_id u = client_stream_id cfg"
    unfolding u envelope_members_def
    by (simp_all add: record_of_def member_Cons str_of_def int_of_val_def opt_str_of_def opt_str_def split: option.splits)
  moreover obtain sg where "r = u\<lparr>signature := sg\<rparr>" using s by (rule sign_record_Inr) blast
  ultimately have r: "record_type r = rtype" "record_id r = rid" "sequence r = seq" "prev_digest r = prev"
    "stream_id r = client_stream_id cfg" by simp_all
  show thesis
    using that [of r] r b raw d s assms(2) by (auto simp: authored_def held_as_def digest_opt_def)
qed

lemma record_id_at_Inr:
  "record_id_at d = Inr rid \<longleftrightarrow> (\<exists>us. fst d = Aware us \<and> new_record_id us (snd d) = Some rid)"
  by (auto simp: record_id_at_def split: pydatetime.splits option.splits)

text \<open>The record an operation authors extends the stream by one position.\<close>

lemma author_Inr:
  assumes "author c cfg identity s rtype rbody d = (s', Inr b)" and "rtype \<in> set CUSTOMER_RECORD_TYPES"
  obtains r where "authored c cfg identity r" "held_as r b" "record_type r = rtype" "record_id_at d = Inr (record_id r)"
    "sequence r = cl_sequence s + 1" "prev_digest r = cl_prev_digest s"
    "s' = s\<lparr>cl_sequence := cl_sequence s + 1, cl_prev_digest := digest_opt c r\<rparr>"
proof -
  obtain rid now digest where rid: "record_id_at d = Inr rid"
    and sign: "sign_locally c identity
        (envelope_members cfg rtype rbody rid (cl_sequence s + 1) (cl_prev_digest s) now) = Inr (b, digest)"
    and s': "s' = s\<lparr>cl_sequence := cl_sequence s + 1, cl_prev_digest := Some digest\<rparr>"
    using assms(1) by (auto simp: author_def build_envelope_def Let_def rbind_eq_Inr split: sum.splits)
  show thesis by (rule sign_locally_Inr [OF sign assms(2)]) (use that rid s' in auto)
qed

lemma emit_gap_Inr:
  assumes "emit_gap c cfg identity s d cause family actions = (s', Inr g)"
  obtains r where "authored c cfg identity r" "held_as r g" "record_type r = str ''CoverageGap''"
    "record_id_at d = Inr (record_id r)" "sequence r = cl_sequence s + 1" "prev_digest r = cl_prev_digest s"
    "cl_sequence s' = cl_sequence s + 1" "cl_prev_digest s' = digest_opt c r" "cl_buffer s' = cl_buffer s"
    "cl_gaps s' = cl_gaps s @ [g]"
proof -
  obtain rbody rid now digest where rid: "record_id_at d = Inr rid"
    and sign: "sign_locally c identity
        (envelope_members cfg (str ''CoverageGap'') rbody rid (cl_sequence s + 1) (cl_prev_digest s) now) = Inr (g, digest)"
    and s': "cl_sequence s' = cl_sequence s + 1" "cl_prev_digest s' = Some digest" "cl_buffer s' = cl_buffer s"
      "cl_gaps s' = cl_gaps s @ [g]"
    using assms by (auto simp: emit_gap_def build_coverage_gap_def build_envelope_def Let_def rbind_eq_Inr split: sum.splits if_splits)
  have "str ''CoverageGap'' \<in> set CUSTOMER_RECORD_TYPES" by (simp add: CUSTOMER_RECORD_TYPES_def)
  then show thesis by (rule sign_locally_Inr [OF sign]) (use that rid s' in auto)
qed

text \<open>
  The errors after which the stream stands where it stood: a call that is refused before anything is
  authored, a record the service refused, and a fail-closed refusal that is accounted for by a gap.
\<close>

fun undisturbed :: "client_error + emission_result \<Rightarrow> bool" where
  "undisturbed (Inr _) = True"
| "undisturbed (Inl e) =
     (case e of
        NotCustomerOrigin \<Rightarrow> True | ClConfig _ \<Rightarrow> True | RecordRejectedError _ _ \<Rightarrow> True | FailClosedError \<Rightarrow> True
      | _ \<Rightarrow> False)"

text \<open>The errors of authoring a record or a gap: the position they took is gone.\<close>

fun position_lost :: "client_error \<Rightarrow> bool" where
  "position_lost NotCustomerOrigin = False"
| "position_lost (ClConfig _) = False"
| "position_lost (RecordRejectedError _ _) = False"
| "position_lost FailClosedError = False"
| "position_lost ClTransportRaises = False"
| "position_lost _ = True"

lemma position_lost_disturbs: "position_lost e \<Longrightarrow> \<not> undisturbed (Inl e)"
  by (cases e) simp_all

lemma sign_locally_Inl: "sign_locally c identity envelope = Inl e \<Longrightarrow> position_lost e"
  by (auto simp: sign_locally_def Let_def split: sum.splits if_splits)

lemma build_envelope_Inl: "build_envelope cfg rtype rbody seq prev d = Inl e \<Longrightarrow> position_lost e"
  by (auto simp: build_envelope_def record_id_at_def rfc3339_def rbind_eq_Inl split: pydatetime.splits option.splits)

lemma author_Inl: "author c cfg identity s rtype rbody d = (s', Inl e) \<Longrightarrow> position_lost e"
  by (auto simp: author_def Let_def rbind_eq_Inl split: sum.splits dest: sign_locally_Inl build_envelope_Inl)

lemma emit_gap_Inl: "emit_gap c cfg identity s d cause family actions = (s', Inl e) \<Longrightarrow> position_lost e"
  by (auto simp: emit_gap_def build_coverage_gap_def earlier_def rfc3339_def Let_def rbind_eq_Inl
      split: sum.splits pydatetime.splits if_splits dest: sign_locally_Inl build_envelope_Inl)

text \<open>At the bound the record gives its position back and a gap takes it.\<close>

lemma buffer_or_gap_cases:
  assumes "buffer_or_gap c cfg identity s b policy family anchor d = (s', sent, out)" and "undisturbed out"
  obtains (room) "\<not> is_full (cl_buffer s)" "buffer_append (cl_buffer s) b = Inr (cl_buffer s')"
      "s' = s\<lparr>cl_buffer := cl_buffer s'\<rparr>" "sent = []"
  | (gap) a g cause actions s2 where "is_full (cl_buffer s)" "sent = []"
      "cl_buffer a = cl_buffer s" "cl_gaps a = cl_gaps s" "cl_sequence a = fst anchor" "cl_prev_digest a = snd anchor"
      "emit_gap c cfg identity a d cause family actions = (s2, Inr g)"
      "cl_gaps s' = cl_gaps s2" "cl_sequence s' = cl_sequence s2" "cl_prev_digest s' = cl_prev_digest s2"
      "bb_items (cl_buffer s') = bb_items (cl_buffer s2)" "bb_bound (cl_buffer s') = bb_bound (cl_buffer s2)"
proof (cases "is_full (cl_buffer s)")
  case False
  then obtain q where "buffer_append (cl_buffer s) b = Inr q" by (auto simp: buffer_append_def)
  then show thesis using assms False by (intro room) (auto simp: buffer_or_gap_def)
next
  case full: True
  let ?a = "s\<lparr>cl_sequence := fst anchor, cl_prev_digest := snd anchor\<rparr>"
  show thesis
  proof (cases "fp_behaviour policy = Fail_Closed")
    case True
    obtain s2 x where e: "emit_gap c cfg identity ?a d (str ''collector_unreachable'') family (Some 0) = (s2, x)"
      by fastforce
    show thesis
    proof (cases x)
      case (Inl err)
      then show thesis using assms full True e position_lost_disturbs [OF emit_gap_Inl [OF e [unfolded Inl]]]
        by (auto simp: buffer_or_gap_def Let_def simp del: undisturbed.simps)
    next
      case (Inr g)
      then show thesis using assms full True e by (intro gap [OF full _ _ _ _ _ e [unfolded Inr]]) (simp_all add: buffer_or_gap_def Let_def)
    qed
  next
    case False
    let ?b = "?a\<lparr>cl_uncaptured := cl_uncaptured ?a + 1\<rparr>"
    obtain s2 x where e: "emit_gap c cfg identity ?b d (str ''collector_unreachable'') family (Some (cl_uncaptured ?b)) = (s2, x)"
      by fastforce
    show thesis
    proof (cases x)
      case (Inl err)
      then show thesis using assms full False e position_lost_disturbs [OF emit_gap_Inl [OF e [unfolded Inl]]]
        by (auto simp: buffer_or_gap_def Let_def simp del: undisturbed.simps)
    next
      case (Inr g)
      then show thesis using assms full False e
        by (intro gap [OF full _ _ _ _ _ e [unfolded Inr]]) (auto simp: buffer_or_gap_def Let_def record_refusal_def)
    qed
  qed
qed

text \<open>The four things an undisturbed emission does to the stream.\<close>

datatype held_where = With_Service | In_Buffer | In_Gaps

lemma emit_cases:
  assumes "emit c cfg identity s rtype rbody family inp = (s', sent, out)" and "undisturbed out"
  obtains (unchanged) "cl_sequence s' = cl_sequence s" "cl_prev_digest s' = cl_prev_digest s" "cl_buffer s' = cl_buffer s"
      "cl_gaps s' = cl_gaps s" "sent = []"
  | (extended) r b d w where "authored c cfg identity r" "held_as r b" "record_id_at d = Inr (record_id r)"
      "d = ei_record inp \<or> d = ei_gap inp"
      "sequence r = cl_sequence s + 1" "prev_digest r = cl_prev_digest s"
      "cl_sequence s' = cl_sequence s + 1" "cl_prev_digest s' = digest_opt c r"
      "case w of
         With_Service \<Rightarrow> sent = [br_canonical_bytes b] \<and> bb_items (cl_buffer s') = bb_items (cl_buffer s)
           \<and> cl_gaps s' = cl_gaps s \<and> (\<exists>res. out = Inr res \<and> er_submitted res)
       | In_Buffer \<Rightarrow> sent = [] \<and> buffer_append (cl_buffer s) b = Inr (cl_buffer s') \<and> cl_gaps s' = cl_gaps s
           \<and> record_type r = rtype
       | In_Gaps \<Rightarrow> sent = [] \<and> is_full (cl_buffer s) \<and> bb_items (cl_buffer s') = bb_items (cl_buffer s)
           \<and> cl_gaps s' = cl_gaps s @ [b] \<and> record_type r = str ''CoverageGap''"
      "bb_bound (cl_buffer s') = bb_bound (cl_buffer s)"
proof (cases "rtype \<in> set CUSTOMER_RECORD_TYPES")
  case False
  then show thesis using assms by - (rule unchanged; simp add: emit_def)
next
  case type: True
  show thesis
  proof (cases "policy_for cfg family")
    case (Inl e)
    then show thesis using assms type by - (rule unchanged; simp add: emit_def)
  next
    case (Inr policy)
    obtain s1 res where author: "author c cfg identity s rtype rbody (ei_record inp) = (s1, res)" by fastforce
    show thesis
    proof (cases res)
      case (Inl e)
      then show thesis using assms author position_lost_disturbs [OF author_Inl [OF author [unfolded Inl]]] Inr type
        by (auto simp: emit_def Let_def simp del: undisturbed.simps)
    next
      case b: (Inr b)
      obtain r where r: "authored c cfg identity r" "held_as r b" "record_type r = rtype"
          "record_id_at (ei_record inp) = Inr (record_id r)"
          "sequence r = cl_sequence s + 1" "prev_digest r = cl_prev_digest s"
        and s1: "s1 = s\<lparr>cl_sequence := cl_sequence s + 1, cl_prev_digest := digest_opt c r\<rparr>"
        by (rule author_Inr [OF author [unfolded b] type]) blast
      have deliver: "deliver c cfg identity s1 b policy family (cl_sequence s, cl_prev_digest s) inp = (s', sent, out)"
        using assms(1) author b type Inr by (simp add: emit_def)
      show thesis
      proof (cases "ei_submit inp (br_canonical_bytes b)")
        case Submitted
        then show thesis
          using deliver r extended [of r b "ei_record inp" With_Service] by (auto simp: deliver_def s1 emitted_def)
      next
        case (Rejected x y)
        then show thesis using deliver by - (rule unchanged; simp add: deliver_def s1)
      next
        case SubmitRaises
        then show thesis using deliver assms(2) by (auto simp: deliver_def)
      next
        case Unavailable
        let ?s = "note_unreachable s1 (ei_absent_at inp)"
        have n: "cl_buffer ?s = cl_buffer s" "cl_gaps ?s = cl_gaps s" "cl_sequence ?s = cl_sequence s + 1"
          "cl_prev_digest ?s = digest_opt c r"
          by (simp_all add: note_unreachable_def s1)
        have out: "buffer_or_gap c cfg identity ?s b policy family (cl_sequence s, cl_prev_digest s) (ei_gap inp) = (s', sent, out)"
          using deliver Unavailable by (simp add: deliver_def)
        from out assms(2) show thesis
        proof (cases rule: buffer_or_gap_cases)
          case room
          have "bb_bound (cl_buffer s') = bb_bound (cl_buffer s)" using bf.put_Inr(2) [OF room(2)] n by simp
          moreover have "cl_sequence s' = cl_sequence ?s" "cl_prev_digest s' = cl_prev_digest ?s" "cl_gaps s' = cl_gaps ?s"
            by (subst room(3); simp)+
          ultimately show thesis
            by (intro extended [of r b "ei_record inp" In_Buffer]) (use room(2,4) r n in simp_all)
        next
          case (gap a g cause actions s2)
          show thesis
            by (rule emit_gap_Inr [OF gap(7)], rule extended [of _ g "ei_gap inp" In_Gaps]) (use gap n in auto)
        qed
      qed
    qed
  qed
qed

text \<open>The errors that a caller's body, clock or key can cause.\<close>

definition authoring_error :: "client_error \<Rightarrow> bool" where
  "authoring_error e \<longleftrightarrow> e \<in> {SigningUnavailableError, ClValueError} \<union> range ClRecord"

lemma authoring_error_lost: "authoring_error e \<Longrightarrow> position_lost e"
  by (auto simp: authoring_error_def)

lemma author_error_state:
  "author c cfg identity s rtype rbody d = (s', Inl e) \<Longrightarrow> s' = s\<lparr>cl_sequence := cl_sequence s + 1\<rparr>"
  by (auto simp: author_def Let_def split: sum.splits)

lemma emit_gap_error_state:
  "emit_gap c cfg identity s d cause family actions = (s', Inl e) \<Longrightarrow>
     cl_sequence s' = cl_sequence s + 1 \<and> cl_prev_digest s' = cl_prev_digest s
     \<and> cl_buffer s' = cl_buffer s \<and> cl_gaps s' = cl_gaps s"
  by (auto simp: emit_gap_def Let_def split: sum.splits)

lemma emit_error_state:
  assumes "emit c cfg identity s rtype rbody family inp = (s', sent, Inl e)" and "position_lost e"
  shows "cl_sequence s' = cl_sequence s + 1 \<and> cl_prev_digest s' = cl_prev_digest s
    \<and> cl_buffer s' = cl_buffer s \<and> cl_gaps s' = cl_gaps s \<and> sent = []"
proof -
  obtain policy s1 res where p: "policy_for cfg family = Inr policy" and type: "rtype \<in> set CUSTOMER_RECORD_TYPES"
    and author: "author c cfg identity s rtype rbody (ei_record inp) = (s1, res)"
    using assms by (cases "author c cfg identity s rtype rbody (ei_record inp)")
      (auto simp: emit_def split: if_splits sum.splits)
  show ?thesis
  proof (cases res)
    case (Inl x)
    have sent: "s1 = s'" "sent = []" using assms(1) author Inl p type by (simp_all add: emit_def)
    have s': "s' = s\<lparr>cl_sequence := cl_sequence s + 1\<rparr>"
      using author_error_state [OF author [unfolded Inl]] by (simp only: sent)
    show ?thesis by (subst s', subst s', subst s', subst s') (simp add: sent)
  next
    case (Inr b)
    obtain r where s1: "s1 = s\<lparr>cl_sequence := cl_sequence s + 1, cl_prev_digest := digest_opt c r\<rparr>"
      by (rule author_Inr [OF author [unfolded Inr] type]) blast
    have d: "deliver c cfg identity s1 b policy family (cl_sequence s, cl_prev_digest s) inp = (s', sent, Inl e)"
      using assms(1) author Inr type p by (simp add: emit_def)
    let ?s = "note_unreachable s1 (ei_absent_at inp)"
    have "buffer_or_gap c cfg identity ?s b policy family (cl_sequence s, cl_prev_digest s) (ei_gap inp) = (s', sent, Inl e)"
      using d assms(2) by (auto simp: deliver_def split: submit_outcome.splits)
    moreover have "cl_buffer ?s = cl_buffer s" "cl_gaps ?s = cl_gaps s" by (simp_all add: note_unreachable_def s1)
    ultimately show ?thesis using assms(2)
      by (auto simp: buffer_or_gap_def buffer_append_def Let_def
          split: if_splits prod.splits sum.splits dest!: emit_gap_error_state)
  qed
qed

text \<open>The record that an emission hands to the transport, and what it handed over without an answer.\<close>

definition offered ::
    "('sk, 'pk) crypto \<Rightarrow> client_config \<Rightarrow> 'sk signing_identity \<Rightarrow> client \<Rightarrow> pystr \<Rightarrow> pydict \<Rightarrow> pystr
     \<Rightarrow> emission_inputs \<Rightarrow> buffered_record option" where
  "offered c cfg identity s rtype rbody family inp =
     (if rtype \<notin> set CUSTOMER_RECORD_TYPES then None
      else case policy_for cfg family of
        Inl _ \<Rightarrow> None
      | Inr _ \<Rightarrow>
          (case author c cfg identity s rtype rbody (ei_record inp) of (_, Inl _) \<Rightarrow> None | (_, Inr b) \<Rightarrow> Some b))"

definition unanswered ::
    "('sk, 'pk) crypto \<Rightarrow> client_config \<Rightarrow> 'sk signing_identity \<Rightarrow> client \<Rightarrow> pystr \<Rightarrow> pydict \<Rightarrow> pystr
     \<Rightarrow> emission_inputs \<Rightarrow> bytes set" where
  "unanswered c cfg identity s rtype rbody family inp =
     (case offered c cfg identity s rtype rbody family inp of
        None \<Rightarrow> {}
      | Some b \<Rightarrow> if ei_submit inp (br_canonical_bytes b) \<in> {Unavailable, SubmitRaises} then {br_canonical_bytes b} else {})"

lemma unanswered_kept:
  assumes "emit c cfg identity s rtype rbody family inp = (s', sent, out)"
    and "raw \<in> unanswered c cfg identity s rtype rbody family inp"
  shows "out = Inl ClTransportRaises \<or> is_full (cl_buffer s) \<or> raw \<in> br_canonical_bytes ` set (bb_items (cl_buffer s'))"
proof -
  obtain policy s1 b where p: "policy_for cfg family = Inr policy" and type: "rtype \<in> set CUSTOMER_RECORD_TYPES"
    and a: "author c cfg identity s rtype rbody (ei_record inp) = (s1, Inr b)" and raw: "raw = br_canonical_bytes b"
    and answer: "ei_submit inp raw \<in> {Unavailable, SubmitRaises}"
    using assms(2) by (auto simp: unanswered_def offered_def split: option.splits if_splits sum.splits prod.splits)
  obtain r where "s1 = s\<lparr>cl_sequence := cl_sequence s + 1, cl_prev_digest := digest_opt c r\<rparr>"
    by (rule author_Inr [OF a type]) blast
  then have buffer: "cl_buffer (note_unreachable s1 t) = cl_buffer s" for t by (simp add: note_unreachable_def)
  have d: "deliver c cfg identity s1 b policy family (cl_sequence s, cl_prev_digest s) inp = (s', sent, out)"
    using assms(1) a type p by (simp add: emit_def)
  show ?thesis
  proof (cases "ei_submit inp raw = SubmitRaises \<or> is_full (cl_buffer s)")
    case False
    then have "buffer_or_gap c cfg identity (note_unreachable s1 (ei_absent_at inp)) b policy family
        (cl_sequence s, cl_prev_digest s) (ei_gap inp) = (s', sent, out)"
      using d answer raw by (auto simp: deliver_def)
    then have "cl_buffer s' = cl_buffer s\<lparr>bb_items := bb_items (cl_buffer s) @ [b]\<rparr>"
      using False by (auto simp: buffer_or_gap_def buffer [of "ei_absent_at inp"] buffer_append_def)
    then show ?thesis by (simp add: raw)
  qed (use d raw in \<open>auto simp: deliver_def\<close>)
qed

text \<open>An exception of the transport leaves the authored record nowhere.\<close>

lemma emit_raises:
  assumes "emit c cfg identity s rtype rbody family inp = (s', sent, Inl ClTransportRaises)"
  obtains r b where "authored c cfg identity r" "held_as r b" "sequence r = cl_sequence s + 1" "prev_digest r = cl_prev_digest s"
    "cl_sequence s' = cl_sequence s + 1" "cl_prev_digest s' = digest_opt c r" "cl_buffer s' = cl_buffer s" "cl_gaps s' = cl_gaps s"
    "sent = []" "unanswered c cfg identity s rtype rbody family inp = {br_canonical_bytes b}"
proof -
  obtain policy s1 res where p: "policy_for cfg family = Inr policy" and type: "rtype \<in> set CUSTOMER_RECORD_TYPES"
    and a: "author c cfg identity s rtype rbody (ei_record inp) = (s1, res)"
    using assms by (cases "author c cfg identity s rtype rbody (ei_record inp)")
      (auto simp: emit_def split: if_splits sum.splits)
  obtain b where b: "res = Inr b"
    using assms a p type author_Inl by (cases res) (fastforce simp: emit_def)+
  obtain r where r: "authored c cfg identity r" "held_as r b" "sequence r = cl_sequence s + 1" "prev_digest r = cl_prev_digest s"
    and s1: "s1 = s\<lparr>cl_sequence := cl_sequence s + 1, cl_prev_digest := digest_opt c r\<rparr>"
    by (rule author_Inr [OF a [unfolded b] type]) blast
  have d: "deliver c cfg identity s1 b policy family (cl_sequence s, cl_prev_digest s) inp = (s', sent, Inl ClTransportRaises)"
    using assms a b type p by (simp add: emit_def)
  have "ei_submit inp (br_canonical_bytes b) = SubmitRaises"
    using d by (auto simp: deliver_def buffer_or_gap_def buffer_append_def Let_def dest: emit_gap_Inl
        split: submit_outcome.splits if_splits prod.splits sum.splits)
  then have "s' = s1" "sent = []" "unanswered c cfg identity s rtype rbody family inp = {br_canonical_bytes b}"
    using d by (auto simp: deliver_def unanswered_def offered_def p type a b)
  then show thesis using that r by (simp add: s1)
qed

section \<open>The client over time\<close>

text \<open>The authored records: one chain from sequence 1, each of them signed by the client.\<close>

definition ghost_chain ::
    "('sk, 'pk) crypto \<Rightarrow> client_config \<Rightarrow> 'sk signing_identity \<Rightarrow> evidence_record list \<Rightarrow> bool" where
  "ghost_chain c cfg identity rs \<longleftrightarrow> linked sequence prev_digest (digest_opt c) rs
     \<and> (rs \<noteq> [] \<longrightarrow> sequence (hd rs) = 1 \<and> prev_digest (hd rs) = None) \<and> list_all (authored c cfg identity) rs"

definition head_digest :: "('sk, 'pk) crypto \<Rightarrow> evidence_record list \<Rightarrow> pystr option" where
  "head_digest c rs = (if rs = [] then None else digest_opt c (last rs))"

lemma ghost_chain_sequence:
  assumes "ghost_chain c cfg identity rs"
  shows "map sequence rs = [1..int (length rs)]"
proof (cases rs)
  case (Cons r rs')
  then have "linked sequence prev_digest (digest_opt c) (r # rs')" "sequence r = 1"
    using assms by (simp_all add: ghost_chain_def)
  from linked_sequence [OF this(1)] this(2) show ?thesis by (simp add: Cons)
qed simp

lemma ghost_chain_bounds:
  assumes "ghost_chain c cfg identity rs" "r \<in> set rs"
  shows "1 \<le> sequence r" "sequence r \<le> int (length rs)"
proof -
  have "sequence r \<in> set (map sequence rs)" using assms(2) by simp
  then show "1 \<le> sequence r" "sequence r \<le> int (length rs)" by (simp_all only: ghost_chain_sequence [OF assms(1)]) simp_all
qed

lemma ghost_chain_snoc:
  assumes "ghost_chain c cfg identity rs" "authored c cfg identity r" "sequence r = int (length rs) + 1"
    "prev_digest r = head_digest c rs"
  shows "ghost_chain c cfg identity (rs @ [r])"
proof (cases "rs = []")
  case False
  then have "last rs \<in> set rs" by simp
  then have d: "digest_opt c (last rs) \<noteq> None"
    using assms(1) by (simp add: ghost_chain_def list_all_iff authored_def)
  have "sequence (last rs) = last (map sequence rs)" using False by (simp add: last_map)
  moreover have "0 < length rs" using False by simp
  then have "[1..int (length rs)] = [1..int (length rs) - 1] @ [int (length rs)]" by (intro upto_rec2) linarith
  ultimately have "sequence (last rs) = int (length rs)" unfolding ghost_chain_sequence [OF assms(1)] by simp
  then show ?thesis using assms d False by (simp add: ghost_chain_def linked_snoc head_digest_def)
qed (use assms in \<open>simp add: ghost_chain_def head_digest_def\<close>)

text \<open>Where the records are: with the service or held for submission.\<close>

definition accounted :: "evidence_record list \<Rightarrow> buffered_record set \<Rightarrow> bytes set \<Rightarrow> bool" where
  "accounted rs held acc \<longleftrightarrow> (\<forall>b \<in> held. \<exists>r \<in> set rs. held_as r b)
     \<and> {raw. \<exists>r \<in> set rs. serialize_record r = Inr raw} = acc \<union> br_canonical_bytes ` held"

lemma accounted_service: "accounted rs held acc \<Longrightarrow> held_as r b \<Longrightarrow> accounted (rs @ [r]) held (insert (br_canonical_bytes b) acc)"
  by (fastforce simp: accounted_def held_as_def)

lemma accounted_held: "accounted rs held acc \<Longrightarrow> held_as r b \<Longrightarrow> accounted (rs @ [r]) (insert b held) acc"
  by (fastforce simp: accounted_def held_as_def)

lemma accounted_moved:
  "accounted rs held acc \<Longrightarrow> held' \<subseteq> held \<Longrightarrow> held - held' \<subseteq> sent \<Longrightarrow> sent \<subseteq> held
     \<Longrightarrow> accounted rs held' (acc \<union> br_canonical_bytes ` sent)"
  unfolding accounted_def by (intro conjI equalityI subsetI) blast+

text \<open>
  The world of the client: beside its state, the bytes the service accepted and said so, and those it
  accepted although no answer came back; the positions lost by authoring that failed; the
  authored records that neither an answer nor the client accounts for; and those that the client
  took back at the bound after an attempt that nobody answered.  A refusal is taken as
  definite, as the client takes it.
\<close>

record client_world =
  cw_client :: client
  cw_answered :: "bytes set"
  cw_late :: "bytes set"
  cw_lost :: "int set"
  cw_gone :: "bytes set"
  cw_taken_back :: "bytes set"

definition service_holds :: "client_world \<Rightarrow> bytes set" where
  "service_holds w = cw_answered w \<union> cw_late w"

definition held_bytes :: "client_world \<Rightarrow> bytes set" where
  "held_bytes w = br_canonical_bytes ` set (pending (cw_client w))"

definition client_start :: "client_config \<Rightarrow> client_world" where
  "client_start cfg =
     \<lparr>cw_client = new_client cfg, cw_answered = {}, cw_late = {}, cw_lost = {}, cw_gone = {}, cw_taken_back = {}\<rparr>"

text \<open>
  The steps: any emission and any flush, whatever they come to.  Only the identifiers that are drawn
  are new among the records still held.
\<close>

inductive client_step ::
    "('sk, 'pk) crypto \<Rightarrow> client_config \<Rightarrow> 'sk signing_identity \<Rightarrow> client_world \<Rightarrow> client_world \<Rightarrow> bool"
  for c cfg identity where
  step_emit:
    "s = cw_client w \<Longrightarrow> emit c cfg identity s rtype rbody family inp = (s', sent, out) \<Longrightarrow>
     \<forall>b \<in> set (pending s). record_id_at (ei_record inp) \<noteq> Inr (br_record_id b)
       \<and> record_id_at (ei_gap inp) \<noteq> Inr (br_record_id b) \<Longrightarrow>
     open_bytes = unanswered c cfg identity s rtype rbody family inp \<Longrightarrow> late \<subseteq> open_bytes \<Longrightarrow>
     client_step c cfg identity w
       \<lparr>cw_client = s', cw_answered = cw_answered w \<union> set sent, cw_late = cw_late w \<union> late,
        cw_lost = cw_lost w \<union> (case out of Inl e \<Rightarrow> if position_lost e then {cl_sequence s + 1} else {} | Inr _ \<Rightarrow> {}),
        cw_gone = cw_gone w \<union> (if out = Inl ClTransportRaises then open_bytes else {}),
        cw_taken_back = cw_taken_back w \<union> (if is_full (cl_buffer s) then open_bytes else {})\<rparr>"
| step_flush:
    "s = cw_client w \<Longrightarrow> flush s submit = (s', sent, out) \<Longrightarrow>
     late \<subseteq> {raw \<in> br_canonical_bytes ` set (pending s). submit raw \<in> {Unavailable, SubmitRaises}} \<Longrightarrow>
     client_step c cfg identity w
       (w\<lparr>cw_client := s', cw_answered := cw_answered w \<union> set sent, cw_late := cw_late w \<union> late,
          cw_gone := cw_gone w \<union> (br_canonical_bytes ` (set (pending s) - set (pending s')) - set sent)\<rparr>)"

text \<open>The authored records: each names the digest of the one before it, whatever positions are lost between them.\<close>

definition stream_chain ::
    "('sk, 'pk) crypto \<Rightarrow> client_config \<Rightarrow> 'sk signing_identity \<Rightarrow> evidence_record list \<Rightarrow> bool" where
  "stream_chain c cfg identity rs \<longleftrightarrow> successively (\<lambda>p q. prev_digest q = digest_opt c p) rs
     \<and> (rs \<noteq> [] \<longrightarrow> prev_digest (hd rs) = None) \<and> sorted_wrt (<) (map sequence rs)
     \<and> list_all (authored c cfg identity) rs"

lemma stream_chain_snoc:
  assumes "stream_chain c cfg identity rs" "authored c cfg identity r" "\<forall>q \<in> set rs. sequence q < sequence r"
    "prev_digest r = head_digest c rs"
  shows "stream_chain c cfg identity (rs @ [r])"
  using assms by (auto simp: stream_chain_def successively_append_iff sorted_wrt_append head_digest_def)

lemma linked_successively:
  assumes "successively (\<lambda>p q. prev q = dig p) rs" "map seq rs = [k .. k + int (length rs) - 1]" "\<forall>r \<in> set rs. dig r \<noteq> None"
  shows "linked seq prev dig rs"
  using assms
proof (induction rs arbitrary: k rule: induct_list012)
  case (3 x y zs)
  let ?n = "k + int (length (x # y # zs)) - 1"
  have "[k .. ?n] = k # [k + 1 .. ?n]" "[k + 1 .. ?n] = (k + 1) # [k + 1 + 1 .. ?n]" by (rule upto_rec1; simp)+
  then have xy: "seq x = k" "seq y = k + 1" "map seq (y # zs) = [k + 1 .. ?n]" using "3.prems"(2) by simp_all
  have n: "?n = k + 1 + int (length (y # zs)) - 1" by simp
  have "linked seq prev dig (y # zs)" using "3.IH"(2) [OF _ xy(3) [unfolded n]] "3.prems" by simp
  then show ?case using "3.prems" xy by simp
qed simp_all

text \<open>Without a lost position it is the chain a verifier wants.\<close>

lemma stream_chain_gapless:
  assumes "stream_chain c cfg identity rs" "sequence ` set rs = {1..n}" "0 \<le> n"
  shows "ghost_chain c cfg identity rs" "n = int (length rs)"
proof -
  have "sorted (map sequence rs)" "distinct (map sequence rs)"
    using assms(1) strict_sorted_iff [of "map sequence rs"] by (simp_all add: stream_chain_def)
  then have eq: "map sequence rs = [1..n]"
    using assms(2) by (intro sorted_distinct_set_unique) simp_all
  from arg_cong [OF this, of length] assms(3) show n: "n = int (length rs)" by simp
  have first: "sequence (hd rs) = 1" if "rs \<noteq> []"
  proof -
    have "1 \<le> int (length rs)" using that by (cases rs) simp_all
    then have "hd (map sequence rs) = 1" unfolding eq n by (simp add: upto_rec1 [of 1])
    with that show ?thesis by (simp add: hd_map)
  qed
  have "map sequence rs = [1 .. 1 + int (length rs) - 1]" using eq n by simp
  moreover have "\<forall>r \<in> set rs. digest_opt c r \<noteq> None"
    using assms(1) by (auto simp: stream_chain_def authored_def list_all_iff)
  ultimately have "linked sequence prev_digest (digest_opt c) rs"
    using assms(1) by (intro linked_successively [where k = 1]) (simp_all add: stream_chain_def)
  then show "ghost_chain c cfg identity rs" using assms(1) first by (simp add: stream_chain_def ghost_chain_def)
qed

definition client_ok ::
    "('sk, 'pk) crypto \<Rightarrow> client_config \<Rightarrow> 'sk signing_identity \<Rightarrow> client_world \<Rightarrow> evidence_record list \<Rightarrow> bool"
where
  "client_ok c cfg identity w rs \<longleftrightarrow>
     (let s = cw_client w; held = bb_items (cl_buffer s) @ cl_gaps s in
      stream_chain c cfg identity rs \<and> 0 \<le> cl_sequence s \<and> cl_prev_digest s = head_digest c rs
      \<and> sequence ` set rs \<inter> cw_lost w = {} \<and> sequence ` set rs \<union> cw_lost w = {1..cl_sequence s}
      \<and> accounted rs (set held) (cw_answered w \<union> cw_gone w)
      \<and> cw_late w \<subseteq> {raw. \<exists>r \<in> set rs. serialize_record r = Inr raw} \<union> cw_taken_back w
      \<and> distinct (map br_record_id held)
      \<and> list_all (\<lambda>b. br_record_type b = str ''CoverageGap'') (cl_gaps s)
      \<and> sorted (map br_sequence (bb_items (cl_buffer s)))
      \<and> bb_bound (cl_buffer s) = cc_buffer_bound cfg
      \<and> int (length (bb_items (cl_buffer s))) \<le> cc_buffer_bound cfg)"

lemma set_pending: "set (pending s) = set (bb_items (cl_buffer s) @ cl_gaps s)"
  by (simp add: pending_def)

text \<open>A step that authors one more record, and puts it somewhere.\<close>

lemma client_ok_extend:
  assumes ok: "client_ok c cfg identity w rs"
    and r: "authored c cfg identity r" "held_as r b" "sequence r = cl_sequence (cw_client w) + 1"
      "prev_digest r = cl_prev_digest (cw_client w)"
    and s': "cl_sequence (cw_client w') = cl_sequence (cw_client w) + 1" "cl_prev_digest (cw_client w') = digest_opt c r"
    and lost: "cw_lost w' = cw_lost w" and late: "cw_late w' \<subseteq> cw_late w \<union> X" "X \<subseteq> {raw. \<exists>r' \<in> set (rs @ [r]). serialize_record r' = Inr raw} \<union> cw_taken_back w'"
    and taken: "cw_taken_back w \<subseteq> cw_taken_back w'"
    and acc: "accounted (rs @ [r]) (set (bb_items (cl_buffer (cw_client w')) @ cl_gaps (cw_client w'))) (cw_answered w' \<union> cw_gone w')"
    and held: "distinct (map br_record_id (bb_items (cl_buffer (cw_client w')) @ cl_gaps (cw_client w')))"
      "list_all (\<lambda>b. br_record_type b = str ''CoverageGap'') (cl_gaps (cw_client w'))"
      "sorted (map br_sequence (bb_items (cl_buffer (cw_client w'))))"
      "bb_bound (cl_buffer (cw_client w')) = cc_buffer_bound cfg"
      "int (length (bb_items (cl_buffer (cw_client w')))) \<le> cc_buffer_bound cfg"
  shows "client_ok c cfg identity w' (rs @ [r])"
proof -
  let ?n = "cl_sequence (cw_client w)"
  have ok': "stream_chain c cfg identity rs" "0 \<le> ?n" "cl_prev_digest (cw_client w) = head_digest c rs"
    "sequence ` set rs \<inter> cw_lost w = {}" "sequence ` set rs \<union> cw_lost w = {1..?n}"
    "cw_late w \<subseteq> {raw. \<exists>r \<in> set rs. serialize_record r = Inr raw} \<union> cw_taken_back w"
    using ok by (simp_all add: client_ok_def Let_def)
  have bound: "x \<le> ?n" if "x \<in> sequence ` set rs \<union> cw_lost w" for x using that unfolding ok'(5) by simp
  then have "\<forall>q \<in> set rs. sequence q < sequence r" using r(3) by fastforce
  then have chain: "stream_chain c cfg identity (rs @ [r])"
    using ok' r by (intro stream_chain_snoc) simp_all
  have "{1..?n + 1} = insert (?n + 1) {1..?n}" using ok'(2) by auto
  then have "sequence ` set (rs @ [r]) \<union> cw_lost w' = {1..?n + 1}" using ok'(5) r(3) lost by simp
  moreover have "?n + 1 \<notin> cw_lost w" using bound [of "?n + 1"] by auto
  then have "sequence ` set (rs @ [r]) \<inter> cw_lost w' = {}" using ok'(4) r(3) lost by auto
  moreover have "cw_late w' \<subseteq> {raw. \<exists>r \<in> set (rs @ [r]). serialize_record r = Inr raw} \<union> cw_taken_back w'"
    using late taken ok'(6) by fastforce
  ultimately show ?thesis
    using chain s' acc held ok'(2) by (simp add: client_ok_def Let_def head_digest_def)
qed

text \<open>A step that moves nothing but the position and the accounts.\<close>

lemma client_ok_same:
  assumes ok: "client_ok c cfg identity w rs"
    and "cl_prev_digest (cw_client w') = cl_prev_digest (cw_client w)" "cl_gaps (cw_client w') = cl_gaps (cw_client w)"
      "cl_buffer (cw_client w') = cl_buffer (cw_client w)" "cw_answered w' \<union> cw_gone w' = cw_answered w \<union> cw_gone w"
    and lost: "cw_lost w' = cw_lost w \<and> cl_sequence (cw_client w') = cl_sequence (cw_client w)
      \<or> cw_lost w' = insert (cl_sequence (cw_client w) + 1) (cw_lost w) \<and> cl_sequence (cw_client w') = cl_sequence (cw_client w) + 1"
    and "cw_late w' \<subseteq> cw_late w \<union> X" "X \<subseteq> {raw. \<exists>r \<in> set rs. serialize_record r = Inr raw} \<union> cw_taken_back w'"
      "cw_taken_back w \<subseteq> cw_taken_back w'"
  shows "client_ok c cfg identity w' rs"
proof -
  let ?n = "cl_sequence (cw_client w)"
  have ok': "0 \<le> ?n" "sequence ` set rs \<inter> cw_lost w = {}" "sequence ` set rs \<union> cw_lost w = {1..?n}"
    "cw_late w \<subseteq> {raw. \<exists>r \<in> set rs. serialize_record r = Inr raw} \<union> cw_taken_back w"
    using ok by (simp_all add: client_ok_def Let_def)
  have bound: "x \<le> ?n" if "x \<in> sequence ` set rs \<union> cw_lost w" for x using that unfolding ok'(3) by simp
  have "?n + 1 \<notin> sequence ` set rs" using bound [of "?n + 1"] by auto
  moreover have "{1..?n + 1} = insert (?n + 1) {1..?n}" using ok'(1) by auto
  ultimately have "0 \<le> cl_sequence (cw_client w') \<and> sequence ` set rs \<inter> cw_lost w' = {}
      \<and> sequence ` set rs \<union> cw_lost w' = {1..cl_sequence (cw_client w')}"
    using lost ok'(1-3) by (elim disjE) auto
  moreover have "cw_late w' \<subseteq> {raw. \<exists>r \<in> set rs. serialize_record r = Inr raw} \<union> cw_taken_back w'"
    using assms(7-9) ok'(4) by blast
  ultimately show ?thesis using ok assms(2-5) by (simp add: client_ok_def Let_def)
qed

lemma emit_ok:
  assumes ok: "client_ok c cfg identity w rs" and s: "s = cw_client w"
    and e: "emit c cfg identity s rtype rbody family inp = (s', sent, out)"
    and fresh: "\<forall>b \<in> set (pending s). record_id_at (ei_record inp) \<noteq> Inr (br_record_id b)
       \<and> record_id_at (ei_gap inp) \<noteq> Inr (br_record_id b)"
    and op: "open_bytes = unanswered c cfg identity s rtype rbody family inp" "late \<subseteq> open_bytes"
    and w': "w' = \<lparr>cw_client = s', cw_answered = cw_answered w \<union> set sent, cw_late = cw_late w \<union> late,
        cw_lost = cw_lost w \<union> (case out of Inl e \<Rightarrow> if position_lost e then {cl_sequence s + 1} else {} | Inr _ \<Rightarrow> {}),
        cw_gone = cw_gone w \<union> (if out = Inl ClTransportRaises then open_bytes else {}),
        cw_taken_back = cw_taken_back w \<union> (if is_full (cl_buffer s) then open_bytes else {})\<rparr>"
  shows "\<exists>rs'. client_ok c cfg identity w' rs'"
proof -
  let ?held = "bb_items (cl_buffer s) @ cl_gaps s" and ?bytes = "{raw. \<exists>r \<in> set rs. serialize_record r = Inr raw}"
  have acc: "accounted rs (set ?held) (cw_answered w \<union> cw_gone w)"
    and ids: "distinct (map br_record_id ?held)" and gaps: "list_all (\<lambda>b. br_record_type b = str ''CoverageGap'') (cl_gaps s)"
    and sorted: "sorted (map br_sequence (bb_items (cl_buffer s)))"
    and bound: "bb_bound (cl_buffer s) = cc_buffer_bound cfg" "int (length (bb_items (cl_buffer s))) \<le> cc_buffer_bound cfg"
    and seqs: "sequence ` set rs \<union> cw_lost w = {1..cl_sequence s}"
    using ok by (simp_all add: client_ok_def Let_def s)
  have held: "br_canonical_bytes ` set ?held \<subseteq> ?bytes" using acc unfolding accounted_def by blast
  have kept: "open_bytes \<subseteq> br_canonical_bytes ` set (bb_items (cl_buffer s')) \<union> cw_taken_back w'" if "out \<noteq> Inl ClTransportRaises"
    using unanswered_kept [OF e] that op(1) by (auto simp: w')
  have ws: "cw_client w' = s'" "cw_answered w' = cw_answered w \<union> set sent" "cw_late w' = cw_late w \<union> late"
    "cw_taken_back w \<subseteq> cw_taken_back w'" by (auto simp: w')
  consider (lost) x where "out = Inl x" "position_lost x" | (raised) "out = Inl ClTransportRaises"
    | (undisturbed) "undisturbed out" "out \<noteq> Inl ClTransportRaises"
      "(case out of Inl e \<Rightarrow> if position_lost e then {cl_sequence s + 1} else {} | Inr _ \<Rightarrow> {}) = {}"
    by (cases out; cases "projl out") auto
  then show ?thesis
  proof cases
    case lost
    note st = emit_error_state [OF e [unfolded lost(1)] lost(2)]
    have "out \<noteq> Inl ClTransportRaises" using lost by auto
    moreover have "br_canonical_bytes ` set (bb_items (cl_buffer s')) \<subseteq> ?bytes" using held st by (simp add: image_Un)
    ultimately have late: "late \<subseteq> ?bytes \<union> cw_taken_back w'" using kept op(2) by blast
    then have "client_ok c cfg identity w' rs"
      using st lost by (intro client_ok_same [OF ok, of w' late]) (auto simp: w' s [symmetric])
    then show ?thesis by blast
  next
    case raised
    obtain r b where r: "authored c cfg identity r" "held_as r b" "sequence r = cl_sequence s + 1" "prev_digest r = cl_prev_digest s"
      and st: "cl_sequence s' = cl_sequence s + 1" "cl_prev_digest s' = digest_opt c r" "cl_buffer s' = cl_buffer s" "cl_gaps s' = cl_gaps s"
        "sent = []" "open_bytes = {br_canonical_bytes b}"
      by (rule emit_raises [OF e [unfolded raised]]) (use op(1) in simp)
    have bytes: "serialize_record r = Inr (br_canonical_bytes b)" using r(2) by (simp add: held_as_def)
    have gone: "cw_gone w' = insert (br_canonical_bytes b) (cw_gone w)" "cw_lost w' = cw_lost w" using raised st(6) by (simp_all add: w')
    have "accounted (rs @ [r]) (set ?held) (insert (br_canonical_bytes b) (cw_answered w \<union> cw_gone w))"
      by (rule accounted_service [OF acc r(2)])
    then have a: "accounted (rs @ [r]) (set (bb_items (cl_buffer s') @ cl_gaps s')) (cw_answered w' \<union> cw_gone w')"
      by (simp add: ws gone st)
    have l: "late \<subseteq> {raw. \<exists>r' \<in> set (rs @ [r]). serialize_record r' = Inr raw} \<union> cw_taken_back w'"
      using op(2) bytes st(6) by auto
    have "client_ok c cfg identity w' (rs @ [r])"
      by (rule client_ok_extend [OF ok r(1,2), of w' late])
        (use r(3,4) st ids gaps sorted bound a l in \<open>simp_all add: ws gone s [symmetric]\<close>)
    then show ?thesis by blast
  next
    case undisturbed
    from e undisturbed(1) show ?thesis
    proof (cases rule: emit_cases)
      case unchanged
      have "br_canonical_bytes ` set (bb_items (cl_buffer s')) \<subseteq> ?bytes" using held by (simp add: unchanged(3) image_Un)
      then have late: "late \<subseteq> ?bytes \<union> cw_taken_back w'" using kept [OF undisturbed(2)] op(2) by blast
      have "client_ok c cfg identity w' rs"
        using unchanged undisturbed(2,3) late ws(4) by (intro client_ok_same [OF ok, of w' late]) (simp_all add: w' s [symmetric])
      then show ?thesis by blast
    next
      case (extended r b d wh)
      have new: "br_record_id b \<notin> br_record_id ` set ?held"
        using fresh extended(2-4) by (auto simp: set_pending held_as_def)
      have above: "br_sequence x \<le> br_sequence b" if x: "x \<in> set ?held" for x
      proof -
        obtain q where "q \<in> set rs" "held_as q x" using acc x unfolding accounted_def by blast
        moreover from this have "sequence q \<in> {1..cl_sequence s}" using seqs by blast
        ultimately show ?thesis using extended(2,5) by (simp add: held_as_def)
      qed
      have bytes: "serialize_record r = Inr (br_canonical_bytes b)" using extended(2) by (simp add: held_as_def)
      have items: "set (bb_items (cl_buffer s')) \<subseteq> insert b (set (bb_items (cl_buffer s)))"
        using extended(9) bf.put_Inr(1) [of "cl_buffer s" b "cl_buffer s'"] by (cases wh) auto
      have "br_canonical_bytes ` set (bb_items (cl_buffer s')) \<subseteq> insert (br_canonical_bytes b) ?bytes"
        using items held by auto
      moreover have "insert (br_canonical_bytes b) ?bytes \<subseteq> {raw. \<exists>r' \<in> set (rs @ [r]). serialize_record r' = Inr raw}"
        using bytes by auto
      ultimately have "br_canonical_bytes ` set (bb_items (cl_buffer s'))
          \<subseteq> {raw. \<exists>r' \<in> set (rs @ [r]). serialize_record r' = Inr raw}" by (rule order_trans)
      from order_trans [OF order_trans [OF op(2) kept [OF undisturbed(2)]] Un_mono [OF this subset_refl]]
      have late: "late \<subseteq> {raw. \<exists>r' \<in> set (rs @ [r]). serialize_record r' = Inr raw} \<union> cw_taken_back w'" .
      have ghosts: "cw_gone w' = cw_gone w" "cw_lost w' = cw_lost w" using undisturbed(2,3) by (simp_all add: w')
      have step: "client_ok c cfg identity w' (rs @ [r])"
        if "accounted (rs @ [r]) (set (bb_items (cl_buffer s') @ cl_gaps s')) (cw_answered w' \<union> cw_gone w')"
          "distinct (map br_record_id (bb_items (cl_buffer s') @ cl_gaps s'))"
          "list_all (\<lambda>b. br_record_type b = str ''CoverageGap'') (cl_gaps s')"
          "sorted (map br_sequence (bb_items (cl_buffer s')))"
          "int (length (bb_items (cl_buffer s'))) \<le> cc_buffer_bound cfg"
        by (rule client_ok_extend [OF ok extended(1,2), of w' late])
          (use that extended(5-8,10) late bound ws(4) in \<open>simp_all add: ws ghosts s [symmetric]\<close>)
      have "client_ok c cfg identity w' (rs @ [r])"
      proof (cases wh)
        case With_Service
        then have "sent = [br_canonical_bytes b]" "bb_items (cl_buffer s') = bb_items (cl_buffer s)" "cl_gaps s' = cl_gaps s"
          using extended(9) by simp_all
        then show ?thesis
          using ids gaps sorted bound accounted_service [OF acc extended(2)] by (intro step) (simp_all add: ws ghosts)
      next
        case In_Buffer
        then have put: "buffer_append (cl_buffer s) b = Inr (cl_buffer s')" and rest: "sent = []" "cl_gaps s' = cl_gaps s"
          using extended(9) by simp_all
        note q = bf.put_Inr [OF put]
        show ?thesis
          using ids gaps sorted bound accounted_held [OF acc extended(2)] new above q rest extended(10)
          by (intro step) (simp_all add: ws ghosts sorted_append image_Un)
      next
        case In_Gaps
        then have rest: "sent = []" "bb_items (cl_buffer s') = bb_items (cl_buffer s)" "cl_gaps s' = cl_gaps s @ [b]"
          "br_record_type b = str ''CoverageGap''" using extended(2,9) by (simp_all add: held_as_def)
        show ?thesis
          using ids gaps sorted bound accounted_held [OF acc extended(2)] new rest
          by (intro step) (simp_all add: ws ghosts image_Un)
      qed
      then show ?thesis by blast
    qed
  qed
qed

lemma submit_all_None:
  assumes "submit_all submit bs = (sent, unsent, None)"
  shows "sent = filter (\<lambda>b. submit (br_canonical_bytes b) = Submitted) bs
    \<and> unsent = filter (\<lambda>b. submit (br_canonical_bytes b) \<noteq> Submitted) bs"
  using assms
proof (induction bs arbitrary: sent unsent)
  case (Cons b bs)
  then show ?case
    by (cases "submit (br_canonical_bytes b)"; cases "submit_all submit bs") auto
qed simp

lemma submit_all_sent: "submit_all submit bs = (sent, unsent, e) \<Longrightarrow> set sent \<subseteq> set bs"
proof (induction bs arbitrary: sent unsent)
  case (Cons b bs)
  then show ?case
    by (cases "submit (br_canonical_bytes b)"; cases "submit_all submit bs") auto
qed simp

text \<open>
  What a flush that is not stopped leaves: the buffer and the gaps without what was accepted, and the
  buffer without gaps of the caller.
\<close>

lemma flush_Inr:
  assumes "flush s submit = (s', sent, Inr res)"
    and "list_all (\<lambda>b. br_record_type b = str ''CoverageGap'') (cl_gaps s)"
    and "sorted (map br_sequence (bb_items (cl_buffer s)))"
    and "distinct (map br_record_id (bb_items (cl_buffer s) @ cl_gaps s))"
    and "int (length (bb_items (cl_buffer s))) \<le> bb_bound (cl_buffer s)"
  shows "bb_items (cl_buffer s') = filter (\<lambda>b. submit (br_canonical_bytes b) \<noteq> Submitted \<and> br_record_type b \<noteq> str ''CoverageGap'')
      (bb_items (cl_buffer s))"
    "cl_gaps s' = filter (\<lambda>b. submit (br_canonical_bytes b) \<noteq> Submitted) (cl_gaps s)"
    "sent = map br_canonical_bytes (filter (\<lambda>b. submit (br_canonical_bytes b) = Submitted) (pending s))"
    "bb_bound (cl_buffer s') = bb_bound (cl_buffer s)"
    "int (length (bb_items (cl_buffer s'))) \<le> bb_bound (cl_buffer s')"
    "cl_sequence s' = cl_sequence s" "cl_prev_digest s' = cl_prev_digest s"
proof -
  let ?S = "\<lambda>b. submit (br_canonical_bytes b) = Submitted" and ?G = "\<lambda>b. br_record_type b = str ''CoverageGap''"
  let ?items = "bb_items (cl_buffer s)"
  obtain out unsent where all: "submit_all submit (pending s) = (out, unsent, None)"
    using assms(1) by (cases "submit_all submit (pending s)") (auto simp: flush_def Let_def split: option.splits prod.splits)
  then have out: "out = filter ?S (pending s)" and unsent: "unsent = filter (\<lambda>b. \<not> ?S b) (pending s)"
    using submit_all_None by blast+
  let ?rest = "filter (\<lambda>b. \<not> ?G b) unsent"
  let ?q = "restore (snd (drain (cl_buffer s))) ?rest"
  have s': "cl_buffer s' = ?q" "cl_gaps s' = filter (\<lambda>g. br_record_id g \<notin> br_record_id ` set out) (cl_gaps s)"
    "sent = map br_canonical_bytes out" "cl_sequence s' = cl_sequence s" "cl_prev_digest s' = cl_prev_digest s"
    using assms(1) all by (auto simp: flush_def Let_def split: prod.splits if_splits)
  have "filter (\<lambda>b. \<not> ?G b) (?items @ cl_gaps s) = filter (\<lambda>b. \<not> ?G b) ?items"
    using assms(2) by (auto simp: list_all_iff filter_empty_conv)
  then have "filter (\<lambda>b. \<not> ?G b) (pending s) = sort_key br_sequence (filter (\<lambda>b. \<not> ?G b) ?items)"
    by (simp only: pending_def filter_sort)
  then have "filter (\<lambda>b. \<not> ?G b) (pending s) = filter (\<lambda>b. \<not> ?G b) ?items"
    using assms(3) by (simp add: sort_key_id sorted_filter)
  moreover have "?rest = filter (\<lambda>b. \<not> ?S b) (filter (\<lambda>b. \<not> ?G b) (pending s))"
    by (simp add: unsent conj_commute)
  ultimately have "?rest = filter (\<lambda>b. \<not> ?G b \<and> \<not> ?S b) ?items" by simp
  also have "\<dots> = filter (\<lambda>b. \<not> ?S b \<and> \<not> ?G b) ?items" by (rule filter_cong) auto
  finally have rest: "?rest = filter (\<lambda>b. \<not> ?S b \<and> \<not> ?G b) ?items" .
  note round = bf.flush_round [OF assms(5) rest]
  show "bb_items (cl_buffer s') = filter (\<lambda>b. \<not> ?S b \<and> \<not> ?G b) ?items" using round(1) rest by (simp add: s'(1))
  show "bb_bound (cl_buffer s') = bb_bound (cl_buffer s)" "int (length (bb_items (cl_buffer s'))) \<le> bb_bound (cl_buffer s')"
    using round(2,3) by (simp_all add: s'(1))
  show "sent = map br_canonical_bytes (filter ?S (pending s))" using s'(3) out by simp
  show "cl_sequence s' = cl_sequence s" "cl_prev_digest s' = cl_prev_digest s" using s' by simp_all
  have "(br_record_id g \<in> br_record_id ` set out) = ?S g" if g: "g \<in> set (cl_gaps s)" for g
  proof -
    have "inj_on br_record_id (set (?items @ cl_gaps s))" using assms(4) by (simp only: distinct_map)
    then show ?thesis using g by (auto simp: out set_pending inj_on_def)
  qed
  then show "cl_gaps s' = filter (\<lambda>b. \<not> ?S b) (cl_gaps s)" by (simp add: s'(2) cong: filter_cong)
qed

lemma flush_ok:
  assumes ok: "client_ok c cfg identity w rs" and s: "s = cw_client w" and f: "flush s submit = (s', sent, out)"
    and late: "late \<subseteq> br_canonical_bytes ` set (pending s)"
    and w': "w' = w\<lparr>cw_client := s', cw_answered := cw_answered w \<union> set sent, cw_late := cw_late w \<union> late,
          cw_gone := cw_gone w \<union> (br_canonical_bytes ` (set (pending s) - set (pending s')) - set sent)\<rparr>"
  shows "client_ok c cfg identity w' rs"
proof -
  let ?held = "bb_items (cl_buffer s) @ cl_gaps s" and ?held' = "bb_items (cl_buffer s') @ cl_gaps s'"
  have inv: "accounted rs (set ?held) (cw_answered w \<union> cw_gone w)" "distinct (map br_record_id ?held)"
    "list_all (\<lambda>b. br_record_type b = str ''CoverageGap'') (cl_gaps s)" "sorted (map br_sequence (bb_items (cl_buffer s)))"
    "bb_bound (cl_buffer s) = cc_buffer_bound cfg" "int (length (bb_items (cl_buffer s))) \<le> cc_buffer_bound cfg"
    using ok by (simp_all add: client_ok_def Let_def s)
  then have bytes: "br_canonical_bytes ` set ?held \<subseteq> {raw. \<exists>r \<in> set rs. serialize_record r = Inr raw}"
    unfolding accounted_def by blast
  have "set sent \<subseteq> br_canonical_bytes ` set ?held \<and> set ?held' \<subseteq> set ?held \<and> distinct (map br_record_id ?held')
      \<and> list_all (\<lambda>b. br_record_type b = str ''CoverageGap'') (cl_gaps s') \<and> sorted (map br_sequence (bb_items (cl_buffer s')))
      \<and> bb_bound (cl_buffer s') = cc_buffer_bound cfg \<and> int (length (bb_items (cl_buffer s'))) \<le> cc_buffer_bound cfg
      \<and> cl_sequence s' = cl_sequence s \<and> cl_prev_digest s' = cl_prev_digest s"
  proof (cases out)
    case (Inl e)
    obtain xs unsent e' where all: "submit_all submit (pending s) = (xs, unsent, e')" by (metis prod_cases3)
    then have "s' = s" "sent = map br_canonical_bytes xs"
      using f Inl by (auto simp: flush_def Let_def split: option.splits prod.splits)
    then show ?thesis using inv submit_all_sent [OF all] by (auto simp: set_pending)
  next
    case (Inr res)
    have "int (length (bb_items (cl_buffer s))) \<le> bb_bound (cl_buffer s)" using inv(5,6) by simp
    note l = flush_Inr [OF f [unfolded Inr] inv(3,4,2) this]
    have "distinct (map br_record_id ?held')"
      using inv(2) by (auto simp: l(1,2) distinct_map_filter)
    then show ?thesis using inv l(4-7) by (auto simp: l(1-3) set_pending list_all_iff sorted_filter)
  qed
  note moved = this
  have "accounted rs (set ?held') (cw_answered w' \<union> cw_gone w')"
    unfolding accounted_def
  proof (intro conjI)
    show "\<forall>b \<in> set ?held'. \<exists>r \<in> set rs. held_as r b" using inv(1) moved unfolding accounted_def by blast
    have "{raw. \<exists>r \<in> set rs. serialize_record r = Inr raw} = cw_answered w \<union> cw_gone w \<union> br_canonical_bytes ` set ?held"
      using inv(1) by (simp add: accounted_def)
    also have "\<dots> = cw_answered w' \<union> cw_gone w' \<union> br_canonical_bytes ` set ?held'"
    proof -
      have "br_canonical_bytes ` set ?held = br_canonical_bytes ` (set ?held - set ?held') \<union> br_canonical_bytes ` set ?held'"
        using moved by blast
      then show ?thesis using moved by (auto simp: w' set_pending)
    qed
    finally show "{raw. \<exists>r \<in> set rs. serialize_record r = Inr raw}
        = cw_answered w' \<union> cw_gone w' \<union> br_canonical_bytes ` set ?held'" .
  qed
  moreover have "cw_late w' \<subseteq> {raw. \<exists>r \<in> set rs. serialize_record r = Inr raw} \<union> cw_taken_back w'"
  proof -
    have "cw_late w \<subseteq> {raw. \<exists>r \<in> set rs. serialize_record r = Inr raw} \<union> cw_taken_back w"
      using ok by (simp add: client_ok_def Let_def)
    moreover have "late \<subseteq> {raw. \<exists>r \<in> set rs. serialize_record r = Inr raw}"
      using late bytes unfolding set_pending by blast
    ultimately show ?thesis by (auto simp: w')
  qed
  ultimately show ?thesis
    using ok moved by (simp add: client_ok_def Let_def w' s)
qed

lemma client_step_ok:
  "client_step c cfg identity w w' \<Longrightarrow> \<exists>rs. client_ok c cfg identity w rs \<Longrightarrow> \<exists>rs. client_ok c cfg identity w' rs"
proof (induction rule: client_step.induct)
  case (step_emit s w rtype rbody family inp s' sent out open_bytes late)
  then obtain rs where "client_ok c cfg identity w rs" by blast
  from emit_ok [OF this step_emit.hyps refl] show ?case .
next
  case (step_flush s w submit s' sent out late)
  then have late: "late \<subseteq> br_canonical_bytes ` set (pending s)" by blast
  obtain rs where "client_ok c cfg identity w rs" using step_flush.prems by blast
  from flush_ok [OF this step_flush.hyps(1,2) late refl] show ?case by blast
qed

lemma client_reachable_ok:
  assumes "(client_step c cfg identity)\<^sup>*\<^sup>* (client_start cfg) w" and "client_config_checked cfg = Inr cfg'"
  shows "\<exists>rs. client_ok c cfg identity w rs"
  using assms(1)
proof (induction rule: rtranclp_induct)
  case base
  have "1 \<le> cc_buffer_bound cfg" using assms(2) by (auto simp: client_config_checked_def split: if_splits)
  then have "client_ok c cfg identity (client_start cfg) []"
    by (simp add: client_ok_def client_start_def new_client_def stream_chain_def head_digest_def accounted_def)
  then show ?case by auto
next
  case (step w w')
  then show ?case by (intro client_step_ok [OF step.hyps(2)])
qed

section \<open>Verification of what was delivered\<close>

text \<open>A chain signed with one registered evidence key is accepted, in whatever order and however often it arrives.\<close>

lemma customer_types_evidence: "t \<in> set CUSTOMER_RECORD_TYPES \<Longrightarrow> primary_signer_namespace t = Some Evidence"
  by (auto simp: CUSTOMER_RECORD_TYPES_def primary_signer_namespace_def PRIMARY_SIGNER_NAMESPACE_def)

lemma authored_key:
  assumes "authored c cfg identity r" and c: "crypto_ok c"
    and reg: "map_of reg (si_key_id identity) = Some \<lparr>rk_namespace = Evidence, rk_public_key = ed_public c (si_private_key identity)\<rparr>"
  shows "signature_key_id c reg r through gap = Inr (si_key_id identity)"
    "member (signature r) ''key_continuity'' = None" "primary_signer_namespace (record_type r) = Some Evidence"
proof -
  obtain u where s: "sign_record c u (si_key_id identity) (si_private_key identity) None = Inr r"
    using assms(1) by (auto simp: authored_def)
  have "map_of (public_keys_of reg) (si_key_id identity) = Some (ed_public c (si_private_key identity))"
    using reg by (simp add: map_of_public_keys)
  from sign_then_verify [OF c s this] show "signature_key_id c reg r through gap = Inr (si_key_id identity)"
    using assms(1) reg customer_types_evidence by (simp add: signature_key_id_def authored_def)
  show "member (signature r) ''key_continuity'' = None"
    by (rule sign_record_Inr [OF s]) (simp add: member_signature_object)
  show "primary_signer_namespace (record_type r) = Some Evidence"
    using assms(1) customer_types_evidence by (simp add: authored_def)
qed

lemma verify_links_chain:
  assumes "linked sequence prev_digest (digest_opt c) (p # rs)" and "digest_opt c p = Some d"
    and "\<forall>r \<in> set rs. (\<forall>through gap. signature_key_id c reg r through gap = Inr k)
        \<and> member (signature r) ''key_continuity'' = None \<and> digest_opt c r \<noteq> None"
  shows "\<exists>d'. digest_opt c (last (p # rs)) = Some d' \<and> verify_links c reg p k d rs = Inr (d', k)"
  using assms
proof (induction rs arbitrary: p d)
  case (Cons r rs)
  obtain d2 where d2: "digest_opt c r = Some d2" using Cons.prems(3) by auto
  then have "digest_of c r = Inr d2" by (simp add: digest_of_Inr)
  moreover have "\<exists>d'. digest_opt c (last (r # rs)) = Some d' \<and> verify_links c reg r k d2 rs = Inr (d', k)"
    using Cons.prems d2 by (intro Cons.IH) auto
  ultimately show ?case using Cons.prems by (auto simp: Let_def rotation_ok_def)
qed simp

lemma verify_chain:
  assumes chain: "ghost_chain c cfg identity rs" "rs \<noteq> []" and c: "crypto_ok c"
    and reg: "map_of reg (si_key_id identity) = Some \<lparr>rk_namespace = Evidence, rk_public_key = ed_public c (si_private_key identity)\<rparr>"
  shows "\<exists>v. verify_ordered c reg rs = Inr v \<and> cr_end_sequence v = int (length rs)
    \<and> Some (cr_last_digest v) = head_digest c rs \<and> cr_records v = rs"
proof -
  obtain r rest where rs: "rs = r # rest" using chain(2) by (cases rs) auto
  have a: "authored c cfg identity q" if "q \<in> set rs" for q using chain(1) that by (simp add: ghost_chain_def list_all_iff)
  note k = authored_key [OF a c reg]
  obtain d where d: "digest_opt c r = Some d" using a [of r] by (auto simp: rs authored_def)
  have "linked sequence prev_digest (digest_opt c) (r # rest)" using chain(1) by (simp add: ghost_chain_def rs)
  from verify_links_chain [OF this d, of reg "si_key_id identity"]
  obtain d' where d': "digest_opt c (last rs) = Some d'"
    and v: "verify_links c reg r (si_key_id identity) d rest = Inr (d', si_key_id identity)"
    using k a by (force simp: rs authored_def)
  have "one_namespace (Some Evidence) qs = Inr ()" if "set qs \<subseteq> set rs" for qs
    using that by (induction qs) (auto simp: k(3))
  then have "one_namespace (Some Evidence) rest = Inr ()" by (simp add: rs subset_insertI)
  moreover have "sequence r = 1" "prev_digest r = None" using chain(1) by (simp_all add: ghost_chain_def rs)
  moreover have "digest_of c r = Inr d" using d by (simp add: digest_of_Inr)
  moreover have "sequence (last rs) = int (length rs)"
  proof -
    have "linked sequence prev_digest (digest_opt c) (r # rest)" "sequence r = 1" using chain(1) by (simp_all add: ghost_chain_def rs)
    from linked_sequence_last [OF this(1)] this(2) show ?thesis by (simp add: rs)
  qed
  ultimately show ?thesis using v d' k [of r] by (simp add: rs verify_ordered_def Let_def head_digest_def)
qed

lemma verify_delivered:
  assumes chain: "ghost_chain c cfg identity rs" "rs \<noteq> []" and c: "crypto_ok c"
    and reg: "map_of reg (si_key_id identity) = Some \<lparr>rk_namespace = Evidence, rk_public_key = ed_public c (si_private_key identity)\<rparr>"
    and delivered: "set delivered = set rs"
  shows "\<exists>v. verify_evidence_stream c reg delivered = Inr v \<and> cr_end_sequence v = int (length rs)
    \<and> Some (cr_last_digest v) = head_digest c rs \<and> cr_records v = rs"
proof -
  have a: "authored c cfg identity q" if "q \<in> set rs" for q using chain(1) that by (simp add: ghost_chain_def list_all_iff)
  note seq = ghost_chain_sequence [OF chain(1)]
  have "distinct (map sequence rs)" unfolding seq by simp
  then have inj: "inj_on sequence (set rs)" and distinct: "distinct rs" by (simp_all add: distinct_map)
  have one: "stream_id ` set rs = {client_stream_id cfg}" using a chain(2) by (fastforce simp: authored_def neq_Nil_conv)
  have pos: "inj_on position (set rs)" using inj by (auto simp: inj_on_def position_def)
  obtain m where m: "fork_checked c reg [] delivered = Inr m" "distinct m" "set m = set rs"
    using fork_checked_copies [of delivered "set rs" "[]" c reg] pos a delivered by (auto simp: authored_def)
  have "sort_key sequence m = sort_key sequence rs"
    using m(2,3) distinct inj by (intro sort_key_unique) (simp_all add: m(3) set_eq_iff_mset_eq_distinct [symmetric])
  also have "sort_key sequence rs = rs" by (rule sort_key_id) (simp only: seq sorted_upto)
  finally have "verify_evidence_stream c reg delivered = verify_ordered c reg rs"
    using m chain(2) one by (auto simp: verify_evidence_stream_def)
  then show ?thesis using verify_chain [OF chain c reg] by simp
qed

section \<open>Properties\<close>


text \<open>
  Nothing was lost: no position, no record that the service does not have, and no record taken back that the
  service had in fact accepted.
\<close>

definition intact :: "client_world \<Rightarrow> bool" where
  "intact w \<longleftrightarrow> cw_lost w = {} \<and> cw_gone w \<subseteq> service_holds w \<and> cw_taken_back w \<inter> cw_late w = {}"

lemma intact_chain:
  assumes ok: "client_ok c cfg identity w rs" and "intact w"
  shows "ghost_chain c cfg identity rs" "cl_sequence (cw_client w) = int (length rs)"
    "{raw. \<exists>r \<in> set rs. serialize_record r = Inr raw} = service_holds w \<union> held_bytes w"
proof -
  have "stream_chain c cfg identity rs" "sequence ` set rs = {1..cl_sequence (cw_client w)}" "0 \<le> cl_sequence (cw_client w)"
    using assms by (simp_all add: client_ok_def Let_def intact_def)
  from stream_chain_gapless [OF this] show "ghost_chain c cfg identity rs" "cl_sequence (cw_client w) = int (length rs)" .
  have "set (bb_items (cl_buffer (cw_client w)) @ cl_gaps (cw_client w)) = set (pending (cw_client w))" by (simp only: set_pending)
  then have "{raw. \<exists>r \<in> set rs. serialize_record r = Inr raw} = cw_answered w \<union> cw_gone w \<union> held_bytes w"
    using ok unfolding client_ok_def Let_def accounted_def held_bytes_def by (simp only:)
  moreover have "cw_late w \<subseteq> {raw. \<exists>r \<in> set rs. serialize_record r = Inr raw} \<union> cw_taken_back w"
    using ok unfolding client_ok_def Let_def by blast
  ultimately show "{raw. \<exists>r \<in> set rs. serialize_record r = Inr raw} = service_holds w \<union> held_bytes w"
    using assms(2) unfolding intact_def service_holds_def by blast
qed

text \<open>C7: An outage ends.  From every state reached without a lost position, in which every record that is
  unaccounted for is with the service and none that was taken back is, one flush against a service
  that answers leaves nothing behind: the client holds no record, the service has the whole
  chain, and a verifier that knows the client's evidence key accepts the stream up to the client's
  head in whatever order, and however often, the records arrived.\<close>

theorem flush_delivers_stream:
  assumes "(client_step c cfg identity)\<^sup>*\<^sup>* (client_start cfg) w" and "client_config_checked cfg = Inr cfg'"
    and "cw_lost w = {}" "cw_gone w \<subseteq> service_holds w" "cw_taken_back w \<inter> cw_late w = {}"
    and "1 \<le> cl_sequence (cw_client w)" and "crypto_ok c"
    and "map_of reg (si_key_id identity) = Some \<lparr>rk_namespace = Evidence, rk_public_key = ed_public c (si_private_key identity)\<rparr>"
  shows "\<exists>s' sent res rs. flush (cw_client w) (\<lambda>_. Submitted) = (s', sent, Inr res) \<and> pending s' = []
    \<and> {raw. \<exists>r \<in> set rs. serialize_record r = Inr raw} = service_holds w \<union> set sent
    \<and> (\<forall>delivered. set delivered = set rs \<longrightarrow>
         (\<exists>v. verify_evidence_stream c reg delivered = Inr v \<and> cr_start_sequence v = 1
            \<and> cr_end_sequence v = cl_sequence (cw_client w) \<and> Some (cr_last_digest v) = cl_prev_digest s'))"
proof -
  obtain rs where ok: "client_ok c cfg identity w rs" using client_reachable_ok [OF assms(1,2)] by auto
  have all: "submit_all (\<lambda>_. Submitted) bs = (bs, [], None)" for bs by (induction bs) simp_all
  obtain s' sent res where f: "flush (cw_client w) (\<lambda>_. Submitted) = (s', sent, Inr res)"
    unfolding flush_def all by (cases "drain (cl_buffer (cw_client w))") (simp add: Let_def)
  have a: "list_all (\<lambda>b. br_record_type b = str ''CoverageGap'') (cl_gaps (cw_client w))"
    "sorted (map br_sequence (bb_items (cl_buffer (cw_client w))))"
    "distinct (map br_record_id (bb_items (cl_buffer (cw_client w)) @ cl_gaps (cw_client w)))"
    "int (length (bb_items (cl_buffer (cw_client w)))) \<le> bb_bound (cl_buffer (cw_client w))"
    using ok by (simp_all add: client_ok_def Let_def)
  note left = flush_Inr [OF f a]
  have "intact w" using assms(3-5) by (simp add: intact_def)
  note chain = intact_chain [OF ok this]
  have rs: "rs \<noteq> []" using chain(2) assms(6) by auto
  have "cl_prev_digest s' = head_digest c rs" using left(7) ok by (simp add: client_ok_def Let_def)
  moreover have "cr_start_sequence v = 1" if "verify_evidence_stream c reg delivered = Inr v" "cr_records v = rs" for delivered v
    using that chain(1) rs
    by (auto simp: verify_evidence_stream_def verify_ordered_def Let_def result_simps ghost_chain_def
        split: if_splits option.splits prod.splits)
  ultimately have "\<exists>v. verify_evidence_stream c reg delivered = Inr v \<and> cr_start_sequence v = 1
      \<and> cr_end_sequence v = cl_sequence (cw_client w) \<and> Some (cr_last_digest v) = cl_prev_digest s'" if "set delivered = set rs" for delivered
    using verify_delivered [OF chain(1) rs assms(7,8) that] chain(2) by metis
  moreover have "pending s' = []" using left(1,2) by (simp add: pending_def)
  moreover have "{raw. \<exists>r \<in> set rs. serialize_record r = Inr raw} = service_holds w \<union> set sent"
    using chain(3) left(3) by (simp add: held_bytes_def)
  ultimately show ?thesis using f by blast
qed

text \<open>A break after a chain is reported at the record behind it.\<close>

lemma verify_links_break:
  assumes "verify_links c reg p k d rs = Inr (d', k')" and "sequence r \<noteq> sequence (last (p # rs)) + 1"
  shows "\<exists>e. verify_links c reg p k d (rs @ [r]) = Inl e \<and> ce_failure e = SequenceGapError
    \<and> ce_valid_through_sequence e = Some (sequence (last (p # rs)))"
  using assms
proof (induction rs arbitrary: p k d)
  case Nil
  then show ?case by (simp add: Let_def chain_error_at_def)
next
  case (Cons q rs)
  obtain k2 d2 where step: "sequence q = sequence p + 1" "prev_digest q = Some d"
    "signature_key_id c reg q (Some (sequence p)) (Some (gap_body p q ''key_discontinuity'')) = Inr k2"
    "rotation_ok c reg q k k2 (Some (sequence p)) (Some (gap_body p q ''key_discontinuity'')) = Inr ()"
    "digest_of c q = Inr d2" "verify_links c reg q k2 d2 rs = Inr (d', k')"
    using Cons.prems(1) by (auto simp: Let_def result_simps split: if_splits)
  show ?case using Cons.IH [OF step(6)] Cons.prems(2) step by (simp add: Let_def)
qed

lemma verify_chain_break:
  assumes chain: "ghost_chain c cfg identity rs" "rs \<noteq> []" and c: "crypto_ok c"
    and reg: "map_of reg (si_key_id identity) = Some \<lparr>rk_namespace = Evidence, rk_public_key = ed_public c (si_private_key identity)\<rparr>"
    and r: "authored c cfg identity r" "int (length rs) + 1 < sequence r"
  shows "\<exists>e. verify_evidence_stream c reg (rs @ [r]) = Inl e \<and> ce_failure e = SequenceGapError
    \<and> ce_valid_through_sequence e = Some (int (length rs))"
proof -
  obtain p rest where rs: "rs = p # rest" using chain(2) by (cases rs) auto
  have a: "authored c cfg identity q" if "q \<in> set (rs @ [r])" for q
    using chain(1) r(1) that by (auto simp: ghost_chain_def list_all_iff)
  note k = authored_key [OF a c reg] and seq = ghost_chain_sequence [OF chain(1)]
  have "map sequence (rs @ [r]) = [1..int (length rs)] @ [sequence r]" by (simp add: seq)
  moreover have "sorted ([1..int (length rs)] @ [sequence r])" "distinct ([1..int (length rs)] @ [sequence r])"
    using r(2) by (auto simp: sorted_append)
  ultimately have sorted: "sorted (map sequence (rs @ [r]))" and "distinct (map sequence (rs @ [r]))" by simp_all
  moreover have "map sequence (rs @ [r]) = map snd (map position (rs @ [r]))" by (simp add: position_def)
  ultimately have "distinct (map position ([] @ (rs @ [r])))" by (metis append_Nil distinct_map)
  then have fork: "fork_checked c reg [] (rs @ [r]) = Inr (rs @ [r])"
    using fork_checked_distinct [of "[]" "rs @ [r]" c reg] by simp
  have "map stream_id (rs @ [r]) = replicate (length rs + 1) (client_stream_id cfg)"
    using a by (intro replicate_eqI) (auto simp: authored_def)
  then have "set (map stream_id (rs @ [r])) = {client_stream_id cfg}"
    by (simp only: set_replicate_conv_if) simp
  then have verify: "verify_evidence_stream c reg (rs @ [r]) = verify_ordered c reg (rs @ [r])"
    using fork by (simp add: verify_evidence_stream_def sort_key_id [OF sorted] del: set_map set_append map_append)
  obtain v where v: "verify_ordered c reg rs = Inr v" using verify_chain [OF chain c reg] by blast
  then obtain d' k' d where links: "verify_links c reg p (si_key_id identity) d rest = Inr (d', k')" "digest_of c p = Inr d"
      "sequence p = 1" "prev_digest p = None"
    using k [of p] by (auto simp: rs verify_ordered_def Let_def result_simps split: option.splits if_splits prod.splits)
  have last: "sequence (last (p # rest)) = int (length rs)"
  proof -
    have "linked sequence prev_digest (digest_opt c) (p # rest)" using chain(1) by (simp add: ghost_chain_def rs)
    from linked_sequence_last [OF this] links(3) show ?thesis by (simp add: rs)
  qed
  have names: "one_namespace (Some Evidence) qs = Inr ()" if "set qs \<subseteq> set (rs @ [r])" for qs
    using that by (induction qs) (auto simp: k(3))
  have "one_namespace (Some Evidence) (rest @ [r]) = Inr ()" by (rule names) (auto simp: rs)
  moreover obtain e where "verify_links c reg p (si_key_id identity) d (rest @ [r]) = Inl e" "ce_failure e = SequenceGapError"
      "ce_valid_through_sequence e = Some (int (length rs))"
    using verify_links_break [OF links(1), of r] r(2) unfolding last by auto
  ultimately show ?thesis using links(2-4) k [of p] verify by (simp add: rs verify_ordered_def Let_def)
qed

text \<open>C23: A record that cannot be authored costs the stream its integrity.  The position is taken before the body
  is validated and signed and is not given back when either fails, so after a refused body the next
  record the service accepts leaves a hole: a verifier that receives the client's whole stream
  reports a sequence gap right behind the last record before the refusal, for evidence that never
  existed.\<close>

theorem refused_body_breaks_stream:
  assumes "(client_step c cfg identity)\<^sup>*\<^sup>* (client_start cfg) w" and "client_config_checked cfg = Inr cfg'"
    and "cw_lost w = {}" "cw_gone w \<subseteq> service_holds w" "cw_taken_back w \<inter> cw_late w = {}"
    and "1 \<le> cl_sequence (cw_client w)" and "crypto_ok c"
    and "map_of reg (si_key_id identity) = Some \<lparr>rk_namespace = Evidence, rk_public_key = ed_public c (si_private_key identity)\<rparr>"
    and "emit c cfg identity (cw_client w) rtype rbody family inp = (s1, sent1, Inl e)" and "authoring_error e"
    and "emit c cfg identity s1 rtype2 rbody2 family2 inp2 = (s2, [raw], Inr res)"
  shows "\<exists>rs r err. {raw. \<exists>r \<in> set rs. serialize_record r = Inr raw} = service_holds w \<union> br_canonical_bytes ` set (pending s1)
    \<and> sent1 = [] \<and> serialize_record r = Inr raw
    \<and> verify_evidence_stream c reg (rs @ [r]) = Inl err \<and> ce_failure err = SequenceGapError
    \<and> ce_valid_through_sequence err = Some (cl_sequence (cw_client w))"
proof -
  obtain rs where ok: "client_ok c cfg identity w rs" using client_reachable_ok [OF assms(1,2)] by auto
  note s1 = emit_error_state [OF assms(9) authoring_error_lost [OF assms(10)]]
  have "undisturbed (Inr res)" by simp
  with assms(11) obtain r b where r: "authored c cfg identity r" "held_as r b" "sequence r = cl_sequence s1 + 1"
    "[raw] = [br_canonical_bytes b]"
  proof (cases rule: emit_cases)
    case (extended r b d w)
    then show ?thesis using that by (cases w) simp_all
  qed simp
  have "intact w" using assms(3-5) by (simp add: intact_def)
  note chain = intact_chain [OF ok this]
  have "rs \<noteq> []" using chain(2) assms(6) by auto
  from verify_chain_break [OF chain(1) this assms(7,8) r(1)] r(3) s1 chain(2)
  obtain err where "verify_evidence_stream c reg (rs @ [r]) = Inl err" "ce_failure err = SequenceGapError"
    "ce_valid_through_sequence err = Some (cl_sequence (cw_client w))" by auto
  moreover have "br_canonical_bytes ` set (pending s1) = held_bytes w" using s1 by (simp add: held_bytes_def set_pending)
  ultimately show ?thesis using r(2,4) s1 chain(3) unfolding held_as_def by auto
qed

section \<open>A client\<close>

lemma sign_locally_ok:
  assumes v: "validate_record env = Inr u" and u: "portable (PDict (unsigned_mapping u))" "signature u = []" "1 \<le> sequence u"
    and k: "si_key_id identity \<noteq> []" "wf_str (si_key_id identity)" "list_all (\<lambda>x. \<not> is_surrogate x) (si_key_id identity)"
    and c: "crypto_ok c"
  shows "\<exists>b d. sign_locally c identity env = Inr (b, d)"
proof -
  obtain x where sign: "sign_record c u (si_key_id identity) (si_private_key identity) None = Inr (u\<lparr>signature :=
      signature_object (si_key_id identity) (ed_sign c (si_private_key identity) (sha256 c x)) (digest_text (sha256 c) x)\<rparr>)"
    using sign_record_ok [OF c u(2) k(1) u(1)] by blast
  let ?r = "u\<lparr>signature := signature_object (si_key_id identity) (ed_sign c (si_private_key identity) (sha256 c x)) (digest_text (sha256 c) x)\<rparr>"
  have "portable (PDict (signature_object (si_key_id identity) (ed_sign c (si_private_key identity) (sha256 c x)) (digest_text (sha256 c) x)))"
    by (rule signature_object_value) (use k crypto_okD [OF c] digest_text_ascii in auto)
  then have "portable (PDict (record_members ?r))" using u(1) by (intro record_members_value) simp_all
  then obtain raw where raw: "serialize_record ?r = Inr raw"
    using serialize_ok_iff [of "PDict (record_members ?r)"] by (auto simp: serialize_record_def canonicalize_def)
  moreover have "raw \<noteq> []" by (rule serialize_record_nonempty [OF raw])
  moreover have "record_digest (sha256 c) ?r = Inr (digest_text (sha256 c) raw)"
    using raw by (simp add: record_digest_def serialize_record_def canonical_digest_def)
  ultimately show ?thesis using v sign u(3) by (simp add: sign_locally_def buffered_record_ok_def Let_def)
qed

definition sample_policy :: family_policy where
  "sample_policy = \<lparr>fp_behaviour = Fail_Open, fp_acknowledged_by = str ''a'', fp_reason = str ''r'',
     fp_acknowledged_at = Aware 0, fp_trade_off_acknowledged = None\<rparr>"

definition sample_config :: client_config where
  "sample_config = \<lparr>cc_tenant_id = str ''t'', cc_boundary_ref = str ''b'', cc_collector_id = str ''c'',
     cc_deployment = str ''d'', cc_buffer_bound = 1, cc_families = [(str ''f'', sample_policy)],
     cc_silence_threshold_seconds = None\<rparr>"

definition sample_identity :: "nat signing_identity" where
  "sample_identity = \<lparr>si_key_id = str ''k'', si_private_key = 5\<rparr>"

definition sample_registry :: "nat registry" where
  "sample_registry = [(str ''k'', \<lparr>rk_namespace = Evidence, rk_public_key = 5\<rparr>)]"

definition final_body :: pydict where
  "final_body = [(KStr (str ''action_id''), PStr (str ''x'')), (KStr (str ''state''), PStr (str ''settled'')),
     (KStr (str ''reversible_until''), PNone), (KStr (str ''compensation_ref''), PNone),
     (KStr (str ''settled_at''), PStr (str ''2026-01-01T00:00:00.000Z''))]"

definition sample_draw :: "nat \<Rightarrow> draw" where
  "sample_draw n = (Aware 1767225600000000, [0, 1, 2, 3, 4, 5, 6, 7, 8, n])"

definition sample_inputs :: "nat \<Rightarrow> submit_outcome \<Rightarrow> emission_inputs" where
  "sample_inputs n answer = \<lparr>ei_record = sample_draw n, ei_gap = sample_draw 0, ei_absent_at = Aware 1767225600000000,
     ei_submit = \<lambda>_. answer\<rparr>"

text \<open>The envelopes of the first record, and of a third one that follows it.\<close>

definition sample_envelope :: "int \<Rightarrow> pystr \<Rightarrow> pystr option \<Rightarrow> pydict" where
  "sample_envelope seq rid prev =
     envelope_members sample_config (str ''FinalityRecord'') final_body rid seq prev (str ''2026-01-01T00:00:00.000Z'')"

lemma sample_ids:
  "record_id_at (sample_draw 1) = Inr (str ''019b76da-a800-7001-8203-040506070801'')"
  "record_id_at (sample_draw 2) = Inr (str ''019b76da-a800-7001-8203-040506070802'')"
  "rfc3339 (Aware 1767225600000000) = Inr (str ''2026-01-01T00:00:00.000Z'')"
  "client_config_checked sample_config = Inr sample_config"
  "policy_for sample_config (str ''f'') = Inr sample_policy"
  "str ''FinalityRecord'' \<in> set CUSTOMER_RECORD_TYPES" "str ''OutcomeRecord'' \<in> set CUSTOMER_RECORD_TYPES"
  by code_simp+

lemma first_envelope:
  "validate_record (sample_envelope 1 (str ''019b76da-a800-7001-8203-040506070801'') None)
     = Inr (record_of (sample_envelope 1 (str ''019b76da-a800-7001-8203-040506070801'') None))"
  "portable (PDict (unsigned_mapping (record_of (sample_envelope 1 (str ''019b76da-a800-7001-8203-040506070801'') None))))"
  "signature (record_of (sample_envelope 1 (str ''019b76da-a800-7001-8203-040506070801'') None)) = []"
  "sequence (record_of (sample_envelope 1 (str ''019b76da-a800-7001-8203-040506070801'') None)) = 1"
  by code_simp+

lemma third_envelope:
  "validate_record (sample_envelope 3 (str ''019b76da-a800-7001-8203-040506070802'') (Some zero_digest))
     = Inr (record_of (sample_envelope 3 (str ''019b76da-a800-7001-8203-040506070802'') (Some zero_digest)))"
  "portable (PDict (unsigned_mapping (record_of (sample_envelope 3 (str ''019b76da-a800-7001-8203-040506070802'') (Some zero_digest)))))"
  "signature (record_of (sample_envelope 3 (str ''019b76da-a800-7001-8203-040506070802'') (Some zero_digest))) = []"
  "sequence (record_of (sample_envelope 3 (str ''019b76da-a800-7001-8203-040506070802'') (Some zero_digest))) = 3"
  by code_simp+

lemma sample_key:
  "si_key_id sample_identity \<noteq> []" "wf_str (si_key_id sample_identity)"
  "list_all (\<lambda>x. \<not> is_surrogate x) (si_key_id sample_identity)"
  "map_of sample_registry (si_key_id sample_identity)
     = Some \<lparr>rk_namespace = Evidence, rk_public_key = ed_public const_crypto (si_private_key sample_identity)\<rparr>"
  by (code_simp, code_simp, code_simp, simp add: sample_identity_def sample_registry_def const_crypto_def plain_crypto_def)

text \<open>An emission whose record can be signed.\<close>

lemma sample_emission:
  assumes "sign_locally const_crypto sample_identity (sample_envelope (cl_sequence s + 1) rid (cl_prev_digest s)) = Inr (b, d)"
    and "record_id_at (sample_draw n) = Inr rid"
  shows "emit const_crypto sample_config sample_identity s (str ''FinalityRecord'') final_body (str ''f'') (sample_inputs n answer)
    = deliver const_crypto sample_config sample_identity (s\<lparr>cl_sequence := cl_sequence s + 1, cl_prev_digest := Some d\<rparr>) b
        sample_policy (str ''f'') (cl_sequence s, cl_prev_digest s) (sample_inputs n answer)"
  using assms sample_ids
  by (simp add: emit_def author_def Let_def build_envelope_def sample_envelope_def sample_inputs_def)
     (simp add: sample_draw_def)

lemma sample_client:
  obtains w b where "(client_step const_crypto sample_config sample_identity)\<^sup>*\<^sup>* (client_start sample_config) w"
    "cw_lost w = {}" "cw_gone w = {}" "cw_taken_back w = {}" "cw_answered w = {}"
    "cl_sequence (cw_client w) = 1" "cl_prev_digest (cw_client w) = Some zero_digest" "pending (cw_client w) = [b]"
    "is_full (cl_buffer (cw_client w))"
proof -
  let ?rid = "str ''019b76da-a800-7001-8203-040506070801''"
  let ?s = "new_client sample_config"
  obtain b d where sign: "sign_locally const_crypto sample_identity (sample_envelope 1 ?rid None) = Inr (b, d)"
    using sign_locally_ok [OF first_envelope(1-3) _ sample_key(1-3) const_crypto_ok] first_envelope(4) by auto
  have d: "d = zero_digest"
    using sign by (auto simp: sign_locally_def Let_def record_digest_def canonical_digest_def rbind_eq_Inr const_crypto_def
        plain_crypto_def zero_digest_def digest_text_def split: sum.splits if_splits)
  let ?t = "?s\<lparr>cl_sequence := 1, cl_prev_digest := Some d, cl_unreachable_since := Some (Aware 1767225600000000),
    cl_buffer := \<lparr>bb_bound = 1, bb_items = [b], bb_refused = 0\<rparr>\<rparr>"
  have e: "emit const_crypto sample_config sample_identity ?s (str ''FinalityRecord'') final_body (str ''f'')
       (sample_inputs 1 Unavailable) = (?t, [], Inr (emitted b (Some (br_sequence b)) False True))"
    using sample_emission [of ?s ?rid b d 1 Unavailable] sign sample_ids(1)
    by (simp add: new_client_def deliver_def sample_inputs_def note_unreachable_def buffer_or_gap_def is_full_def
        buffer_append_def sample_config_def)
  have step: "client_step const_crypto sample_config sample_identity (client_start sample_config)
      \<lparr>cw_client = ?t, cw_answered = {}, cw_late = {}, cw_lost = {}, cw_gone = {}, cw_taken_back = {}\<rparr>"
    using step_emit [where w = "client_start sample_config", OF _ e _ refl empty_subsetI]
    by (simp add: client_start_def pending_def) (simp add: new_client_def is_full_def sample_config_def)
  show thesis
    by (rule that [OF r_into_rtranclp [of "client_step const_crypto sample_config sample_identity", OF step], of b])
      (simp_all add: d pending_def is_full_def new_client_def)
qed


theorem flush_delivers_stream_witness:
  "\<exists>s s' sent res rs v. flush s (\<lambda>_. Submitted) = (s', sent, Inr res) \<and> pending s' = [] \<and> cl_sequence s = 1
     \<and> verify_evidence_stream const_crypto sample_registry (rs @ rs) = Inr v \<and> cr_end_sequence v = 1"
proof -
  obtain w b where w: "(client_step const_crypto sample_config sample_identity)\<^sup>*\<^sup>* (client_start sample_config) w"
    "cw_lost w = {}" "cw_gone w = {}" "cw_taken_back w = {}" "cl_sequence (cw_client w) = 1"
    by (rule sample_client)
  then have "cw_gone w \<subseteq> service_holds w" "cw_taken_back w \<inter> cw_late w = {}" "1 \<le> cl_sequence (cw_client w)" by simp_all
  from flush_delivers_stream [OF w(1) sample_ids(4) w(2) this const_crypto_ok sample_key(4)]
  obtain s' sent res rs where f: "flush (cw_client w) (\<lambda>_. Submitted) = (s', sent, Inr res)" "pending s' = []"
    and v: "\<forall>delivered. set delivered = set rs \<longrightarrow>
         (\<exists>v. verify_evidence_stream const_crypto sample_registry delivered = Inr v \<and> cr_start_sequence v = 1
            \<and> cr_end_sequence v = cl_sequence (cw_client w) \<and> Some (cr_last_digest v) = cl_prev_digest s')" by blast
  have "set (rs @ rs) = set rs" by simp
  with v w(5) obtain v where "verify_evidence_stream const_crypto sample_registry (rs @ rs) = Inr v" "cr_end_sequence v = 1" by metis
  with f w(5) show ?thesis by blast
qed

text \<open>A body without its members, and then a complete one.\<close>

theorem refused_body_breaks_stream_witness:
  "\<exists>rs r err. verify_evidence_stream const_crypto sample_registry (rs @ [r]) = Inl err
     \<and> ce_failure err = SequenceGapError \<and> ce_valid_through_sequence err = Some 1"
proof -
  obtain w b where w: "(client_step const_crypto sample_config sample_identity)\<^sup>*\<^sup>* (client_start sample_config) w"
    "cw_lost w = {}" "cw_gone w = {}" "cw_taken_back w = {}"
    "cl_sequence (cw_client w) = 1" "cl_prev_digest (cw_client w) = Some zero_digest"
    by (rule sample_client)
  let ?s = "cw_client w"
  note s = w(5,6)
  have "validate_record (envelope_members sample_config (str ''OutcomeRecord'') [] (str ''019b76da-a800-7001-8203-040506070802'')
      2 (Some zero_digest) (str ''2026-01-01T00:00:00.000Z'')) = Inl ModelInvalid" by code_simp
  then have "sign_locally const_crypto sample_identity (envelope_members sample_config (str ''OutcomeRecord'') []
      (str ''019b76da-a800-7001-8203-040506070802'') 2 (Some zero_digest) (str ''2026-01-01T00:00:00.000Z''))
      = Inl (ClRecord ModelInvalid)" by (simp add: sign_locally_def)
  then have bad: "emit const_crypto sample_config sample_identity ?s (str ''OutcomeRecord'') [] (str ''f'') (sample_inputs 2 Submitted)
      = (?s\<lparr>cl_sequence := 2\<rparr>, [], Inl (ClRecord ModelInvalid))"
    using sample_ids s
    by (simp add: emit_def author_def Let_def build_envelope_def sample_inputs_def) (simp add: sample_draw_def)
  let ?s1 = "?s\<lparr>cl_sequence := 2\<rparr>" and ?rid = "str ''019b76da-a800-7001-8203-040506070802''"
  obtain b2 d2 where "sign_locally const_crypto sample_identity (sample_envelope 3 ?rid (Some zero_digest)) = Inr (b2, d2)"
    using sign_locally_ok [OF third_envelope(1-3) _ sample_key(1-3) const_crypto_ok] third_envelope(4) by auto
  then have good: "emit const_crypto sample_config sample_identity ?s1 (str ''FinalityRecord'') final_body (str ''f'')
       (sample_inputs 2 Submitted) = (?s1\<lparr>cl_sequence := 3, cl_prev_digest := Some d2, cl_unreachable_since := None\<rparr>,
         [br_canonical_bytes b2], Inr (emitted b2 (Some (br_sequence b2)) True False))"
    using sample_emission [of ?s1 ?rid b2 d2 2 Submitted] s sample_ids(2)
    by (simp add: deliver_def sample_inputs_def)
  have side: "cw_gone w \<subseteq> service_holds w" "cw_taken_back w \<inter> cw_late w = {}" "1 \<le> cl_sequence ?s"
    "authoring_error (ClRecord ModelInvalid)" by (simp_all add: w authoring_error_def)
  from refused_body_breaks_stream [OF w(1) sample_ids(4) w(2) side(1-3) const_crypto_ok sample_key(4) bad side(4) good] s(1)
  show ?thesis by auto
qed

text \<open>
  A gap that the caller emits itself is buffered as any record is; a flush that does not reach the service
  drops it, because it puts back what is not a gap and keeps its own gaps only.
\<close>

lemma unsent_caller_gap_dropped:
  assumes "b \<in> set (bb_items (cl_buffer s))" "br_record_type b = str ''CoverageGap''" "b \<notin> set (cl_gaps s)"
    and "flush s (\<lambda>_. Unavailable) = (s', sent, out)"
  shows "out = Inr [] \<and> sent = [] \<and> b \<notin> set (pending s') \<and> cl_sequence s' = cl_sequence s"
proof -
  have "submit_all (\<lambda>_. Unavailable) bs = ([], bs, None)" for bs by (induction bs) simp_all
  then show ?thesis using assms
    by (auto simp: flush_def Let_def pending_def drain_def restore_def fold_Cons_rev split: if_splits)
qed

end
