(* ===== verification/Spec2Isabelle.thy ===== *)
theory Spec2Isabelle
  imports Ecp_Prelude Canonical Json_Text Instants Registries Records Signing
    Hash_Links Chain Calendar Receipts Bundles Revocations
    Py_Text Trust Qualifications Durations Qualification_Store Reconciliations
    Coverages Py_Parsing Signed_Wire Lifecycle Lifecycle_Facts
    Buffers Client_Config Record_Ids Client Client_Facts
begin

text \<open>
  A model of the evidence control plane.
\<close>

end
